(* ===== verification/Prelude.thy ===== *)
theory Prelude
  imports Main "HOL-Library.AList" "HOL-Library.Sublist"
begin

text \<open>
  Shared vocabulary of the development.

  \<^item> Errors. A Go call returns a value or an error, or panics. The model returns
    \<open>gerr + 'a\<close>: \<open>Inl (Err msg)\<close> is a returned error with its text, \<open>Inl (Panic msg)\<close> a
    run-time panic, \<open>Inr x\<close> a result. \<open>wrap\<close> is \<^verbatim>\<open>fmt.Errorf("msg: %w", err)\<close>.
  \<^item> Strings. A Go string is a sequence of bytes, here \<open>string\<close> (a list of 8-bit
    characters). The functions of package \<^verbatim>\<open>strings\<close> that the program calls are defined
    below, on bytes, under their Go names.
  \<^item> Maps. A Go map with string keys is an association list with distinct keys. The order
    in which \<^verbatim>\<open>range\<close> visits it is not determined by the language, so a function that ranges
    over a map takes an order \<open>ord\<close>, which \<open>range_order\<close> requires to be a rearrangement
    of the keys and nothing else.
\<close>

named_theorems go_simps \<open>unfolding rules for the Go run-time vocabulary\<close>

section \<open>Errors\<close>

datatype gerr = Err string | Panic string

type_synonym 'a result = "gerr + 'a"

fun wrap :: "string \<Rightarrow> gerr \<Rightarrow> gerr" where
  "wrap msg (Err e) = Err (msg @ '': '' @ e)"
| "wrap msg (Panic p) = Panic p"

fun is_panic :: "gerr \<Rightarrow> bool" where
  "is_panic (Panic p) = True"
| "is_panic (Err e) = False"

lemma is_panic_wrap [simp]: "is_panic (wrap msg e) = is_panic e"
  by (cases e) auto

fun no_panic :: "'a result \<Rightarrow> bool" where
  "no_panic (Inl e) = (\<not> is_panic e)"
| "no_panic (Inr x) = True"

fun is_ok :: "'a result \<Rightarrow> bool" where
  "is_ok (Inl e) = False"
| "is_ok (Inr x) = True"

lemma is_ok_iff: "is_ok r \<longleftrightarrow> (\<exists>x. r = Inr x)"
  by (cases r) auto

text \<open>
  Calls that also change a state return a result and the new state. \<open>andThen\<close> is
  \<^verbatim>\<open>x, err := f(); if err != nil { return err }\<close>, \<open>wrapErr\<close> adds a message to the error.
\<close>

type_synonym ('a, 's) call = "'a result \<times> 's"

fun andThen :: "('a, 's) call \<Rightarrow> ('a \<Rightarrow> 's \<Rightarrow> ('b, 's) call) \<Rightarrow> ('b, 's) call" where
  "andThen (Inl e, s) f = (Inl e, s)"
| "andThen (Inr a, s) f = f a s"

fun wrapErr :: "string \<Rightarrow> ('a, 's) call \<Rightarrow> ('a, 's) call" where
  "wrapErr msg (Inl e, s) = (Inl (wrap msg e), s)"
| "wrapErr msg (Inr a, s) = (Inr a, s)"

lemma andThen_ok_iff:
  "andThen m f = (Inr b, s') \<longleftrightarrow> (\<exists>a s. m = (Inr a, s) \<and> f a s = (Inr b, s'))"
  by (cases "(m, f)" rule: andThen.cases) auto

lemma andThen_fst:
  "fst m = Inl e \<Longrightarrow> andThen m f = (Inl e, snd m)" "fst m = Inr a \<Longrightarrow> andThen m f = f a (snd m)"
  by (cases m; simp)+

lemma wrapErr_ok_iff [simp]: "wrapErr msg m = (Inr a, s) \<longleftrightarrow> m = (Inr a, s)"
  by (cases "(msg, m)" rule: wrapErr.cases) auto

lemma case_ok_iff:
  "(case x of Inl e \<Rightarrow> (Inl (g e), s) | Inr y \<Rightarrow> f y) = (Inr b, s') \<longleftrightarrow> (\<exists>y. x = Inr y \<and> f y = (Inr b, s'))"
  by (cases x) auto

lemma if_ok_iff: "(if c then (Inl e, s) else m) = (Inr b, s') \<longleftrightarrow> \<not> c \<and> m = (Inr b, s')"
  by auto

lemmas ok_iffs = andThen_ok_iff wrapErr_ok_iff case_ok_iff if_ok_iff

lemma snd_case_call [simp]:
  "snd (case p of (Inl e, c) \<Rightarrow> (A e c, f c) | (Inr y, c) \<Rightarrow> (B y c, f c)) = f (snd p)"
  by (cases p; cases "fst p") auto

lemma snd_wrapErr [simp]: "snd (wrapErr msg m) = snd m"
  by (cases "(msg, m)" rule: wrapErr.cases) auto

lemma no_panic_wrapErr [simp]: "no_panic (fst (wrapErr msg m)) = no_panic (fst m)"
  by (cases "(msg, m)" rule: wrapErr.cases) auto

lemma no_panic_andThen:
  "no_panic (fst m) \<Longrightarrow> (\<And>a s. m = (Inr a, s) \<Longrightarrow> no_panic (fst (f a s))) \<Longrightarrow> no_panic (fst (andThen m f))"
  by (cases "(m, f)" rule: andThen.cases) auto

text \<open>
  Reflexive and transitive relations between states are carried through sequences of calls,
  whether they end in a result or in an error.
\<close>

locale frame =
  fixes R :: "'s \<Rightarrow> 's \<Rightarrow> bool"
  assumes frame_refl: "R s s"
    and frame_trans: "R s s' \<Longrightarrow> R s' s'' \<Longrightarrow> R s s''"
begin

lemma frame_andThen:
  assumes "R s (snd m)" and "\<And>a s'. m = (Inr a, s') \<Longrightarrow> R s' (snd (f a s'))"
  shows "R s (snd (andThen m f))"
  using assms frame_trans by (cases "(m, f)" rule: andThen.cases) auto

end

section \<open>Package strings\<close>

definition ContainsAny :: "string \<Rightarrow> string \<Rightarrow> bool" where
  "ContainsAny s chars = list_ex (\<lambda>c. c \<in> set chars) s"

lemma ContainsAny_iff [go_simps]: "ContainsAny s chars \<longleftrightarrow> (\<exists>c\<in>set s. c \<in> set chars)"
  by (simp add: ContainsAny_def list_ex_iff)

text \<open>Index and LastIndex of a one-byte substring, -1 when it does not occur.\<close>

definition IndexByte :: "string \<Rightarrow> char \<Rightarrow> int" where
  "IndexByte s c = (if c \<in> set s then int (length (takeWhile (\<lambda>x. x \<noteq> c) s)) else -1)"

definition LastIndexByte :: "string \<Rightarrow> char \<Rightarrow> int" where
  "LastIndexByte s c =
     (if c \<in> set s then int (length s) - 1 - int (length (takeWhile (\<lambda>x. x \<noteq> c) (rev s))) else -1)"

lemma IndexByte_eq_minus_one [go_simps]: "IndexByte s c = -1 \<longleftrightarrow> c \<notin> set s"
  by (simp add: IndexByte_def)

lemma length_takeWhile_less: "x \<in> set xs \<Longrightarrow> \<not> P x \<Longrightarrow> length (takeWhile P xs) < length xs"
  by (induction xs) auto

lemma LastIndexByte_bounds:
  "-1 \<le> LastIndexByte s c \<and> LastIndexByte s c < int (length s)"
proof (cases "c \<in> set s")
  case True
  then have "length (takeWhile (\<lambda>x. x \<noteq> c) (rev s)) < length (rev s)"
    by (intro length_takeWhile_less) auto
  with True show ?thesis by (simp add: LastIndexByte_def)
next
  case False
  then show ?thesis by (cases s) (auto simp: LastIndexByte_def)
qed

text \<open>The slice \<^verbatim>\<open>s[i:]\<close> with \<open>i = LastIndex(s, c) + 1\<close>: the bytes after the last \<open>c\<close>.\<close>

definition AfterLast :: "string \<Rightarrow> char \<Rightarrow> string" where
  "AfterLast s c = drop (nat (LastIndexByte s c + 1)) s"

lemma LastIndexByte_append:
  assumes "c \<notin> set t"
  shows "LastIndexByte (s @ c # t) c = int (length s)"
proof -
  have "takeWhile (\<lambda>x. x \<noteq> c) (rev t @ c # rev s) = rev t"
    using assms by (simp add: takeWhile_append)
  then show ?thesis by (simp add: LastIndexByte_def)
qed

lemma AfterLast_append: "c \<notin> set t \<Longrightarrow> AfterLast (s @ c # t) c = t"
  by (simp add: AfterLast_def LastIndexByte_append nat_add_distrib)

lemma AfterLast_absent: "c \<notin> set s \<Longrightarrow> AfterLast s c = s"
  by (simp add: AfterLast_def LastIndexByte_def)

lemma split_last_byte: "c \<in> set s \<Longrightarrow> \<exists>a b. s = a @ c # b \<and> c \<notin> set b"
  by (metis split_list_last)

lemma split_first_unique:
  assumes "c \<notin> set a" and "c \<notin> set b" and "a @ c # x = b @ c # y"
  shows "a = b \<and> x = y"
  using assms
proof (induction a arbitrary: b)
  case Nil
  then show ?case by (cases b) auto
next
  case (Cons d a)
  then show ?case by (cases b) auto
qed

lemma AfterLast_no_sep: "c \<notin> set (AfterLast s c)"
proof (cases "c \<in> set s")
  case True
  then obtain a b where "s = a @ c # b" "c \<notin> set b"
    using split_last_byte by metis
  then show ?thesis by (simp add: AfterLast_append)
next
  case False
  then show ?thesis by (simp add: AfterLast_absent)
qed

text \<open>\<^verbatim>\<open>strings.SplitN(s, sep, 2)\<close> and \<^verbatim>\<open>strings.Split(s, sep)\<close> for a one-byte separator.\<close>

definition SplitN2 :: "string \<Rightarrow> char \<Rightarrow> string list" where
  "SplitN2 s c =
     (if c \<in> set s
      then [takeWhile (\<lambda>x. x \<noteq> c) s, tl (dropWhile (\<lambda>x. x \<noteq> c) s)]
      else [s])"

fun Split :: "string \<Rightarrow> char \<Rightarrow> string list" where
  "Split [] c = [[]]"
| "Split (x # xs) c =
     (if x = c then [] # Split xs c
      else (case Split xs c of [] \<Rightarrow> [[x]] | p # ps \<Rightarrow> (x # p) # ps))"

lemma Split_not_Nil [simp]: "Split s c \<noteq> []"
  by (induction s) (auto split: list.splits)

lemma Split_no_sep: "p \<in> set (Split s c) \<Longrightarrow> c \<notin> set p"
  by (induction s arbitrary: p) (auto split: list.splits if_splits)

lemma Split_absent: "c \<notin> set s \<Longrightarrow> Split s c = [s]"
  by (induction s) auto

lemma Split_append_sep: "c \<notin> set s \<Longrightarrow> Split (s @ c # t) c = s # Split t c"
  by (induction s) auto

definition CutPrefix :: "string \<Rightarrow> string \<Rightarrow> string \<times> bool" where
  "CutPrefix s p = (if take (length p) s = p then (drop (length p) s, True) else (s, False))"

text \<open>
  \<^verbatim>\<open>strings.TrimSpace\<close> removes leading and trailing Unicode white space. \<open>space_seqs\<close> lists
  the UTF-8 encodings of the code points with the White\_Space property: the six ASCII ones,
  U+0085, U+00A0, U+1680, U+2000 to U+200A, U+2028, U+2029, U+202F, U+205F and U+3000.
\<close>

definition bytes :: "nat list \<Rightarrow> string" where
  "bytes ns = map char_of ns"

definition space_seqs :: "string list" where
  "space_seqs = map bytes
     ([[9], [10], [11], [12], [13], [32], [0xC2, 0x85], [0xC2, 0xA0], [0xE1, 0x9A, 0x80]]
      @ map (\<lambda>n. [0xE2, 0x80, 0x80 + n]) [0..<11]
      @ [[0xE2, 0x80, 0xA8], [0xE2, 0x80, 0xA9], [0xE2, 0x80, 0xAF], [0xE2, 0x81, 0x9F],
         [0xE3, 0x80, 0x80]])"

definition strip_one :: "string list \<Rightarrow> string \<Rightarrow> string option" where
  "strip_one seqs s =
     (case find (\<lambda>p. take (length p) s = p) seqs of
        None \<Rightarrow> None
      | Some p \<Rightarrow> Some (drop (length p) s))"

text \<open>At most one code point is removed per round, so \<open>length s\<close> rounds are enough.\<close>

fun strip_rounds :: "nat \<Rightarrow> string list \<Rightarrow> string \<Rightarrow> string" where
  "strip_rounds 0 seqs s = s"
| "strip_rounds (Suc n) seqs s =
     (case strip_one seqs s of None \<Rightarrow> s | Some s' \<Rightarrow> strip_rounds n seqs s')"

definition TrimLeftSpace :: "string \<Rightarrow> string" where
  "TrimLeftSpace s = strip_rounds (length s) space_seqs s"

definition TrimRightSpace :: "string \<Rightarrow> string" where
  "TrimRightSpace s = rev (strip_rounds (length s) (map rev space_seqs) (rev s))"

definition TrimSpace :: "string \<Rightarrow> string" where
  "TrimSpace s = TrimRightSpace (TrimLeftSpace s)"

lemma strip_one_shorter:
  assumes "strip_one seqs s = Some s'" and "[] \<notin> set seqs"
  shows "length s' < length s"
proof -
  from assms(1) obtain p where p: "find (\<lambda>p. take (length p) s = p) seqs = Some p"
    and s': "s' = drop (length p) s"
    by (auto simp: strip_one_def split: option.splits)
  from p have "p \<in> set seqs" and "take (length p) s = p"
    by (auto simp: find_Some_iff)
  with assms(2) have "0 < length p" and "length p \<le> length s"
    by auto (metis length_take min.cobounded1)
  then have "length s - length p < length s" by linarith
  with s' show ?thesis by simp
qed

lemma strip_rounds_done:
  assumes "[] \<notin> set seqs" and "length s \<le> n"
  shows "strip_one seqs (strip_rounds n seqs s) = None"
  using assms
proof (induction n arbitrary: s)
  case 0
  then show ?case
    using strip_one_shorter [of seqs s] by (cases "strip_one seqs s") auto
next
  case (Suc n)
  show ?case
  proof (cases "strip_one seqs s")
    case None
    then show ?thesis by simp
  next
    case (Some s')
    with Suc.prems strip_one_shorter have "length s' \<le> n" by fastforce
    with Some Suc show ?thesis by simp
  qed
qed

lemma space_seqs_eq: "space_seqs =
   [[CHR 0x09], [CHR 0x0A], [CHR 0x0B], [CHR 0x0C], [CHR 0x0D], [CHR '' ''], [CHR 0xC2, CHR 0x85],
    [CHR 0xC2, CHR 0xA0], [CHR 0xE1, CHR 0x9A, CHR 0x80],
    [CHR 0xE2, CHR 0x80, CHR 0x80], [CHR 0xE2, CHR 0x80, CHR 0x81], [CHR 0xE2, CHR 0x80, CHR 0x82],
    [CHR 0xE2, CHR 0x80, CHR 0x83], [CHR 0xE2, CHR 0x80, CHR 0x84], [CHR 0xE2, CHR 0x80, CHR 0x85],
    [CHR 0xE2, CHR 0x80, CHR 0x86], [CHR 0xE2, CHR 0x80, CHR 0x87], [CHR 0xE2, CHR 0x80, CHR 0x88],
    [CHR 0xE2, CHR 0x80, CHR 0x89], [CHR 0xE2, CHR 0x80, CHR 0x8A],
    [CHR 0xE2, CHR 0x80, CHR 0xA8], [CHR 0xE2, CHR 0x80, CHR 0xA9], [CHR 0xE2, CHR 0x80, CHR 0xAF], [CHR 0xE2, CHR 0x81, CHR 0x9F],
    [CHR 0xE3, CHR 0x80, CHR 0x80]]"
  by (simp add: space_seqs_def bytes_def char_of_def upt_rec bit_Suc_0_iff)

lemma strip_rounds_stop: "strip_one seqs s = None \<Longrightarrow> strip_rounds n seqs s = s"
  by (cases n) auto

lemmas trim_eval = TrimSpace_def TrimLeftSpace_def TrimRightSpace_def strip_one_def space_seqs_eq
  strip_rounds_stop

section \<open>Maps with string keys\<close>

type_synonym 'v gomap = "(string \<times> 'v) list"

datatype range_site = AtImages | AtInit | AtEphemeral | AtBuild | AtVerify | AtCheckAll | AtMatch | AtConfig | AtDesired | AtOverride

type_synonym orders = "range_site \<Rightarrow> string list \<Rightarrow> string list"

definition range_order :: "orders \<Rightarrow> bool" where
  "range_order ord \<longleftrightarrow> (\<forall>site ks. distinct ks \<longrightarrow> distinct (ord site ks) \<and> set (ord site ks) = set ks)"

definition wf_map :: "'v gomap \<Rightarrow> bool" where
  "wf_map m \<longleftrightarrow> distinct (map fst m)"

definition map_set :: "'v gomap \<Rightarrow> string \<Rightarrow> 'v \<Rightarrow> 'v gomap" where
  "map_set m k v = AList.update k v m"

text \<open>\<^verbatim>\<open>for k, v := range m\<close>: the entries of \<open>m\<close> in the order the run-time chose.\<close>

definition range_map :: "orders \<Rightarrow> range_site \<Rightarrow> 'v gomap \<Rightarrow> (string \<times> 'v) list" where
  "range_map ord site m =
     List.map_filter (\<lambda>k. map_option (\<lambda>v. (k, v)) (map_of m k)) (ord site (map fst m))"

lemma map_of_map_set [simp]: "map_of (map_set m k v) = (map_of m)(k \<mapsto> v)"
  by (simp add: map_set_def update_conv')

lemma wf_map_Nil [simp]: "wf_map []"
  by (simp add: wf_map_def)

lemma wf_map_set [simp]: "wf_map m \<Longrightarrow> wf_map (map_set m k v)"
  by (simp add: wf_map_def map_set_def distinct_update)

lemma keys_map_set [simp]: "fst ` set (map_set m k v) = insert k (fst ` set m)"
  by (metis dom_map_of_conv_image_fst dom_fun_upd map_of_map_set option.distinct(1))

lemma set_map_filter_iff: "y \<in> set (List.map_filter f xs) \<longleftrightarrow> (\<exists>x\<in>set xs. f x = Some y)"
  by (induction xs) (auto simp: List.map_filter_simps split: option.splits)

lemma map_fst_map_filter:
  "map fst (List.map_filter (\<lambda>k. map_option (\<lambda>v. (k, v)) (f k)) ks) = filter (\<lambda>k. f k \<noteq> None) ks"
  by (induction ks) (auto simp: List.map_filter_simps split: option.splits)

lemma set_range_map:
  assumes "range_order ord" and "wf_map m"
  shows "set (range_map ord site m) = set m"
proof -
  have keys: "set (ord site (map fst m)) = fst ` set m"
    using assms by (simp add: range_order_def wf_map_def)
  have "(k, v) \<in> set (range_map ord site m) \<longleftrightarrow> (k, v) \<in> set m" for k v
    using keys assms(2) by (auto simp: range_map_def set_map_filter_iff wf_map_def image_iff)
      (force dest: map_of_SomeD)+
  then show ?thesis by auto
qed

lemma distinct_range_map:
  assumes "range_order ord" and "wf_map m"
  shows "distinct (map fst (range_map ord site m))"
  using assms by (simp add: range_map_def map_fst_map_filter range_order_def wf_map_def)

lemma map_of_range_map: "range_order ord \<Longrightarrow> wf_map m \<Longrightarrow> map_of (range_map ord site m) = map_of m"
  using map_of_inject_set [of "range_map ord site m" m] set_range_map [of ord m site] distinct_range_map [of ord m site]
  by (simp add: wf_map_def)

text \<open>The insertion order, used by the witnesses.\<close>

definition in_order :: orders where
  "in_order site ks = ks"

lemma range_order_in_order [simp]: "range_order in_order"
  by (simp add: range_order_def in_order_def)

end
