(* ===== verification/Types.thy ===== *)
theory Types
  imports Prelude
begin

text \<open>
  The wire format of \<^verbatim>\<open>/checkimages\<close> (\<^verbatim>\<open>internal/types/types.go\<close>). Each Go struct is a record
  with the source's fields; a field whose name occurs in several structs carries a prefix.
  \<^verbatim>\<open>types.Image\<close> embeds Kyverno's \<^verbatim>\<open>imageutils.ImageInfo\<close>; the program reads its name and digest,
  writes its digest and calls \<^verbatim>\<open>String\<close>, which is a parameter wherever it is used.
  Kyverno's \<^verbatim>\<open>Condition\<close> holds its key and value as optional raw JSON.
\<close>

record Image =
  img_Registry :: string
  img_Name :: string
  img_Path :: string
  img_Tag :: string
  img_Digest :: string

record ImageInfo =
  info_Image :: Image
  info_Pointer :: string

record Condition =
  RawKey :: "string option"
  Operator :: string
  RawValue :: "string option"
  Message :: string

record AnyAllConditions =
  AnyConditions :: "Condition list"
  AllConditions :: "Condition list"

record AttestationType =
  att_Name :: string
  att_Conditions :: AnyAllConditions

record AttestationsInfo =
  ImageReference :: string
  att_Type :: "AttestationType list"

record ImageInfos =
  InitContainers :: "ImageInfo gomap"
  Containers :: "ImageInfo gomap"
  EphemeralContainers :: "ImageInfo gomap"

record RequestData =
  rd_ImageReferences :: "string list"
  rd_Images :: ImageInfos
  rd_TrustPolicy :: string
  rd_Attestations :: "AttestationsInfo list"
  rd_Metadata :: string
  rd_Insecure :: bool

record VerificationRequest =
  ImageReferences :: "string list"
  Images :: ImageInfos
  TrustPolicy :: string
  Attestations :: "AttestationsInfo list"
  Insecure :: bool

text \<open>\<^verbatim>\<open>jsonpatch.Operation\<close>; the program only writes string values.\<close>

record Operation =
  op_Operation :: string
  op_Path :: string
  op_Value :: string

record ResponseData =
  Verified :: bool
  ErrorMessage :: string
  Results :: "Operation list"

type_synonym AttestationList = "AnyAllConditions list gomap"

definition EnvDefaultTrustPolicy :: string where
  "EnvDefaultTrustPolicy = ''DEFAULT_TRUST_POLICY''"

text \<open>All images of a request, group by group.\<close>

definition all_images :: "ImageInfos \<Rightarrow> (string \<times> ImageInfo) list" where
  "all_images imgs = Containers imgs @ InitContainers imgs @ EphemeralContainers imgs"

definition wf_images :: "ImageInfos \<Rightarrow> bool" where
  "wf_images imgs \<longleftrightarrow>
     wf_map (Containers imgs) \<and> wf_map (InitContainers imgs) \<and> wf_map (EphemeralContainers imgs)"

end
