(* ===== verification/Cache.thy ===== *)
theory Cache
  imports Types
begin

text \<open>
  The verdict cache (\<^verbatim>\<open>internal/cache/client.go\<close>). The store underneath is ristretto, which is not
  part of the repository: \<open>ristretto_ops\<close> is the object with its methods, over an opaque state
  \<open>'r\<close>, together with the JSON encoder of Kyverno conditions, and \<open>store_laws\<close> names what the
  cache relies on: a lookup returns nothing but what was stored under that key, a cleared store
  is empty, and different condition lists have different encodings. Nothing says that a stored
  entry is found again: ristretto drops and evicts entries at will.

  Integers: Go's \<^verbatim>\<open>int64\<close> and \<^verbatim>\<open>time.Duration\<close> are \<open>int\<close>, and the one product that can overflow
  is wrapped to 64 bits by \<open>int64\<close>.
\<close>

definition int64 :: "int \<Rightarrow> int" where
  "int64 x = (x + 2 ^ 63) mod 2 ^ 64 - 2 ^ 63"

lemma int64_id: "- (2 ^ 63) \<le> x \<Longrightarrow> x < 2 ^ 63 \<Longrightarrow> int64 x = x"
  by (simp add: int64_def)

lemma int64_range: "- (2 ^ 63) \<le> int64 x \<and> int64 x < 2 ^ 63"
  by (simp add: int64_def)

datatype cache_entry = ImageEntry Image | AttestationVerified

record ristretto_Config =
  NumCounters :: int
  MaxCost :: int
  BufferItems :: int
  IgnoreInternalCost :: bool

record 'r ristretto_ops =
  ristretto_NewCache :: "ristretto_Config \<Rightarrow> 'r result"
  ristretto_Get :: "'r \<Rightarrow> string \<Rightarrow> cache_entry option"
  ristretto_SetWithTTL :: "'r \<Rightarrow> string \<Rightarrow> cache_entry \<Rightarrow> int \<Rightarrow> int \<Rightarrow> bool \<times> 'r"
  ristretto_Clear :: "'r \<Rightarrow> 'r"
  ristretto_Close :: "'r \<Rightarrow> 'r"
  json_Marshal_conditions :: "AnyAllConditions list \<Rightarrow> string result"

record cache_conf =
  useCache :: bool
  ttl :: int
  maxSize :: int

record 'r cache = cache_conf +
  cache_ops :: "'r ristretto_ops"
  ristretto :: 'r

definition defaultMaxSize :: int where
  "defaultMaxSize = 1000"

definition defaultTTL :: int where
  "defaultTTL = 3600 * 1000000000"

section \<open>Construction\<close>

type_synonym cache_option = "cache_conf \<Rightarrow> cache_conf result"

definition WithCacheEnabled_cache :: "bool \<Rightarrow> cache_option" where
  "WithCacheEnabled_cache b c = Inr (c\<lparr> useCache := b \<rparr>)"

definition WithMaxSize :: "int \<Rightarrow> cache_option" where
  "WithMaxSize s c = Inr (c\<lparr> maxSize := s \<rparr>)"

definition WithTTLDuration :: "int \<Rightarrow> cache_option" where
  "WithTTLDuration t c = Inr (c\<lparr> ttl := t \<rparr>)"

fun applyOptions :: "cache_option list \<Rightarrow> cache_conf \<Rightarrow> cache_conf result" where
  "applyOptions [] c = Inr c"
| "applyOptions (opt # opts) c = (case opt c of Inl e \<Rightarrow> Inl e | Inr c' \<Rightarrow> applyOptions opts c')"

definition New_cache :: "'r ristretto_ops \<Rightarrow> cache_option list \<Rightarrow> 'r cache result" where
  "New_cache ops options =
     (case applyOptions options \<lparr> useCache = False, ttl = defaultTTL, maxSize = defaultMaxSize \<rparr> of
        Inl e \<Rightarrow> Inl e
      | Inr c0 \<Rightarrow>
          (let c1 = (if maxSize c0 \<le> 0 then c0\<lparr> maxSize := defaultMaxSize \<rparr> else c0);
               c2 = (if ttl c1 \<le> 0 then c1\<lparr> ttl := defaultTTL \<rparr> else c1)
           in (case ristretto_NewCache ops
                      \<lparr> NumCounters = int64 (maxSize c2 * 10), MaxCost = maxSize c2,
                        BufferItems = 64, IgnoreInternalCost = True \<rparr> of
                 Inl e \<Rightarrow> Inl e
               | Inr r \<Rightarrow> Inr (cache_conf.extend c2 \<lparr> cache_ops = ops, ristretto = r \<rparr>))))"

section \<open>Keys and operations\<close>

definition createImageKey :: "string \<Rightarrow> string \<Rightarrow> string" where
  "createImageKey trustPolicy imageRef = trustPolicy @ '';'' @ imageRef"

definition createAttestationKey ::
    "'r ristretto_ops \<Rightarrow> string \<Rightarrow> string \<Rightarrow> string \<Rightarrow> AnyAllConditions list \<Rightarrow> string result" where
  "createAttestationKey ops trustPolicy imageRef attestationType conditions =
     (case json_Marshal_conditions ops conditions of
        Inl e \<Rightarrow> Inl e
      | Inr c \<Rightarrow> Inr (trustPolicy @ '';'' @ imageRef @ '';'' @ attestationType @ '';'' @ c))"

definition store :: "'r cache \<Rightarrow> string \<Rightarrow> cache_entry \<Rightarrow> 'r cache" where
  "store c key v =
     c\<lparr> ristretto := snd (ristretto_SetWithTTL (cache_ops c) (ristretto c) key v 1 (ttl c)) \<rparr>"

definition AddImage :: "'r cache \<Rightarrow> string \<Rightarrow> string \<Rightarrow> Image \<Rightarrow> unit result \<times> 'r cache" where
  "AddImage c trustPolicy imageRef res =
     (if \<not> useCache c then (Inr (), c)
      else (Inr (), store c (createImageKey trustPolicy imageRef) (ImageEntry res)))"

definition GetImage :: "'r cache \<Rightarrow> string \<Rightarrow> string \<Rightarrow> Image option" where
  "GetImage c trustPolicy imageRef =
     (if \<not> useCache c then None
      else (case ristretto_Get (cache_ops c) (ristretto c) (createImageKey trustPolicy imageRef) of
              None \<Rightarrow> None
            | Some (ImageEntry img) \<Rightarrow> Some img
            | Some AttestationVerified \<Rightarrow> None))"

definition AddAttestation ::
    "'r cache \<Rightarrow> string \<Rightarrow> string \<Rightarrow> string \<Rightarrow> AnyAllConditions list \<Rightarrow> unit result \<times> 'r cache" where
  "AddAttestation c trustPolicy imageRef attestationType conditions =
     (if \<not> useCache c then (Inr (), c)
      else (case createAttestationKey (cache_ops c) trustPolicy imageRef attestationType conditions of
              Inl e \<Rightarrow> (Inl (wrap ''failed to create attestation cache key'' e), c)
            | Inr key \<Rightarrow> (Inr (), store c key AttestationVerified)))"

definition GetAttestation ::
    "'r cache \<Rightarrow> string \<Rightarrow> string \<Rightarrow> string \<Rightarrow> AnyAllConditions list \<Rightarrow> bool" where
  "GetAttestation c trustPolicy imageRef attestationType conditions =
     (if \<not> useCache c then False
      else (case createAttestationKey (cache_ops c) trustPolicy imageRef attestationType conditions of
              Inl e \<Rightarrow> False
            | Inr key \<Rightarrow> ristretto_Get (cache_ops c) (ristretto c) key \<noteq> None))"

definition Clear :: "'r cache \<Rightarrow> 'r cache" where
  "Clear c = c\<lparr> ristretto := ristretto_Clear (cache_ops c) (ristretto c) \<rparr>"

definition Close :: "'r cache \<Rightarrow> 'r cache" where
  "Close c = c\<lparr> ristretto := ristretto_Close (cache_ops c) (ristretto c) \<rparr>"

lemmas cache_defs = AddImage_def GetImage_def AddAttestation_def GetAttestation_def Clear_def
  store_def createImageKey_def createAttestationKey_def

section \<open>What the cache relies on\<close>

definition store_laws :: "'r ristretto_ops \<Rightarrow> bool" where
  "store_laws ops \<longleftrightarrow>
     (\<forall>r k v cost t k' x. ristretto_Get ops (snd (ristretto_SetWithTTL ops r k v cost t)) k' = Some x \<longrightarrow>
        (k' = k \<and> x = v) \<or> ristretto_Get ops r k' = Some x)
     \<and> (\<forall>r k. ristretto_Get ops (ristretto_Clear ops r) k = None)
     \<and> (\<forall>cs ds s. json_Marshal_conditions ops cs = Inr s \<and> json_Marshal_conditions ops ds = Inr s \<longrightarrow>
          cs = ds)"

lemma store_laws_set:
  "store_laws ops \<Longrightarrow> ristretto_Get ops (snd (ristretto_SetWithTTL ops r k v cost t)) k' = Some x \<Longrightarrow>
     (k' = k \<and> x = v) \<or> ristretto_Get ops r k' = Some x"
  unfolding store_laws_def by blast

lemma store_laws_clear: "store_laws ops \<Longrightarrow> ristretto_Get ops (ristretto_Clear ops r) k = None"
  by (simp add: store_laws_def)

lemma store_laws_marshal:
  "store_laws ops \<Longrightarrow> json_Marshal_conditions ops cs = Inr s \<Longrightarrow>
     json_Marshal_conditions ops ds = Inr s \<Longrightarrow> cs = ds"
  by (simp add: store_laws_def)

definition cache_ok :: "'r cache \<Rightarrow> bool" where
  "cache_ok c \<longleftrightarrow> store_laws (cache_ops c)"

section \<open>Separators\<close>

definition no_sep :: "string \<Rightarrow> bool" where
  "no_sep s \<longleftrightarrow> CHR '';'' \<notin> set s"

lemma sep_split_unique:
  assumes "no_sep a" and "no_sep b" and "a @ CHR '';'' # x = b @ CHR '';'' # y"
  shows "a = b \<and> x = y"
  using assms split_first_unique [of "CHR '';''" a b x y] by (simp add: no_sep_def)

lemma createImageKey_inject:
  "no_sep tp \<Longrightarrow> no_sep tp' \<Longrightarrow> createImageKey tp ref = createImageKey tp' ref' \<longleftrightarrow> tp = tp' \<and> ref = ref'"
  using sep_split_unique [of tp tp' ref ref'] by (auto simp: createImageKey_def)

lemma createAttestationKey_inject:
  assumes "store_laws ops" and "no_sep tp" "no_sep ref" "no_sep ty" and "no_sep tp'" "no_sep ref'" "no_sep ty'"
    and "createAttestationKey ops tp ref ty cs = Inr key"
    and "createAttestationKey ops tp' ref' ty' cs' = Inr key"
  shows "tp = tp' \<and> ref = ref' \<and> ty = ty' \<and> cs = cs'"
proof -
  obtain s s' where s: "json_Marshal_conditions ops cs = Inr s" and s': "json_Marshal_conditions ops cs' = Inr s'"
    and eq: "tp @ CHR '';'' # (ref @ CHR '';'' # (ty @ CHR '';'' # s))
      = tp' @ CHR '';'' # (ref' @ CHR '';'' # (ty' @ CHR '';'' # s'))"
    using assms(8,9) by (auto simp: createAttestationKey_def split: sum.splits)
  from sep_split_unique [OF assms(2,5) eq]
  have tp: "tp = tp'" and eq2: "ref @ CHR '';'' # (ty @ CHR '';'' # s) = ref' @ CHR '';'' # (ty' @ CHR '';'' # s')"
    by auto
  from sep_split_unique [OF assms(3,6) eq2]
  have ref: "ref = ref'" and eq3: "ty @ CHR '';'' # s = ty' @ CHR '';'' # s'"
    by auto
  from sep_split_unique [OF assms(4,7) eq3] have "ty = ty'" "s = s'" by auto
  with tp ref s s' store_laws_marshal [OF assms(1)] show ?thesis by auto
qed

lemma image_key_not_attestation_key:
  assumes "no_sep tp" "no_sep ref" "no_sep tp'"
    and "createAttestationKey ops tp' ref' ty cs = Inr key"
  shows "createImageKey tp ref \<noteq> key"
proof
  assume "createImageKey tp ref = key"
  then obtain s where "tp' @ CHR '';'' # (ref' @ CHR '';'' # ty @ CHR '';'' # s) = tp @ CHR '';'' # ref"
    using assms(4) by (auto simp: createAttestationKey_def createImageKey_def split: sum.splits)
  from sep_split_unique [OF assms(3,1) this] assms(2) show False
    by (auto simp: no_sep_def)
qed

section \<open>The interface the verifier relies on\<close>

text \<open>
  A verdict cache is a lookup, an insertion and a clear, on well-formed caches and admissible
  keys. \<open>justified\<close> says that every entry a lookup can return satisfies \<open>P\<close>: if \<open>P\<close> holds of
  what is inserted, it holds of what is found, whatever is dropped or evicted in between.
\<close>

definition justified :: "('c \<Rightarrow> 'k \<Rightarrow> 'v option) \<Rightarrow> ('k \<Rightarrow> bool) \<Rightarrow> ('k \<Rightarrow> 'v \<Rightarrow> bool) \<Rightarrow> 'c \<Rightarrow> bool" where
  "justified lookup adm P c \<longleftrightarrow> (\<forall>k x. adm k \<longrightarrow> lookup c k = Some x \<longrightarrow> P k x)"

lemma justifiedD: "justified lookup adm P c \<Longrightarrow> adm k \<Longrightarrow> lookup c k = Some x \<Longrightarrow> P k x"
  by (simp add: justified_def)

lemma justified_mono:
  "justified lookup adm P c \<Longrightarrow> (\<And>k x. adm k \<Longrightarrow> P k x \<Longrightarrow> Q k x) \<Longrightarrow> justified lookup adm Q c"
  by (auto simp: justified_def)

locale verdict_cache =
  fixes lookup :: "'c \<Rightarrow> 'k \<Rightarrow> 'v option"
    and put :: "'c \<Rightarrow> 'k \<Rightarrow> 'v \<Rightarrow> 'c"
    and clear :: "'c \<Rightarrow> 'c"
    and ok :: "'c \<Rightarrow> bool"
    and adm :: "'k \<Rightarrow> bool"
  assumes lookup_put: "ok c \<Longrightarrow> adm k \<Longrightarrow> adm k' \<Longrightarrow> lookup (put c k v) k' = Some x \<Longrightarrow>
      (k' = k \<and> x = v) \<or> lookup c k' = Some x"
    and lookup_clear: "ok c \<Longrightarrow> lookup (clear c) k = None"
    and ok_put: "ok c \<Longrightarrow> ok (put c k v)"
    and ok_clear: "ok c \<Longrightarrow> ok (clear c)"
begin

lemma justified_put:
  "ok c \<Longrightarrow> adm k \<Longrightarrow> P k v \<Longrightarrow> justified lookup adm P c \<Longrightarrow> justified lookup adm P (put c k v)"
  using lookup_put unfolding justified_def by blast

lemma justified_clear: "ok c \<Longrightarrow> justified lookup adm P (clear c)"
  by (simp add: justified_def lookup_clear)

lemma justified_puts:
  assumes "ok c" and "justified lookup adm P c" and "\<forall>(k, v)\<in>set kvs. adm k \<and> P k v"
  shows "justified lookup adm P (fold (\<lambda>(k, v) c. put c k v) kvs c)
    \<and> ok (fold (\<lambda>(k, v) c. put c k v) kvs c)"
  using assms
proof (induction kvs arbitrary: c)
  case Nil
  then show ?case by simp
next
  case (Cons kv kvs)
  then show ?case
    by (cases kv) (auto intro: justified_put ok_put)
qed

end

text \<open>The two views of the program's cache: images by trust policy and reference, attestations
  by trust policy, reference, type and conditions.\<close>

definition image_lookup :: "'r cache \<Rightarrow> string \<times> string \<Rightarrow> Image option" where
  "image_lookup c k = GetImage c (fst k) (snd k)"

definition image_put :: "'r cache \<Rightarrow> string \<times> string \<Rightarrow> Image \<Rightarrow> 'r cache" where
  "image_put c k img = snd (AddImage c (fst k) (snd k) img)"

definition image_adm :: "string \<times> string \<Rightarrow> bool" where
  "image_adm k \<longleftrightarrow> no_sep (fst k)"

type_synonym att_key = "string \<times> string \<times> string \<times> AnyAllConditions list"

fun att_lookup :: "'r cache \<Rightarrow> att_key \<Rightarrow> unit option" where
  "att_lookup c (tp, ref, ty, cs) = (if GetAttestation c tp ref ty cs then Some () else None)"

fun att_put :: "'r cache \<Rightarrow> att_key \<Rightarrow> unit \<Rightarrow> 'r cache" where
  "att_put c (tp, ref, ty, cs) u = snd (AddAttestation c tp ref ty cs)"

fun att_adm :: "att_key \<Rightarrow> bool" where
  "att_adm (tp, ref, ty, cs) \<longleftrightarrow> no_sep tp \<and> no_sep ref \<and> no_sep ty"

lemma ops_store [simp]: "cache_ops (store c key v) = cache_ops c" "useCache (store c key v) = useCache c"
  by (simp_all add: store_def)

lemma ops_AddImage [simp]:
  "cache_ops (snd (AddImage c tp ref img)) = cache_ops c" "useCache (snd (AddImage c tp ref img)) = useCache c"
  "fst (AddImage c tp ref img) = Inr ()"
  by (simp_all add: AddImage_def)

lemma ops_AddAttestation [simp]:
  "cache_ops (snd (AddAttestation c tp ref ty cs)) = cache_ops c"
  "useCache (snd (AddAttestation c tp ref ty cs)) = useCache c"
  by (simp_all add: AddAttestation_def split: sum.splits)

lemma ops_Clear [simp]: "cache_ops (Clear c) = cache_ops c" "useCache (Clear c) = useCache c"
  by (simp_all add: Clear_def)

lemma store_get:
  assumes "cache_ok c" and "ristretto_Get (cache_ops c) (ristretto (store c key v)) key' = Some x"
  shows "(key' = key \<and> x = v) \<or> ristretto_Get (cache_ops c) (ristretto c) key' = Some x"
  using store_laws_set [of "cache_ops c"] assms by (simp add: cache_ok_def store_def)

lemma GetImage_AddImage:
  assumes "cache_ok c" and "no_sep tp" "no_sep tp'"
    and "GetImage (snd (AddImage c tp ref img)) tp' ref' = Some x"
  shows "(tp' = tp \<and> ref' = ref \<and> x = img) \<or> GetImage c tp' ref' = Some x"
proof (cases "useCache c")
  case True
  with assms(4) have "ristretto_Get (cache_ops c) (ristretto (store c (createImageKey tp ref) (ImageEntry img)))
      (createImageKey tp' ref') = Some (ImageEntry x)"
    by (auto simp: AddImage_def GetImage_def split: option.splits cache_entry.splits)
  from store_get [OF assms(1) this] True assms(2,3) show ?thesis
    by (auto simp: createImageKey_inject GetImage_def)
next
  case False
  with assms(4) show ?thesis by (simp add: AddImage_def)
qed

lemma GetAttestation_AddAttestation:
  assumes "cache_ok c" and "att_adm (tp, ref, ty, cs)" "att_adm (tp', ref', ty', cs')"
    and "GetAttestation (snd (AddAttestation c tp ref ty cs)) tp' ref' ty' cs'"
  shows "(tp', ref', ty', cs') = (tp, ref, ty, cs) \<or> GetAttestation c tp' ref' ty' cs'"
proof (cases "useCache c \<and> is_ok (createAttestationKey (cache_ops c) tp ref ty cs)")
  case True
  then obtain key where key: "createAttestationKey (cache_ops c) tp ref ty cs = Inr key"
    by (auto simp: is_ok_iff)
  with assms(4) True obtain key' x where key': "createAttestationKey (cache_ops c) tp' ref' ty' cs' = Inr key'"
    and hit: "ristretto_Get (cache_ops c) (ristretto (store c key AttestationVerified)) key' = Some x"
    by (auto simp: AddAttestation_def GetAttestation_def split: sum.splits)
  from store_get [OF assms(1) hit] consider "key' = key" | "ristretto_Get (cache_ops c) (ristretto c) key' = Some x"
    by auto
  then show ?thesis
  proof cases
    case 1
    with key key' assms(1-3) createAttestationKey_inject [of "cache_ops c" tp ref ty tp' ref' ty' cs key cs']
    show ?thesis by (auto simp: cache_ok_def)
  next
    case 2
    with key' True show ?thesis by (simp add: GetAttestation_def)
  qed
next
  case False
  with assms(4) show ?thesis by (auto simp: AddAttestation_def split: sum.splits if_splits)
qed

lemma GetImage_Clear: "cache_ok c \<Longrightarrow> GetImage (Clear c) tp ref = None"
  by (simp add: GetImage_def Clear_def cache_ok_def store_laws_clear)

lemma GetAttestation_Clear: "cache_ok c \<Longrightarrow> \<not> GetAttestation (Clear c) tp ref ty cs"
  by (auto simp: GetAttestation_def Clear_def cache_ok_def store_laws_clear split: sum.splits)

interpretation images: verdict_cache image_lookup image_put Clear cache_ok image_adm
proof
  fix c :: "'a cache" and k k' v x
  assume "cache_ok c" "image_adm k" "image_adm k'" "image_lookup (image_put c k v) k' = Some x"
  then show "(k' = k \<and> x = v) \<or> image_lookup c k' = Some x"
    using GetImage_AddImage [of c "fst k" "fst k'" "snd k" v "snd k'" x]
    by (auto simp: image_lookup_def image_put_def image_adm_def prod_eq_iff)
qed (auto simp: image_lookup_def image_put_def GetImage_Clear cache_ok_def)

interpretation attestations: verdict_cache att_lookup att_put Clear cache_ok att_adm
proof
  fix c :: "'a cache" and k k' v x
  assume asm: "cache_ok c" "att_adm k" "att_adm k'" "att_lookup (att_put c k v) k' = Some x"
  obtain tp ref ty cs tp' ref' ty' cs' where k: "k = (tp, ref, ty, cs)" "k' = (tp', ref', ty', cs')"
    by (cases k, cases k')
  with asm show "(k' = k \<and> x = v) \<or> att_lookup c k' = Some x"
    using GetAttestation_AddAttestation [of c tp ref ty cs tp' ref' ty' cs']
    by (auto split: if_splits)
next
  fix c :: "'a cache" and k
  assume "cache_ok c"
  then show "att_lookup (Clear c) k = None"
    by (cases k) (auto simp: GetAttestation_Clear)
next
  fix c :: "'a cache" and k v
  assume "cache_ok c"
  then show "cache_ok (att_put c k v)"
    by (cases k) (simp add: cache_ok_def)
qed (simp add: cache_ok_def)

text \<open>The two views do not disturb each other.\<close>

lemma GetImage_AddAttestation:
  assumes "cache_ok c" and "GetImage (snd (AddAttestation c tp ref ty cs)) tp' ref' = Some x"
  shows "GetImage c tp' ref' = Some x"
proof (cases "useCache c \<and> is_ok (createAttestationKey (cache_ops c) tp ref ty cs)")
  case True
  then obtain key where "createAttestationKey (cache_ops c) tp ref ty cs = Inr key"
    by (auto simp: is_ok_iff)
  with assms(2) True have "ristretto_Get (cache_ops c) (ristretto (store c key AttestationVerified))
      (createImageKey tp' ref') = Some (ImageEntry x)"
    by (auto simp: AddAttestation_def GetImage_def split: option.splits cache_entry.splits)
  from store_get [OF assms(1) this] True show ?thesis
    by (auto simp: GetImage_def)
next
  case False
  with assms(2) show ?thesis by (auto simp: AddAttestation_def split: sum.splits if_splits)
qed

lemma GetAttestation_AddImage:
  assumes "cache_ok c" and "no_sep tp" "no_sep ref" "no_sep tp'"
    and "GetAttestation (snd (AddImage c tp ref img)) tp' ref' ty' cs'"
  shows "GetAttestation c tp' ref' ty' cs'"
proof (cases "useCache c")
  case True
  with assms(5) obtain key' x where key': "createAttestationKey (cache_ops c) tp' ref' ty' cs' = Inr key'"
    and hit: "ristretto_Get (cache_ops c) (ristretto (store c (createImageKey tp ref) (ImageEntry img))) key' = Some x"
    by (auto simp: AddImage_def GetAttestation_def split: sum.splits)
  from store_get [OF assms(1) hit] image_key_not_attestation_key [OF assms(2-4) key'] True key'
  show ?thesis by (auto simp: GetAttestation_def)
next
  case False
  with assms(5) show ?thesis by (simp add: AddImage_def)
qed

text \<open>A store that drops and evicts nothing, as ristretto is with room to spare. No guarantee of the
  verifier rests on this; it says when a verdict, right or wrong, is found again.\<close>

definition keeps_entries :: "'r ristretto_ops \<Rightarrow> bool" where
  "keeps_entries ops \<longleftrightarrow> (\<forall>r k v cost t k'. ristretto_Get ops (snd (ristretto_SetWithTTL ops r k v cost t)) k'
     = (if k' = k then Some v else ristretto_Get ops r k'))"

lemma keeps_entries_get:
  "keeps_entries ops \<Longrightarrow> ristretto_Get ops (snd (ristretto_SetWithTTL ops r k v cost t)) k'
     = (if k' = k then Some v else ristretto_Get ops r k')"
  by (simp add: keeps_entries_def)

lemma GetAttestation_kept:
  "keeps_entries (cache_ops c) \<Longrightarrow> GetAttestation c tp ref ty cs \<Longrightarrow>
     GetAttestation (snd (AddAttestation c tp' ref' ty' cs')) tp ref ty cs"
  by (auto simp: GetAttestation_def AddAttestation_def store_def keeps_entries_get split: sum.splits if_splits)

lemma GetAttestation_added:
  "keeps_entries (cache_ops c) \<Longrightarrow> useCache c \<Longrightarrow> fst (AddAttestation c tp ref ty cs) = Inr () \<Longrightarrow>
     GetAttestation (snd (AddAttestation c tp ref ty cs)) tp ref ty cs"
  by (auto simp: GetAttestation_def AddAttestation_def store_def keeps_entries_get split: sum.splits)

lemma GetImage_added:
  "keeps_entries (cache_ops c) \<Longrightarrow> useCache c \<Longrightarrow> GetImage (snd (AddImage c tp ref img)) tp ref = Some img"
  by (simp add: GetImage_def AddImage_def store_def keeps_entries_get)

section \<open>Properties\<close>

text \<open>A store that keeps every entry, used to evaluate the model. It encodes the empty list of
  conditions only.\<close>

definition list_store :: "(string \<times> cache_entry) list ristretto_ops" where
  "list_store =
     \<lparr> ristretto_NewCache = (\<lambda>conf. Inr []),
       ristretto_Get = map_of,
       ristretto_SetWithTTL = (\<lambda>r k v cost t. (True, (k, v) # r)),
       ristretto_Clear = (\<lambda>r. []),
       ristretto_Close = (\<lambda>r. r),
       json_Marshal_conditions = (\<lambda>cs. if cs = [] then Inr ''[]'' else Inl (Err ''unsupported'')) \<rparr>"

lemma store_laws_list_store [simp]: "store_laws list_store"
  by (auto simp: store_laws_def list_store_def split: if_splits)

lemma keeps_entries_list_store [simp]: "keeps_entries list_store"
  by (simp add: keeps_entries_def list_store_def)

definition demo_cache :: "bool \<Rightarrow> (string \<times> cache_entry) list cache" where
  "demo_cache b =
     \<lparr> useCache = b, ttl = defaultTTL, maxSize = defaultMaxSize, cache_ops = list_store, ristretto = [] \<rparr>"

definition demo_image :: Image where
  "demo_image = \<lparr> img_Registry = ''r'', img_Name = ''app'', img_Path = ''app'', img_Tag = ''v1'', img_Digest = ''sha256:1'' \<rparr>"

lemma cache_ok_demo [simp]: "cache_ok (demo_cache b)"
  by (simp add: cache_ok_def demo_cache_def)

text \<open>
  C9. The image cache never confuses entries: for trust policies whose names contain no
  semicolon, a lookup after an insertion returns either the inserted image, and then only for
  the same trust policy and the same reference, or what the cache already held; an attestation
  entry is never returned as an image.
\<close>

theorem image_cache_sound:
  assumes "cache_ok c" and "no_sep tp" "no_sep tp'"
  shows "(GetImage (snd (AddImage c tp ref img)) tp' ref' = Some x \<longrightarrow>
            (tp' = tp \<and> ref' = ref \<and> x = img) \<or> GetImage c tp' ref' = Some x)
       \<and> (GetImage (snd (AddAttestation c tp ref ty cs)) tp' ref' = Some x \<longrightarrow> GetImage c tp' ref' = Some x)"
  using images.lookup_put [of c "(tp, ref)" "(tp', ref')" img x] GetImage_AddAttestation assms
  by (auto simp: image_lookup_def image_put_def image_adm_def)

theorem image_cache_sound_witness:
  "GetImage (snd (AddImage (demo_cache True) ''tp'' ''r/app:v1'' demo_image)) ''tp'' ''r/app:v1'' = Some demo_image
   \<and> ((''tp'' = ''tp'' \<and> ''r/app:v1'' = ''r/app:v1'' \<and> demo_image = demo_image)
        \<or> GetImage (demo_cache True) ''tp'' ''r/app:v1'' = Some demo_image)"
proof -
  have hit: "GetImage (snd (AddImage (demo_cache True) ''tp'' ''r/app:v1'' demo_image)) ''tp'' ''r/app:v1'' = Some demo_image"
    by (simp add: cache_defs demo_cache_def list_store_def)
  have "no_sep ''tp''" by (simp add: no_sep_def)
  from image_cache_sound [OF cache_ok_demo this this, of True "''r/app:v1''" demo_image "''r/app:v1''" demo_image]
  show ?thesis using hit by blast
qed

text \<open>
  C8. The attestation cache is sound in the same way: with semicolon-free trust policy,
  reference and type, a hit after an insertion is either for exactly the same trust policy,
  reference, type and conditions, or was a hit before; adding an image creates no attestation
  hit.
\<close>

theorem attestation_cache_sound:
  assumes "cache_ok c" and "no_sep tp" "no_sep ref" "no_sep ty" and "no_sep tp'" "no_sep ref'" "no_sep ty'"
  shows "(GetAttestation (snd (AddAttestation c tp ref ty cs)) tp' ref' ty' cs' \<longrightarrow>
            (tp', ref', ty', cs') = (tp, ref, ty, cs) \<or> GetAttestation c tp' ref' ty' cs')
       \<and> (GetAttestation (snd (AddImage c tp ref img)) tp' ref' ty' cs' \<longrightarrow> GetAttestation c tp' ref' ty' cs')"
  using GetAttestation_AddAttestation [of c tp ref ty cs tp' ref' ty' cs'] GetAttestation_AddImage assms
  by auto

theorem attestation_cache_sound_witness:
  "GetAttestation (snd (AddAttestation (demo_cache True) ''tp'' ''r/app:v1'' ''sbom'' [])) ''tp'' ''r/app:v1'' ''sbom'' []
   \<and> \<not> GetAttestation (snd (AddAttestation (demo_cache True) ''tp'' ''r/app:v1'' ''sbom'' [])) ''tp'' ''r/app:v1'' ''scan'' []"
proof -
  have s: "no_sep ''tp''" "no_sep ''r/app:v1''" "no_sep ''sbom''" "no_sep ''scan''"
    by (simp_all add: no_sep_def)
  have "\<not> GetAttestation (demo_cache True) ''tp'' ''r/app:v1'' ''scan'' []"
    by (simp add: cache_defs demo_cache_def list_store_def)
  with attestation_cache_sound [OF cache_ok_demo s(1-3) s(1,2,4), of True "[]" "[]"]
  have "\<not> GetAttestation (snd (AddAttestation (demo_cache True) ''tp'' ''r/app:v1'' ''sbom'' [])) ''tp'' ''r/app:v1'' ''scan'' []"
    by auto
  then show ?thesis by (simp add: cache_defs demo_cache_def list_store_def)
qed

lemma createImageKey_eq_iff:
  "createImageKey tp i = createImageKey tp' i' \<longleftrightarrow>
     (tp = tp' \<and> i = i') \<or> (\<exists>b. tp = tp' @ '';'' @ b \<and> i' = b @ '';'' @ i) \<or> (\<exists>b. tp' = tp @ '';'' @ b \<and> i = b @ '';'' @ i')"
proof
  assume "createImageKey tp i = createImageKey tp' i'"
  then obtain us where "tp = tp' @ us \<and> us @ '';'' @ i = '';'' @ i' \<or> tp @ us = tp' \<and> '';'' @ i = us @ '';'' @ i'"
    unfolding createImageKey_def append_eq_append_conv2 by blast
  then show "(tp = tp' \<and> i = i') \<or> (\<exists>b. tp = tp' @ '';'' @ b \<and> i' = b @ '';'' @ i)
      \<or> (\<exists>b. tp' = tp @ '';'' @ b \<and> i = b @ '';'' @ i')"
    by (cases us) auto
qed (auto simp: createImageKey_def)

text \<open>
  C38. The semicolon is all that keeps two images apart in the cache. Two pairs of a trust policy
  and a reference share a key exactly when they are equal or one of the policies is the other one
  continued by a semicolon and the beginning of the other one's reference. For every cache, an
  image recorded under the trust policy \<^verbatim>\<open>a;b\<close> for the reference \<^verbatim>\<open>i\<close> and kept by the store is
  returned for the reference \<^verbatim>\<open>b;i\<close> under the trust policy \<^verbatim>\<open>a\<close>, and the other way around.
  \<^verbatim>\<open>validateFileName\<close> accepts \<^verbatim>\<open>a;b\<close> as a trust policy name.
\<close>

theorem image_key_collision:
  assumes "tp \<noteq> tp' \<or> i \<noteq> i'"
  shows "(createImageKey tp i = createImageKey tp' i' \<longleftrightarrow>
            (\<exists>b. tp = tp' @ '';'' @ b \<and> i' = b @ '';'' @ i) \<or> (\<exists>b. tp' = tp @ '';'' @ b \<and> i = b @ '';'' @ i'))
       \<and> GetImage c (a @ '';'' @ b) i = GetImage c a (b @ '';'' @ i)
       \<and> (GetImage (snd (AddImage c (a @ '';'' @ b) i img)) (a @ '';'' @ b) i = Some img \<longrightarrow>
            GetImage (snd (AddImage c (a @ '';'' @ b) i img)) a (b @ '';'' @ i) = Some img)
       \<and> (GetImage (snd (AddImage c a (b @ '';'' @ i) img)) a (b @ '';'' @ i) = Some img \<longrightarrow>
            GetImage (snd (AddImage c a (b @ '';'' @ i) img)) (a @ '';'' @ b) i = Some img)"
proof -
  have key: "createImageKey (a @ '';'' @ b) i = createImageKey a (b @ '';'' @ i)"
    by (simp add: createImageKey_def)
  have "GetImage d (a @ '';'' @ b) i = GetImage d a (b @ '';'' @ i)" for d :: "'a cache"
    unfolding GetImage_def key by (rule refl)
  then show ?thesis
    using assms createImageKey_eq_iff [of tp i tp' i'] by auto
qed

theorem image_key_collision_witness:
  "createImageKey ''a;b'' ''c'' = createImageKey ''a'' ''b;c''
   \<and> GetImage (snd (AddImage (demo_cache True) ''a;b'' ''c'' demo_image)) ''a'' ''b;c'' = Some demo_image"
proof -
  have "GetImage (snd (AddImage (demo_cache True) ''a;b'' ''c'' demo_image)) ''a;b'' ''c'' = Some demo_image"
    by (simp add: cache_defs demo_cache_def list_store_def)
  with image_key_collision [of "''a;b''" "''a''" "''c''" "''b;c''" "demo_cache True" "''a''" "''b''" demo_image]
  show ?thesis by simp
qed

text \<open>
  A disabled cache never answers and never stores: both lookups miss and both insertions
  leave the cache as it is.
\<close>

theorem disabled_cache_inert:
  assumes "\<not> useCache c"
  shows "GetImage c tp ref = None \<and> \<not> GetAttestation c tp ref ty cs
    \<and> AddImage c tp ref img = (Inr (), c) \<and> AddAttestation c tp ref ty cs = (Inr (), c)"
  using assms by (simp add: cache_defs)

theorem disabled_cache_inert_witness:
  "\<not> useCache (demo_cache False) \<and> GetImage (demo_cache False) ''tp'' ''r/app:v1'' = None"
proof -
  have "\<not> useCache (demo_cache False)" by (simp add: demo_cache_def)
  with disabled_cache_inert [OF this, of "''tp''" "''r/app:v1''"] show ?thesis by simp
qed

text \<open>
  Construction bounds the cache: whatever the options say, a cache that is created has a
  positive size and a positive lifetime; the size given to the store as its maximal cost is that
  size, and the number of counters is ten times it unless the product leaves the 64-bit range.
\<close>

theorem New_cache_bounded:
  assumes "New_cache ops options = Inr c"
  shows "0 < maxSize c \<and> 0 < ttl c \<and> cache_ops c = ops
    \<and> (\<exists>conf. ristretto_NewCache ops conf = Inr (ristretto c) \<and> MaxCost conf = maxSize c
         \<and> NumCounters conf = int64 (maxSize c * 10)
         \<and> (maxSize c \<le> 922337203685477580 \<longrightarrow> NumCounters conf = maxSize c * 10))"
  using assms
  by (auto simp: New_cache_def Let_def cache_conf.extend_def defaultMaxSize_def defaultTTL_def int64_id
      split: sum.splits if_splits)

theorem New_cache_bounded_witness:
  "\<exists>c. New_cache list_store [WithMaxSize (-5), WithTTLDuration 0] = Inr c \<and> maxSize c = 1000 \<and> 0 < maxSize c"
proof -
  obtain c where c: "New_cache list_store [WithMaxSize (-5), WithTTLDuration 0] = Inr c" and "maxSize c = 1000"
    by (simp add: New_cache_def WithMaxSize_def WithTTLDuration_def Let_def list_store_def
        defaultMaxSize_def defaultTTL_def cache_conf.extend_def)
  with New_cache_bounded [OF c] show ?thesis by auto
qed

end
