(* ===== verification/Keychain.thy ===== *)
theory Keychain
  imports Types
begin

text \<open>
  The caching credential keychain (\<^verbatim>\<open>internal/verifier/keychain.go\<close>). The underlying keychain is
  a third-party object: \<open>inner t target\<close> is what it resolves at time \<open>t\<close>. An authenticator is
  what the program observes of it: whether it is \<^verbatim>\<open>authn.Anonymous\<close> and what \<^verbatim>\<open>Authorization\<close>
  returns (\<open>None\<close> for a nil configuration). \<open>FromConfig\<close> stands for \<^verbatim>\<open>authn.FromConfig\<close>. Times and durations are nanoseconds.
  \<open>kc_lookup\<close> and \<open>kc_insert\<close> are the two critical sections under the keychain's mutex; \<open>Resolve\<close>
  runs the inner keychain between them, outside the lock.
\<close>

record AuthConfig =
  Username :: string
  Password :: string
  Auth :: string
  IdentityToken :: string
  RegistryToken :: string

record authenticator =
  isAnonymous :: bool
  Authorization :: "AuthConfig option result"

record resource =
  res_String :: string
  RegistryStr :: string

record cachedCredential =
  config :: AuthConfig
  expires :: int

record cachingKeychain =
  inner :: "int \<Rightarrow> resource \<Rightarrow> authenticator result"
  FromConfig :: "AuthConfig \<Rightarrow> authenticator"
  kc_ttl :: int
  entries :: "cachedCredential gomap"

definition providerCredentialsTTL :: int where
  "providerCredentialsTTL = 15 * 60 * 1000000000"

definition maxCachedRegistries :: nat where
  "maxCachedRegistries = 256"

definition newCachingKeychain ::
    "(int \<Rightarrow> resource \<Rightarrow> authenticator result) \<Rightarrow> (AuthConfig \<Rightarrow> authenticator) \<Rightarrow> int \<Rightarrow> cachingKeychain" where
  "newCachingKeychain inner0 fromConfig t =
     \<lparr> inner = inner0, FromConfig = fromConfig, kc_ttl = t, entries = [] \<rparr>"

definition kc_lookup :: "int \<Rightarrow> cachingKeychain \<Rightarrow> string \<Rightarrow> authenticator option" where
  "kc_lookup now k key =
     (case map_of (entries k) key of
        None \<Rightarrow> None
      | Some entry \<Rightarrow> if now < expires entry then Some (FromConfig k (config entry)) else None)"

definition kc_make_room :: "int \<Rightarrow> cachedCredential gomap \<Rightarrow> cachedCredential gomap" where
  "kc_make_room now es =
     (if maxCachedRegistries \<le> length es
      then (let live = filter (\<lambda>(r, e). now < expires e) es
            in if maxCachedRegistries \<le> length live then [] else live)
      else es)"

definition kc_insert :: "int \<Rightarrow> cachingKeychain \<Rightarrow> string \<Rightarrow> AuthConfig \<Rightarrow> cachingKeychain" where
  "kc_insert now k key conf =
     k\<lparr> entries := map_set (kc_make_room now (entries k)) key
          \<lparr> config = conf, expires = now + kc_ttl k \<rparr> \<rparr>"

definition Resolve ::
    "int \<Rightarrow> cachingKeychain \<Rightarrow> resource \<Rightarrow> authenticator result \<times> cachingKeychain" where
  "Resolve now k target =
     (case kc_lookup now k (RegistryStr target) of
        Some a \<Rightarrow> (Inr a, k)
      | None \<Rightarrow>
          (case inner k now target of
             Inl e \<Rightarrow> (Inl e, k)
           | Inr a \<Rightarrow>
               if isAnonymous a then (Inr a, k)
               else (case Authorization a of
                       Inl e \<Rightarrow> (Inl e, k)
                     | Inr None \<Rightarrow> (Inl (Panic ''invalid memory address or nil pointer dereference''), k)
                     | Inr (Some conf) \<Rightarrow>
                         (Inr (FromConfig k conf), kc_insert now k (RegistryStr target) conf))))"

section \<open>Bound and provenance of the entries\<close>

definition kc_bounded :: "cachingKeychain \<Rightarrow> bool" where
  "kc_bounded k \<longleftrightarrow> wf_map (entries k) \<and> length (entries k) \<le> maxCachedRegistries"

text \<open>Credentials \<open>conf\<close> for \<open>reg\<close> that the inner keychain produced at time \<open>t0\<close>.\<close>

definition produced :: "(int \<Rightarrow> resource \<Rightarrow> authenticator result) \<Rightarrow> int \<Rightarrow> string \<Rightarrow> AuthConfig \<Rightarrow> bool" where
  "produced inner0 t0 reg conf \<longleftrightarrow>
     (\<exists>target a. RegistryStr target = reg \<and> inner0 t0 target = Inr a \<and> \<not> isAnonymous a
        \<and> Authorization a = Inr (Some conf))"

definition kc_inv :: "int \<Rightarrow> cachingKeychain \<Rightarrow> bool" where
  "kc_inv now k \<longleftrightarrow> kc_bounded k
     \<and> (\<forall>(reg, e) \<in> set (entries k). \<exists>t0 \<le> now. expires e = t0 + kc_ttl k \<and> produced (inner k) t0 reg (config e))"

text \<open>What may be answered at time \<open>now\<close>: the inner keychain's own answer when it is anonymous,
  or credentials it produced for that registry less than the lifetime ago.\<close>

definition fresh_answer :: "cachingKeychain \<Rightarrow> int \<Rightarrow> resource \<Rightarrow> authenticator \<Rightarrow> bool" where
  "fresh_answer k now target a \<longleftrightarrow>
     (inner k now target = Inr a \<and> isAnonymous a)
     \<or> (\<exists>conf t0. a = FromConfig k conf \<and> t0 \<le> now \<and> (t0 = now \<or> now < t0 + kc_ttl k)
          \<and> produced (inner k) t0 (RegistryStr target) conf)"

lemma kc_make_room_small: "length es \<le> maxCachedRegistries \<Longrightarrow>
    length (kc_make_room now es) < maxCachedRegistries"
  by (auto simp: kc_make_room_def Let_def maxCachedRegistries_def)

lemma kc_make_room_subset: "set (kc_make_room now es) \<subseteq> set es"
  by (auto simp: kc_make_room_def Let_def)

lemma wf_map_filter: "wf_map m \<Longrightarrow> wf_map (filter P m)"
  by (simp add: wf_map_def distinct_map_filter)

lemma wf_make_room: "wf_map es \<Longrightarrow> wf_map (kc_make_room now es)"
  by (simp add: kc_make_room_def Let_def wf_map_filter)

lemma length_map_set: "length (map_set m k v) \<le> Suc (length m)"
  using update_keys [of k v m] by (metis length_map length_append_singleton le_Suc_eq map_set_def order_refl)

lemma in_map_set: "(k', v') \<in> set (map_set m k v) \<Longrightarrow> (k', v') = (k, v) \<or> (k', v') \<in> set m"
  unfolding map_set_def by (induction m) (auto split: if_splits)

lemma kc_insert_bounded: "kc_bounded k \<Longrightarrow> kc_bounded (kc_insert now k key conf)"
  using kc_make_room_small [of "entries k" now] length_map_set [of "kc_make_room now (entries k)" key]
  by (fastforce simp: kc_bounded_def kc_insert_def wf_make_room intro: order_trans)

lemma kc_insert_fields [simp]:
  "inner (kc_insert now k key conf) = inner k" "FromConfig (kc_insert now k key conf) = FromConfig k"
  "kc_ttl (kc_insert now k key conf) = kc_ttl k"
  by (simp_all add: kc_insert_def)

lemma kc_insert_inv:
  assumes "kc_inv now k" and "produced (inner k) now key conf"
  shows "kc_inv now (kc_insert now k key conf)"
proof -
  have "\<exists>t0 \<le> now. expires e = t0 + kc_ttl k \<and> produced (inner k) t0 reg (config e)"
    if "(reg, e) \<in> set (entries (kc_insert now k key conf))" for reg e
    using that assms kc_make_room_subset [of now "entries k"] in_map_set [of reg e]
    by (fastforce simp: kc_insert_def kc_inv_def)
  then show ?thesis
    using assms by (auto simp: kc_inv_def kc_insert_bounded)
qed

lemma kc_lookup_fresh:
  assumes "kc_inv now k" and "kc_lookup now k (RegistryStr target) = Some a"
  shows "fresh_answer k now target a"
  using assms
  by (fastforce simp: kc_lookup_def kc_inv_def fresh_answer_def split: option.splits if_splits
      dest: map_of_SomeD)

lemma Resolve_fields [simp]:
  "inner (snd (Resolve now k target)) = inner k" "FromConfig (snd (Resolve now k target)) = FromConfig k"
  "kc_ttl (snd (Resolve now k target)) = kc_ttl k"
  by (simp_all add: Resolve_def split: option.splits sum.splits)

lemma producedI:
  "inner0 t0 target = Inr a \<Longrightarrow> \<not> isAnonymous a \<Longrightarrow> Authorization a = Inr (Some conf) \<Longrightarrow>
     produced inner0 t0 (RegistryStr target) conf"
  by (auto simp: produced_def)

lemma Resolve_inv: "kc_inv now k \<Longrightarrow> kc_inv now (snd (Resolve now k target))"
  by (auto simp: Resolve_def intro: kc_insert_inv producedI split: option.splits sum.splits)

lemma Resolve_fresh:
  assumes "kc_inv now k" and "fst (Resolve now k target) = Inr a"
  shows "fresh_answer k now target a"
proof (cases "kc_lookup now k (RegistryStr target)")
  case None
  with assms(2) show ?thesis
    by (auto simp: Resolve_def fresh_answer_def dest: producedI split: sum.splits option.splits if_splits)
next
  case (Some b)
  with assms show ?thesis by (simp add: Resolve_def kc_lookup_fresh)
qed

lemma kc_inv_mono: "kc_inv t k \<Longrightarrow> t \<le> t' \<Longrightarrow> kc_inv t' k"
  unfolding kc_inv_def by (fastforce intro: order_trans)

section \<open>Credential sources as an interface\<close>

text \<open>
  A credential source answers queries over time. If every single answer is good and the
  invariant is kept, all answers of a sequence of calls at non-decreasing times are good.
\<close>

fun run_calls :: "(int \<Rightarrow> 'k \<Rightarrow> 'q \<Rightarrow> 'a result \<times> 'k) \<Rightarrow> (int \<times> 'q) list \<Rightarrow> 'k
    \<Rightarrow> (int \<times> 'q \<times> 'a result) list \<times> 'k" where
  "run_calls resolve [] k = ([], k)"
| "run_calls resolve ((t, q) # calls) k =
     (let (a, k') = resolve t k q; (as, k'') = run_calls resolve calls k' in ((t, q, a) # as, k''))"

locale credential_source =
  fixes resolve :: "int \<Rightarrow> 'k \<Rightarrow> 'q \<Rightarrow> 'a result \<times> 'k"
    and inv :: "int \<Rightarrow> 'k \<Rightarrow> bool"
    and good :: "'k \<Rightarrow> int \<Rightarrow> 'q \<Rightarrow> 'a \<Rightarrow> bool"
  assumes inv_mono: "inv t k \<Longrightarrow> t \<le> t' \<Longrightarrow> inv t' k"
    and inv_resolve: "inv t k \<Longrightarrow> inv t (snd (resolve t k q))"
    and good_resolve: "inv t k \<Longrightarrow> fst (resolve t k q) = Inr a \<Longrightarrow> good k t q a"
    and good_stable: "good (snd (resolve t k q)) = good k"
begin

lemma run_calls_good:
  assumes "inv t0 k" and "sorted (map fst calls)" and "\<forall>(t, q) \<in> set calls. t0 \<le> t"
  shows "\<forall>(t, q, r) \<in> set (fst (run_calls resolve calls k)). \<forall>a. r = Inr a \<longrightarrow> good k t q a"
  using assms
proof (induction calls arbitrary: k t0)
  case Nil
  then show ?case by simp
next
  case (Cons c calls)
  obtain t q where c: "c = (t, q)" by (cases c)
  have inv: "inv t k"
    using Cons.prems(1,3) inv_mono by (auto simp: c)
  have "\<forall>(t', q', r) \<in> set (fst (run_calls resolve calls (snd (resolve t k q)))).
      \<forall>a. r = Inr a \<longrightarrow> good k t' q' a"
    using Cons.IH [OF inv_resolve [OF inv, of q]] Cons.prems(2) by (force simp: c good_stable)
  with inv show ?case
    by (auto simp: c good_resolve split_beta Let_def)
qed

lemma run_calls_inv:
  assumes "inv t0 k" and "sorted (map fst calls)" and "\<forall>(t, q) \<in> set calls. t0 \<le> t \<and> t \<le> t1" and "t0 \<le> t1"
  shows "inv t1 (snd (run_calls resolve calls k))"
  using assms
proof (induction calls arbitrary: k t0)
  case Nil
  then show ?case using inv_mono by simp
next
  case (Cons c calls)
  obtain t q where c: "c = (t, q)" by (cases c)
  have "inv t (snd (resolve t k q))"
    using Cons.prems inv_mono inv_resolve by (auto simp: c)
  from Cons.IH [OF this] Cons.prems show ?case
    by (force simp: c split_beta Let_def)
qed

end

interpretation provider: credential_source Resolve kc_inv fresh_answer
proof
  show "fresh_answer (snd (Resolve t k q)) = fresh_answer k" for t k q
    by (simp add: fun_eq_iff fresh_answer_def)
qed (fact kc_inv_mono Resolve_inv Resolve_fresh)+

section \<open>Properties\<close>

lemma kc_inv_new: "kc_inv now (newCachingKeychain i fc t)"
  by (simp add: kc_inv_def kc_bounded_def newCachingKeychain_def)

lemma call_bounds: "\<exists>t0 t1. t0 \<le> t1 \<and> (\<forall>(t, q) \<in> set calls. t0 \<le> t \<and> t \<le> (t1 :: int))"
proof -
  let ?T = "insert 0 (fst ` set calls)"
  have "Min ?T \<le> Max ?T" by (meson Max_ge Min_le finite_imageI finite_insert finite_set insertI1 order_trans)
  moreover have "Min ?T \<le> t \<and> t \<le> Max ?T" if "(t, q) \<in> set calls" for t q
  proof -
    have "t \<in> ?T" using that by force
    then show ?thesis by (simp only: Min_le Max_ge finite_insert finite_imageI finite_set)
  qed
  ultimately show ?thesis by blast
qed

text \<open>
  C21. Over any sequence of lookups at non-decreasing times, starting from an empty credential
  cache, the cache never holds more than 256 registries, and every credential it hands out was
  produced by the underlying keychain for the same registry less than the lifetime before (or
  is the underlying keychain's own anonymous answer).
\<close>

theorem keychain_bounded_and_fresh:
  assumes "sorted (map fst calls)"
  shows "length (entries (snd (run_calls Resolve calls (newCachingKeychain i fc t)))) \<le> 256
    \<and> (\<forall>(now, target, r) \<in> set (fst (run_calls Resolve calls (newCachingKeychain i fc t))).
         \<forall>a. r = Inr a \<longrightarrow> fresh_answer (newCachingKeychain i fc t) now target a)"
proof -
  let ?k = "newCachingKeychain i fc t"
  from call_bounds [of calls] obtain t0 t1
    where b: "t0 \<le> t1" "\<forall>(t, q) \<in> set calls. t0 \<le> t \<and> t \<le> t1" by blast
  have "kc_inv t1 (snd (run_calls Resolve calls ?k))"
    using provider.run_calls_inv [OF kc_inv_new assms b(2,1)] .
  moreover have "\<forall>(now, target, r) \<in> set (fst (run_calls Resolve calls ?k)).
      \<forall>a. r = Inr a \<longrightarrow> fresh_answer ?k now target a"
    using provider.run_calls_good [OF kc_inv_new [of t0] assms] b(2) by fastforce
  ultimately show ?thesis
    by (simp add: kc_inv_def kc_bounded_def maxCachedRegistries_def)
qed

definition demo_auth :: AuthConfig where
  "demo_auth = \<lparr> Username = ''AWS'', Password = ''token'', Auth = [], IdentityToken = [], RegistryToken = [] \<rparr>"

definition demo_from :: "AuthConfig \<Rightarrow> authenticator" where
  "demo_from conf = \<lparr> isAnonymous = False, Authorization = Inr (Some conf) \<rparr>"

definition demo_inner :: "int \<Rightarrow> resource \<Rightarrow> authenticator result" where
  "demo_inner now target = Inr (demo_from demo_auth)"

definition demo_target :: "string \<Rightarrow> resource" where
  "demo_target reg = \<lparr> res_String = reg @ ''/app:v1'', RegistryStr = reg \<rparr>"

definition demo_calls :: "(int \<times> resource) list" where
  "demo_calls = [(0, demo_target ''r1''), (5, demo_target ''r1''), (5, demo_target ''r2''), (60, demo_target ''r1'')]"

theorem keychain_bounded_and_fresh_witness:
  "sorted (map fst demo_calls)
   \<and> length (entries (snd (run_calls Resolve demo_calls (newCachingKeychain demo_inner demo_from 60)))) = 2
   \<and> length (entries (snd (run_calls Resolve demo_calls (newCachingKeychain demo_inner demo_from 60)))) \<le> 256"
proof -
  have s: "sorted (map fst demo_calls)" by (simp add: demo_calls_def)
  have "length (entries (snd (run_calls Resolve demo_calls (newCachingKeychain demo_inner demo_from 60)))) = 2"
    by (simp add: demo_calls_def demo_target_def newCachingKeychain_def Resolve_def kc_lookup_def
        demo_inner_def demo_from_def kc_insert_def kc_make_room_def maxCachedRegistries_def map_set_def)
  with s keychain_bounded_and_fresh [OF s, of demo_inner demo_from 60] show ?thesis by blast
qed

text \<open>
  Credentials are reused without asking again: after a lookup that obtained credentials at
  time \<open>now\<close>, a lookup for the same registry before \<open>now\<close> plus the lifetime returns them and
  changes nothing, even if the underlying keychain has stopped working; from that moment on the
  underlying keychain is asked again. Errors and anonymous answers are never kept.
\<close>

theorem Resolve_memoizes:
  assumes "kc_lookup now k (RegistryStr target) = None" and "RegistryStr target' = RegistryStr target"
  shows "case inner k now target of
      Inl e \<Rightarrow> Resolve now k target = (Inl e, k)
    | Inr a \<Rightarrow>
        if isAnonymous a then Resolve now k target = (Inr a, k)
        else (case Authorization a of
           Inl e \<Rightarrow> Resolve now k target = (Inl e, k)
         | Inr None \<Rightarrow> snd (Resolve now k target) = k
         | Inr (Some conf) \<Rightarrow>
             (let k' = snd (Resolve now k target)
              in fst (Resolve now k target) = Inr (FromConfig k conf)
                 \<and> (now' < now + kc_ttl k \<longrightarrow>
                      Resolve now' (k'\<lparr> inner := broken \<rparr>) target' = (Inr (FromConfig k conf), k'\<lparr> inner := broken \<rparr>))
                 \<and> (now + kc_ttl k \<le> now' \<longrightarrow> kc_lookup now' k' (RegistryStr target') = None)))"
  using assms
  by (auto simp: Resolve_def kc_lookup_def kc_insert_def Let_def split: sum.splits option.splits)

theorem Resolve_memoizes_witness:
  "fst (Resolve 59 ((snd (Resolve 0 (newCachingKeychain demo_inner demo_from 60) (demo_target ''r1'')))
       \<lparr> inner := \<lambda>_ _. Inl (Err ''down'') \<rparr>) (demo_target ''r1'')) = Inr (demo_from demo_auth)"
proof -
  let ?k = "newCachingKeychain demo_inner demo_from 60"
  have "kc_lookup 0 ?k (RegistryStr (demo_target ''r1'')) = None"
    by (simp add: kc_lookup_def newCachingKeychain_def)
  from Resolve_memoizes [OF this refl, of 59 "\<lambda>_ _. Inl (Err ''down'')"] show ?thesis
    by (simp add: Let_def newCachingKeychain_def demo_inner_def demo_from_def)
qed

end
