(* ===== verification/Filesystem.thy ===== *)
theory Filesystem
  imports Prelude "HOL-Library.List_Lexorder" "HOL-Library.Char_ord"
begin

text \<open>
  The part of packages \<^verbatim>\<open>os\<close> and \<^verbatim>\<open>path/filepath\<close> that the program uses. A path is the list of its
  elements from the root; a disk is an association list from paths to files (content and
  mode), directories and symbolic links.

  Every system call can fail: \<open>fault\<close> decides which calls do, and a failing \<^verbatim>\<open>write\<close> may have
  written a prefix first. A fault is never "does not exist": that error is returned exactly when
  the path is absent. \<open>temp_numbers\<close> are the random numbers \<^verbatim>\<open>os.CreateTemp\<close> draws. The state
  carries the whole history of the disk, one version per changing call, so that what a concurrent
  reader can see is a property of the history.
\<close>

section \<open>Paths\<close>

type_synonym path = "string list"

text \<open>\<^verbatim>\<open>filepath.Clean\<close> of a rooted path, given by its elements.\<close>

fun clean_onto :: "path \<Rightarrow> string list \<Rightarrow> path" where
  "clean_onto acc [] = acc"
| "clean_onto acc (x # xs) =
     (if x = [] \<or> x = ''.'' then clean_onto acc xs
      else if x = ''..'' then clean_onto (butlast acc) xs
      else clean_onto (acc @ [x]) xs)"

definition filepath_Join :: "path \<Rightarrow> string \<Rightarrow> path" where
  "filepath_Join dir rel = clean_onto dir (Split rel (CHR ''/''))"

definition plain_element :: "string \<Rightarrow> bool" where
  "plain_element x \<longleftrightarrow> x \<noteq> [] \<and> x \<noteq> ''.'' \<and> x \<noteq> ''..'' \<and> CHR ''/'' \<notin> set x"

lemma filepath_Join_plain: "plain_element x \<Longrightarrow> filepath_Join dir x = dir @ [x]"
  by (simp add: filepath_Join_def plain_element_def Split_absent)

lemma filepath_Join_plain2:
  assumes "plain_element x" and "plain_element y"
  shows "filepath_Join dir (x @ ''/'' @ y) = dir @ [x, y]"
  using assms by (simp add: filepath_Join_def plain_element_def Split_append_sep Split_absent)

text \<open>\<^verbatim>\<open>filepath.Ext\<close> of a single path element.\<close>

definition Ext :: "string \<Rightarrow> string" where
  "Ext name = (if CHR ''.'' \<in> set name then CHR ''.'' # AfterLast name (CHR ''.'') else [])"

lemma Ext_append: "CHR ''.'' \<notin> set e \<Longrightarrow> Ext (s @ CHR ''.'' # e) = CHR ''.'' # e"
  by (simp add: Ext_def AfterLast_append)

section \<open>Disks\<close>

datatype node = File string nat | Dir | Symlink path

type_synonym disk = "(path \<times> node) list"

datatype io_error = ErrNotExist string | ErrPermission string | ErrOther string

fun io_err :: "io_error \<Rightarrow> gerr" where
  "io_err (ErrNotExist m) = Err m"
| "io_err (ErrPermission m) = Err m"
| "io_err (ErrOther m) = Err m"

fun is_not_exist :: "io_error \<Rightarrow> bool" where
  "is_not_exist (ErrNotExist m) = True"
| "is_not_exist _ = False"

fun is_permission :: "io_error \<Rightarrow> bool" where
  "is_permission (ErrPermission m) = True"
| "is_permission _ = False"

datatype os_fault = PermissionDenied string | IOFailure string

fun of_fault :: "os_fault \<Rightarrow> io_error" where
  "of_fault (PermissionDenied m) = ErrPermission m"
| "of_fault (IOFailure m) = ErrOther m"

lemma of_fault_exists [simp]: "\<not> is_not_exist (of_fault f)"
  by (cases f) auto

lemma io_err_no_panic [simp]: "\<not> is_panic (io_err e)"
  by (cases e) auto

datatype fsop =
    ReadOp path | LstatOp path | OpenOp path | ReadDirOp path
  | CreateTempOp path | WriteOp path | ChmodOp path | CloseOp path
  | RenameOp path path | RemoveOp path | MkdirOp path

record os_env =
  fault :: "fsop \<Rightarrow> os_fault option"
  short_write :: nat
  temp_numbers :: "nat list"

record os =
  disk :: disk
  hist :: "disk list"

definition no_faults :: "os_env \<Rightarrow> bool" where
  "no_faults env \<longleftrightarrow> (\<forall>op. fault env op = None)"

definition commit :: "os \<Rightarrow> disk \<Rightarrow> os" where
  "commit s d = s\<lparr> disk := d, hist := hist s @ [d] \<rparr>"

lemma disk_commit [simp]: "disk (commit s d) = d" "hist (commit s d) = hist s @ [d]"
  by (simp_all add: commit_def)

definition is_dir :: "disk \<Rightarrow> path \<Rightarrow> bool" where
  "is_dir d p \<longleftrightarrow> p = [] \<or> map_of d p = Some Dir"

text \<open>The error of a missing path: a file in the place of a directory is a different error.\<close>

definition missing :: "disk \<Rightarrow> path \<Rightarrow> io_error" where
  "missing d p =
     (if list_ex (\<lambda>n. n < length p \<and> (case map_of d (take n p) of Some (File _ _) \<Rightarrow> True | _ \<Rightarrow> False)) [0..<length p]
      then ErrOther ''not a directory'' else ErrNotExist ''no such file or directory'')"

text \<open>Symbolic links in the last position are followed, at most forty times.\<close>

fun follow :: "nat \<Rightarrow> disk \<Rightarrow> path \<Rightarrow> path option" where
  "follow 0 d p = None"
| "follow (Suc n) d p = (case map_of d p of Some (Symlink t) \<Rightarrow> follow n d t | _ \<Rightarrow> Some p)"

definition read_node :: "disk \<Rightarrow> path \<Rightarrow> io_error + string" where
  "read_node d p =
     (case follow 41 d p of
        None \<Rightarrow> Inl (ErrOther ''too many levels of symbolic links'')
      | Some q \<Rightarrow>
          (if q = [] then Inl (ErrOther ''is a directory'')
           else case map_of d q of
             None \<Rightarrow> Inl (missing d q)
           | Some (File c m) \<Rightarrow> Inr c
           | Some _ \<Rightarrow> Inl (ErrOther ''is a directory'')))"

lemma read_node_File: "map_of d p = Some (File c m) \<Longrightarrow> p \<noteq> [] \<Longrightarrow> read_node d p = Inr c"
  by (simp add: read_node_def numeral_eq_Suc)

lemma read_node_Dir: "map_of d p = Some Dir \<Longrightarrow> \<exists>e. read_node d p = Inl e \<and> \<not> is_not_exist e"
  by (simp add: read_node_def numeral_eq_Suc)

section \<open>System calls\<close>

definition os_ReadFile :: "os_env \<Rightarrow> os \<Rightarrow> path \<Rightarrow> io_error + string" where
  "os_ReadFile env s p =
     (case fault env (ReadOp p) of Some f \<Rightarrow> Inl (of_fault f) | None \<Rightarrow> read_node (disk s) p)"

definition os_Lstat :: "os_env \<Rightarrow> os \<Rightarrow> path \<Rightarrow> io_error + node" where
  "os_Lstat env s p =
     (case fault env (LstatOp p) of
        Some f \<Rightarrow> Inl (of_fault f)
      | None \<Rightarrow> if p = [] then Inr Dir
                else case map_of (disk s) p of None \<Rightarrow> Inl (missing (disk s) p) | Some n \<Rightarrow> Inr n)"

text \<open>\<^verbatim>\<open>os.Open\<close> of a file to be read to its end.\<close>

definition os_Open :: "os_env \<Rightarrow> os \<Rightarrow> path \<Rightarrow> io_error + string" where
  "os_Open env s p =
     (case fault env (OpenOp p) of Some f \<Rightarrow> Inl (of_fault f) | None \<Rightarrow> read_node (disk s) p)"

text \<open>\<^verbatim>\<open>os.ReadDir\<close>: the names in a directory, sorted, with whether each is a directory.\<close>

definition children :: "disk \<Rightarrow> path \<Rightarrow> string list" where
  "children d dir =
     map last (filter (\<lambda>p. p \<noteq> [] \<and> butlast p = dir) (map fst d))"

definition os_ReadDir :: "os_env \<Rightarrow> os \<Rightarrow> path \<Rightarrow> io_error + (string \<times> bool) list" where
  "os_ReadDir env s dir =
     (case fault env (ReadDirOp dir) of
        Some f \<Rightarrow> Inl (of_fault f)
      | None \<Rightarrow>
          if is_dir (disk s) dir
          then Inr (map (\<lambda>n. (n, map_of (disk s) (dir @ [n]) = Some Dir)) (sort (children (disk s) dir)))
          else Inl (missing (disk s) dir))"

lemma set_children: "set (children d dir) = {n. \<exists>x. (dir @ [n], x) \<in> set d}"
proof -
  have "n \<in> set (children d dir) \<longleftrightarrow> (\<exists>x. (dir @ [n], x) \<in> set d)" for n
    by (force simp: children_def image_iff intro: append_butlast_last_id [symmetric])
  then show ?thesis by blast
qed

lemma children_iff: "n \<in> set (children d dir) \<longleftrightarrow> map_of d (dir @ [n]) \<noteq> None"
  by (force simp: set_children map_of_eq_None_iff)

definition perm600 :: nat where
  "perm600 = 6 * 8 ^ 2"

definition perm755 :: nat where
  "perm755 = 7 * 8 ^ 2 + 5 * 8 + 5"

text \<open>\<^verbatim>\<open>os.CreateTemp(dir, ".tmp-*")\<close>: the first random number whose name is free.\<close>

fun uitoa :: "nat \<Rightarrow> string" where
  "uitoa n = (if n < 10 then [char_of (48 + n)] else uitoa (n div 10) @ [char_of (48 + n mod 10)])"

declare uitoa.simps [simp del]

definition temp_path :: "path \<Rightarrow> nat \<Rightarrow> path" where
  "temp_path dir n = dir @ [''.tmp-'' @ uitoa n]"

definition os_CreateTemp :: "os_env \<Rightarrow> os \<Rightarrow> path \<Rightarrow> (io_error + path) \<times> os" where
  "os_CreateTemp env s dir =
     (case fault env (CreateTempOp dir) of
        Some f \<Rightarrow> (Inl (of_fault f), s)
      | None \<Rightarrow>
          if \<not> is_dir (disk s) dir then (Inl (missing (disk s) dir), s)
          else (case find (\<lambda>n. map_of (disk s) (temp_path dir n) = None) (temp_numbers env) of
                  None \<Rightarrow> (Inl (ErrOther ''file exists''), s)
                | Some n \<Rightarrow>
                    (Inr (temp_path dir n),
                     commit s (AList.update (temp_path dir n) (File [] perm600) (disk s)))))"

definition set_content :: "os \<Rightarrow> path \<Rightarrow> string \<Rightarrow> os" where
  "set_content s p c =
     (case map_of (disk s) p of
        Some (File c0 m) \<Rightarrow> commit s (AList.update p (File c m) (disk s))
      | _ \<Rightarrow> s)"

definition os_Write :: "os_env \<Rightarrow> os \<Rightarrow> path \<Rightarrow> string \<Rightarrow> io_error option \<times> os" where
  "os_Write env s p data =
     (case fault env (WriteOp p) of
        Some f \<Rightarrow> (Some (of_fault f), set_content s p (take (short_write env) data))
      | None \<Rightarrow> (None, set_content s p data))"

definition os_Chmod :: "os_env \<Rightarrow> os \<Rightarrow> path \<Rightarrow> nat \<Rightarrow> io_error option \<times> os" where
  "os_Chmod env s p mode =
     (case fault env (ChmodOp p) of
        Some f \<Rightarrow> (Some (of_fault f), s)
      | None \<Rightarrow>
          (case map_of (disk s) p of
             Some (File c m) \<Rightarrow> (None, commit s (AList.update p (File c mode) (disk s)))
           | Some _ \<Rightarrow> (None, s)
           | None \<Rightarrow> (None, s)))"

definition os_Close :: "os_env \<Rightarrow> os \<Rightarrow> path \<Rightarrow> io_error option" where
  "os_Close env s p = map_option of_fault (fault env (CloseOp p))"

definition os_Rename :: "os_env \<Rightarrow> os \<Rightarrow> path \<Rightarrow> path \<Rightarrow> io_error option \<times> os" where
  "os_Rename env s src dst =
     (case fault env (RenameOp src dst) of
        Some f \<Rightarrow> (Some (of_fault f), s)
      | None \<Rightarrow>
          (case map_of (disk s) src of
             None \<Rightarrow> (Some (missing (disk s) src), s)
           | Some n \<Rightarrow>
               if is_dir (disk s) dst then (Some (ErrOther ''file exists''), s)
               else if \<not> is_dir (disk s) (butlast dst) then (Some (missing (disk s) dst), s)
               else if src = dst then (None, s)
               else (None, commit s (AList.update dst n (AList.delete src (disk s))))))"

definition os_Remove :: "os_env \<Rightarrow> os \<Rightarrow> path \<Rightarrow> io_error option \<times> os" where
  "os_Remove env s p =
     (case fault env (RemoveOp p) of
        Some f \<Rightarrow> (Some (of_fault f), s)
      | None \<Rightarrow>
          (case map_of (disk s) p of
             None \<Rightarrow> (Some (missing (disk s) p), s)
           | Some n \<Rightarrow>
               if n = Dir \<and> children (disk s) p \<noteq> [] then (Some (ErrOther ''directory not empty''), s)
               else (None, commit s (AList.delete p (disk s)))))"

text \<open>\<^verbatim>\<open>os.MkdirAll\<close>: one \<^verbatim>\<open>mkdir\<close> per missing directory, from the top. A symbolic link in the place of a
  directory, which the program would follow, is an error here: the model stands for the program
  where no link stands on the way to a file.\<close>

fun mkdir_each :: "os_env \<Rightarrow> path list \<Rightarrow> os \<Rightarrow> io_error option \<times> os" where
  "mkdir_each env [] s = (None, s)"
| "mkdir_each env (p # ps) s =
     (if is_dir (disk s) p then mkdir_each env ps s
      else (case map_of (disk s) p of
              Some _ \<Rightarrow> (Some (ErrOther ''not a directory''), s)
            | None \<Rightarrow>
                (case fault env (MkdirOp p) of
                   Some f \<Rightarrow> (Some (of_fault f), s)
                 | None \<Rightarrow> mkdir_each env ps (commit s (AList.update p Dir (disk s))))))"

definition os_MkdirAll :: "os_env \<Rightarrow> os \<Rightarrow> path \<Rightarrow> io_error option \<times> os" where
  "os_MkdirAll env s p = mkdir_each env (map (\<lambda>n. take (Suc n) p) [0..<length p]) s"

text \<open>\<^verbatim>\<open>os.RemoveAll\<close>: removes what it can below a path, deepest entries first, and reports the
  first failure; removing nothing is not a failure.\<close>

fun remove_each :: "os_env \<Rightarrow> path list \<Rightarrow> os \<Rightarrow> io_error option \<times> os" where
  "remove_each env [] s = (None, s)"
| "remove_each env (p # ps) s =
     (let (e, s1) = os_Remove env s p; (es, s2) = remove_each env ps s1
      in (case e of Some x \<Rightarrow> (Some x, s2) | None \<Rightarrow> (es, s2)))"

definition below :: "disk \<Rightarrow> path \<Rightarrow> path list" where
  "below d p = rev (sort_key length (filter (\<lambda>q. take (length p) q = p) (remdups (map fst d))))"

definition os_RemoveAll :: "os_env \<Rightarrow> os \<Rightarrow> path \<Rightarrow> io_error option \<times> os" where
  "os_RemoveAll env s p = remove_each env (below (disk s) p) s"

end
