(* ===== verification/Files.thy ===== *)
theory Files
  imports Filesystem
begin

text \<open>
  File helpers of the controllers (\<^verbatim>\<open>internal/kubenotation/controller/files.go\<close>): name validation,
  the atomic replacement of a file, and the non-blocking change notification. A channel is its
  capacity and the number of values waiting in it; a nil channel is \<open>None\<close>. \<open>quote\<close> stands for
  \<^verbatim>\<open>strconv.Quote\<close> (the verb \<^verbatim>\<open>%q\<close>), which only shows in a log message.
\<close>

definition validateFileName :: "(string \<Rightarrow> string) \<Rightarrow> string \<Rightarrow> gerr option" where
  "validateFileName quote name =
     (if name = [] \<or> name = ''.'' \<or> name = ''..'' \<or> ContainsAny name [CHR ''/'', CHR 0x5C]
      then Some (Err (''invalid name '' @ quote name @ '': must be a single, non-empty path element''))
      else None)"

text \<open>Filling the temporary file and renaming it over the target; each early return leaves the
  temporary file to the deferred removal.\<close>

definition fillAndRename ::
    "os_env \<Rightarrow> os \<Rightarrow> path \<Rightarrow> path \<Rightarrow> string \<Rightarrow> (bool \<times> gerr option) \<times> os" where
  "fillAndRename env s tmp path data =
     (case os_Write env s tmp data of
        (Some e, s1) \<Rightarrow> ((False, Some (io_err e)), s1)
      | (None, s1) \<Rightarrow>
          (case os_Chmod env s1 tmp perm600 of
             (Some e, s2) \<Rightarrow> ((False, Some (io_err e)), s2)
           | (None, s2) \<Rightarrow>
               (case os_Close env s2 tmp of
                  Some e \<Rightarrow> ((False, Some (io_err e)), s2)
                | None \<Rightarrow>
                    (case os_Rename env s2 tmp path of
                       (Some e, s3) \<Rightarrow> ((False, Some (io_err e)), s3)
                     | (None, s3) \<Rightarrow> ((True, None), s3)))))"

definition replaceFile ::
    "os_env \<Rightarrow> os \<Rightarrow> path \<Rightarrow> path \<Rightarrow> string \<Rightarrow> (bool \<times> gerr option) \<times> os" where
  "replaceFile env s path tmpDir data =
     (case os_CreateTemp env s tmpDir of
        (Inl e, s1) \<Rightarrow> ((False, Some (io_err e)), s1)
      | (Inr tmp, s1) \<Rightarrow>
          (case fillAndRename env s1 tmp path data of
             (r, s2) \<Rightarrow> (r, snd (os_Remove env s2 tmp))))"

definition writeFileIfChanged ::
    "os_env \<Rightarrow> os \<Rightarrow> path \<Rightarrow> path \<Rightarrow> string \<Rightarrow> (bool \<times> gerr option) \<times> os" where
  "writeFileIfChanged env s path tmpDir data =
     (case os_ReadFile env s path of
        Inr current \<Rightarrow>
          if current = data then ((False, None), s) else replaceFile env s path tmpDir data
      | Inl e \<Rightarrow>
          if \<not> is_not_exist e then ((False, Some (io_err e)), s)
          else replaceFile env s path tmpDir data)"

record chan =
  chan_cap :: nat
  chan_len :: nat

definition notify :: "chan option \<Rightarrow> chan option" where
  "notify ch =
     (case ch of
        None \<Rightarrow> None
      | Some c \<Rightarrow> Some (if chan_len c < chan_cap c then c\<lparr> chan_len := chan_len c + 1 \<rparr> else c))"

section \<open>What the system calls change\<close>

text \<open>\<open>grows P s s'\<close>: the disk went from \<open>s\<close> to \<open>s'\<close> through versions that all satisfy \<open>P\<close>.\<close>

definition grows :: "(disk \<Rightarrow> bool) \<Rightarrow> os \<Rightarrow> os \<Rightarrow> bool" where
  "grows P s s' \<longleftrightarrow> (\<exists>ds. hist s' = hist s @ ds \<and> (\<forall>d\<in>set ds. P d) \<and> disk s' = last (disk s # ds))"

lemma grows_refl [simp]: "grows P s s"
  by (simp add: grows_def)

lemma grows_trans: "grows P s s' \<Longrightarrow> grows P s' s'' \<Longrightarrow> grows P s s''"
  unfolding grows_def
proof (elim exE conjE)
  fix ds es
  assume "hist s' = hist s @ ds" "\<forall>d\<in>set ds. P d" "disk s' = last (disk s # ds)"
    "hist s'' = hist s' @ es" "\<forall>d\<in>set es. P d" "disk s'' = last (disk s' # es)"
  then show "\<exists>ds. hist s'' = hist s @ ds \<and> (\<forall>d\<in>set ds. P d) \<and> disk s'' = last (disk s # ds)"
    by (intro exI [of _ "ds @ es"]) auto
qed

lemma grows_commit: "P d \<Longrightarrow> grows P s (commit s d)"
  by (simp add: grows_def)

lemma grows_mono: "grows P s s' \<Longrightarrow> (\<And>d. P d \<Longrightarrow> Q d) \<Longrightarrow> grows Q s s'"
  unfolding grows_def by blast

lemma grows_disk: "grows P s s' \<Longrightarrow> P (disk s) \<Longrightarrow> P (disk s')"
  by (auto simp: grows_def)

text \<open>Disks that agree outside one path.\<close>

definition agree_off :: "path set \<Rightarrow> disk \<Rightarrow> disk \<Rightarrow> bool" where
  "agree_off A d d' \<longleftrightarrow> (\<forall>q. q \<notin> A \<longrightarrow> map_of d' q = map_of d q)"

lemma agree_off_refl [simp]: "agree_off A d d"
  by (simp add: agree_off_def)

lemma agree_off_update: "p \<in> A \<Longrightarrow> agree_off A d0 d \<Longrightarrow> agree_off A d0 (AList.update p n d)"
  by (auto simp: agree_off_def update_conv')

lemma agree_off_delete: "p \<in> A \<Longrightarrow> agree_off A d0 d \<Longrightarrow> agree_off A d0 (AList.delete p d)"
  by (auto simp: agree_off_def delete_conv')

lemma set_content_grows:
  "agree_off {p} d0 (disk s) \<Longrightarrow> grows (agree_off {p} d0) s (set_content s p c)"
  by (auto simp: set_content_def agree_off_update intro: grows_commit split: option.splits node.splits)

lemma set_content_same: "map_of (disk s) p = Some (File c0 m) \<Longrightarrow>
    map_of (disk (set_content s p c)) p = Some (File c m)"
  by (simp add: set_content_def update_conv')

lemma os_Write_grows:
  "agree_off {p} d0 (disk s) \<Longrightarrow> os_Write env s p data = (r, s') \<Longrightarrow> grows (agree_off {p} d0) s s'"
  by (auto simp: os_Write_def set_content_grows split: option.splits)

lemma os_Write_content:
  "os_Write env s p data = (None, s') \<Longrightarrow> map_of (disk s) p = Some (File c m) \<Longrightarrow>
     map_of (disk s') p = Some (File data m)"
  by (auto simp: os_Write_def set_content_same split: option.splits)

lemma os_Chmod_grows:
  "agree_off {p} d0 (disk s) \<Longrightarrow> os_Chmod env s p mode = (r, s') \<Longrightarrow> grows (agree_off {p} d0) s s'"
  by (auto simp: os_Chmod_def agree_off_update intro: grows_commit split: option.splits node.splits)

lemma os_Chmod_content:
  "os_Chmod env s p mode = (None, s') \<Longrightarrow> map_of (disk s) p = Some (File c m) \<Longrightarrow>
     map_of (disk s') p = Some (File c mode)"
  by (auto simp: os_Chmod_def update_conv' split: option.splits node.splits)

lemma os_Remove_grows:
  "agree_off {p} d0 (disk s) \<Longrightarrow> grows (agree_off {p} d0) s (snd (os_Remove env s p))"
  by (auto simp: os_Remove_def agree_off_delete intro: grows_commit split: option.splits)

lemma os_Rename_result:
  assumes "os_Rename env s src dst = (r, s')" and "src \<noteq> dst"
  shows "(r \<noteq> None \<and> s' = s)
    \<or> (r = None \<and> \<not> is_dir (disk s) dst \<and> is_dir (disk s) (butlast dst)
        \<and> (\<exists>d n. s' = commit s d \<and> map_of (disk s) src = Some n
             \<and> map_of d = (map_of (disk s))(src := None, dst := Some n)))"
  using assms
  by (auto simp: os_Rename_def update_conv' delete_conv' split: option.splits if_splits)

lemma os_CreateTemp_result:
  assumes "os_CreateTemp env s dir = (r, s')"
  shows "(\<exists>e. r = Inl e \<and> s' = s)
    \<or> (\<exists>n. r = Inr (temp_path dir n) \<and> map_of (disk s) (temp_path dir n) = None \<and> is_dir (disk s) dir
         \<and> s' = commit s (AList.update (temp_path dir n) (File [] perm600) (disk s)))"
  using assms
  by (auto simp: os_CreateTemp_def find_Some_iff split: option.splits if_splits)

section \<open>Atomic replacement\<close>

text \<open>What a reader of \<open>path\<close> may find while it is being replaced: the old node or the whole new file.\<close>

definition old_or_new :: "disk \<Rightarrow> path \<Rightarrow> string \<Rightarrow> disk \<Rightarrow> bool" where
  "old_or_new d0 path data d \<longleftrightarrow>
     map_of d path = map_of d0 path \<or> map_of d path = Some (File data perm600)"

lemma agree_off_old_or_new:
  "agree_off {tmp} d0 d \<Longrightarrow> tmp \<noteq> path \<Longrightarrow> agree_off {tmp, path} d0 d \<and> old_or_new d0 path data d"
  by (auto simp: agree_off_def old_or_new_def)

lemma grows_old_or_new:
  "grows (agree_off {tmp} d0) s s' \<Longrightarrow> tmp \<noteq> path \<Longrightarrow>
     grows (\<lambda>d. agree_off {tmp, path} d0 d \<and> old_or_new d0 path data d) s s'"
  by (erule grows_mono) (rule agree_off_old_or_new)

lemma os_Rename_over:
  assumes "os_Rename env s tmp path = (r, s')" and "agree_off {tmp} d0 (disk s)" and "tmp \<noteq> path"
    and "map_of (disk s) tmp = Some (File data perm600)"
  shows "grows (\<lambda>d. agree_off {tmp, path} d0 d \<and> old_or_new d0 path data d) s s'
    \<and> (r = None \<longrightarrow> map_of (disk s') path = Some (File data perm600) \<and> map_of (disk s') tmp = None)
    \<and> (r \<noteq> None \<longrightarrow> s' = s)"
  using os_Rename_result [OF assms(1,3)] assms(2-4)
  by (auto intro!: grows_commit simp: agree_off_def old_or_new_def)

lemma fillAndRename_result:
  assumes run: "fillAndRename env s tmp path data = ((changed, err), s')"
    and off: "agree_off {tmp} d0 (disk s)" and ne: "tmp \<noteq> path"
    and empty: "map_of (disk s) tmp = Some (File [] perm600)"
  shows "grows (\<lambda>d. agree_off {tmp, path} d0 d \<and> old_or_new d0 path data d) s s'
    \<and> (if changed then err = None \<and> map_of (disk s') path = Some (File data perm600) \<and> map_of (disk s') tmp = None
       else err \<noteq> None \<and> agree_off {tmp} d0 (disk s'))"
proof -
  obtain e1 s1 where w: "os_Write env s tmp data = (e1, s1)" by fastforce
  obtain e2 s2 where c: "os_Chmod env s1 tmp perm600 = (e2, s2)" by fastforce
  obtain e3 s3 where r: "os_Rename env s2 tmp path = (e3, s3)" by fastforce
  have g1: "grows (agree_off {tmp} d0) s s1" using os_Write_grows [OF off w] .
  then have o1: "agree_off {tmp} d0 (disk s1)" using off grows_disk by blast
  have g2: "grows (agree_off {tmp} d0) s1 s2" using os_Chmod_grows [OF o1 c] .
  then have o2: "agree_off {tmp} d0 (disk s2)" using o1 grows_disk by blast
  note G1 = grows_old_or_new [OF g1 ne]
  note G2 = grows_trans [OF G1 grows_old_or_new [OF g2 ne]]
  consider (wr) x where "e1 = Some x" | (ch) x where "e1 = None" "e2 = Some x"
    | (cl) x where "e1 = None" "e2 = None" "os_Close env s2 tmp = Some x"
    | (rn) "e1 = None" "e2 = None" "os_Close env s2 tmp = None"
    by (cases e1; cases e2; cases "os_Close env s2 tmp") auto
  then show ?thesis
  proof cases
    case rn
    have "map_of (disk s2) tmp = Some (File data perm600)"
      using os_Chmod_content c os_Write_content w empty rn by metis
    from os_Rename_over [OF r o2 ne this] G2 run rn w c r o2 show ?thesis
      by (auto simp: fillAndRename_def split: option.splits intro: grows_trans)
  qed (use run w c G1 G2 o1 o2 in \<open>auto simp: fillAndRename_def\<close>)
qed

lemma replaceFile_result:
  assumes run: "replaceFile env s path tmpDir data = ((changed, err), s')"
    and ne: "\<forall>n. path \<noteq> temp_path tmpDir n"
  shows "\<exists>n. map_of (disk s) (temp_path tmpDir n) = None
    \<and> grows (\<lambda>d. agree_off {temp_path tmpDir n, path} (disk s) d \<and> old_or_new (disk s) path data d) s s'
    \<and> (if changed then err = None \<and> map_of (disk s') path = Some (File data perm600)
          \<and> map_of (disk s') (temp_path tmpDir n) = None
       else err \<noteq> None \<and> agree_off {temp_path tmpDir n} (disk s) (disk s'))
    \<or> \<not> changed \<and> err \<noteq> None \<and> s' = s"
proof -
  obtain r s1 where c: "os_CreateTemp env s tmpDir = (r, s1)" by fastforce
  from os_CreateTemp_result [OF c] show ?thesis
  proof (elim disjE exE conjE)
    fix e assume "r = Inl e" "s1 = s"
    with run c show ?thesis by (auto simp: replaceFile_def)
  next
    fix n
    let ?tmp = "temp_path tmpDir n"
    let ?P = "\<lambda>d. agree_off {?tmp, path} (disk s) d \<and> old_or_new (disk s) path data d"
    assume r: "r = Inr ?tmp" and free: "map_of (disk s) ?tmp = None"
      and s1: "s1 = commit s (AList.update ?tmp (File [] perm600) (disk s))"
    obtain ch er s2 where f: "fillAndRename env s1 ?tmp path data = ((ch, er), s2)"
      by (metis prod.exhaust_sel)
    have o1: "agree_off {?tmp} (disk s) (disk s1)"
      by (simp add: s1 agree_off_update)
    have n1: "map_of (disk s1) ?tmp = Some (File [] perm600)"
      by (simp add: s1 update_conv')
    have tp: "?tmp \<noteq> path" using ne by metis
    have g1: "grows ?P s s1"
      using grows_commit [of ?P "disk s1" s] agree_off_old_or_new [OF o1 tp, of data] by (simp add: s1)
    note F = fillAndRename_result [OF f o1 tp n1]
    have s': "s' = snd (os_Remove env s2 ?tmp)" and ce: "ch = changed" "er = err"
      using run c r f by (auto simp: replaceFile_def)
    have g3: "grows (agree_off {?tmp} (disk s2)) s2 s'"
      by (simp add: s' os_Remove_grows)
    have P2: "?P (disk s2)"
      using F grows_disk [of ?P s1 s2] agree_off_old_or_new [OF o1 tp] by blast
    have step: "?P d" if "agree_off {?tmp} (disk s2) d" for d
      using that P2 tp by (auto simp: agree_off_def old_or_new_def)
    have "grows ?P s s'"
      using g1 F grows_mono [OF g3, of ?P] step grows_trans by blast
    moreover have "agree_off {?tmp} (disk s2) (disk s')"
      using grows_disk [OF g3] by simp
    moreover have "map_of (disk s2) ?tmp = None \<Longrightarrow> s' = s2"
      by (simp add: s' os_Remove_def split: option.splits)
    ultimately show ?thesis
      using F free tp ce by (intro exI [of _ n] disjI1) (auto simp: agree_off_def split: if_splits)
  qed
qed

lemma writeFileIfChanged_result:
  assumes run: "writeFileIfChanged env s path tmpDir data = ((changed, err), s')"
    and ne: "\<forall>n. path \<noteq> temp_path tmpDir n"
  shows "(\<exists>n. (map_of (disk s) (temp_path tmpDir n) = None \<or> s' = s)
      \<and> grows (\<lambda>d. agree_off {temp_path tmpDir n, path} (disk s) d \<and> old_or_new (disk s) path data d) s s'
      \<and> (changed \<longrightarrow> map_of (disk s') (temp_path tmpDir n) = None))
    \<and> (changed \<longrightarrow> err = None \<and> map_of (disk s') path = Some (File data perm600))
    \<and> (\<not> changed \<longrightarrow> err = None \<longrightarrow> s' = s \<and> read_node (disk s) path = Inr data)
    \<and> (err \<noteq> None \<longrightarrow> \<not> changed \<and> map_of (disk s') path = map_of (disk s) path)"
proof -
  have replace: ?thesis if "replaceFile env s path tmpDir data = ((changed, err), s')"
    using replaceFile_result [OF that ne]
  proof (elim disjE exE conjE)
    assume "\<not> changed" "err \<noteq> None" "s' = s"
    then show ?thesis by auto
  next
    fix n
    assume "map_of (disk s) (temp_path tmpDir n) = None"
      "grows (\<lambda>d. agree_off {temp_path tmpDir n, path} (disk s) d \<and> old_or_new (disk s) path data d) s s'"
      "if changed then err = None \<and> map_of (disk s') path = Some (File data perm600)
          \<and> map_of (disk s') (temp_path tmpDir n) = None
       else err \<noteq> None \<and> agree_off {temp_path tmpDir n} (disk s) (disk s')"
    then show ?thesis
      using ne by (cases changed) (auto simp: agree_off_def)
  qed
  show ?thesis
  proof (cases "os_ReadFile env s path")
    case (Inl e)
    with run replace show ?thesis by (auto simp: writeFileIfChanged_def split: if_splits)
  next
    case (Inr c)
    with run replace show ?thesis
      by (auto simp: writeFileIfChanged_def os_ReadFile_def split: if_splits option.splits)
  qed
qed

lemma validateFileName_iff:
  "validateFileName quote name = None \<longleftrightarrow> plain_element name \<and> CHR 0x5C \<notin> set name"
  by (auto simp: validateFileName_def plain_element_def ContainsAny_iff)

lemma Ext_json: "Ext (name @ ''.json'') = ''.json''"
  using Ext_append [of "''json''" name] by simp

lemma plain_json: "CHR ''/'' \<notin> set name \<Longrightarrow> plain_element (name @ ''.json'')"
  by (auto simp: plain_element_def Cons_eq_append_conv append_eq_Cons_conv)

lemma filepath_Join_json:
  "validateFileName quote name = None \<Longrightarrow> filepath_Join dir (name @ ''.json'') = dir @ [name @ ''.json'']"
  by (simp add: validateFileName_iff filepath_Join_plain plain_json plain_element_def)

section \<open>Properties\<close>

text \<open>
  C15. Files are replaced atomically, whichever system calls fail: every version of the disk
  that exists during \<^verbatim>\<open>writeFileIfChanged\<close> holds at the target either what it held before or the
  complete new content, and differs from the start only there and at one unused temporary name.
  "Changed" means the target now holds the new content and the temporary file is gone; "not
  changed" without an error means the target already held the content and nothing was written;
  an error means the target is untouched.
\<close>

theorem writeFileIfChanged_atomic:
  assumes "writeFileIfChanged env s path tmpDir data = ((changed, err), s')"
    and "\<forall>n. path \<noteq> temp_path tmpDir n"
  shows "(\<exists>n ds. hist s' = hist s @ ds
      \<and> (\<forall>d \<in> set ds. (map_of d path = map_of (disk s) path \<or> map_of d path = Some (File data perm600))
           \<and> (\<forall>q. q \<noteq> path \<longrightarrow> q \<noteq> temp_path tmpDir n \<longrightarrow> map_of d q = map_of (disk s) q))
      \<and> (changed \<longrightarrow> map_of (disk s') (temp_path tmpDir n) = None))
    \<and> (changed \<longrightarrow> err = None \<and> map_of (disk s') path = Some (File data perm600))
    \<and> (\<not> changed \<longrightarrow> err = None \<longrightarrow> s' = s \<and> read_node (disk s) path = Inr data)
    \<and> (err \<noteq> None \<longrightarrow> \<not> changed \<and> map_of (disk s') path = map_of (disk s) path)"
proof -
  note R = writeFileIfChanged_result [OF assms]
  then obtain n where g: "grows (\<lambda>d. agree_off {temp_path tmpDir n, path} (disk s) d
      \<and> old_or_new (disk s) path data d) s s'"
    and t: "changed \<longrightarrow> map_of (disk s') (temp_path tmpDir n) = None" by blast
  from g obtain ds where "hist s' = hist s @ ds"
    and "\<forall>d \<in> set ds. (map_of d path = map_of (disk s) path \<or> map_of d path = Some (File data perm600))
           \<and> (\<forall>q. q \<noteq> path \<longrightarrow> q \<noteq> temp_path tmpDir n \<longrightarrow> map_of d q = map_of (disk s) q)"
    unfolding grows_def agree_off_def old_or_new_def by auto
  with t R show ?thesis by blast
qed

definition calm :: os_env where
  "calm = \<lparr> fault = (\<lambda>op. None), short_write = 0, temp_numbers = [7] \<rparr>"

definition demo_os :: os where
  "demo_os = \<lparr> disk = [([''n''], Dir), ([''n'', ''tp.json''], File ''old'' perm600)], hist = [] \<rparr>"

lemma uitoa_7: "uitoa 7 = ''7''"
  by (subst uitoa.simps) code_simp

theorem writeFileIfChanged_atomic_witness:
  "fst (writeFileIfChanged calm demo_os [''n'', ''tp.json''] [''n''] ''new'') = (True, None)
   \<and> map_of (disk (snd (writeFileIfChanged calm demo_os [''n'', ''tp.json''] [''n''] ''new''))) [''n'', ''tp.json'']
       = Some (File ''new'' perm600)"
proof -
  let ?r = "writeFileIfChanged calm demo_os [''n'', ''tp.json''] [''n''] ''new''"
  have r: "fst ?r = (True, None)"
    by (simp add: writeFileIfChanged_def os_ReadFile_def calm_def demo_os_def read_node_def numeral_eq_Suc
        replaceFile_def os_CreateTemp_def is_dir_def temp_path_def uitoa_7 fillAndRename_def os_Write_def
        set_content_def os_Chmod_def os_Close_def os_Rename_def split_beta)
  have "?r = ((True, None), snd ?r)" using r by (metis prod.collapse)
  moreover have "\<forall>n. [''n'', ''tp.json''] \<noteq> temp_path [''n''] n"
    by (simp add: temp_path_def)
  ultimately have "map_of (disk (snd ?r)) [''n'', ''tp.json''] = Some (File ''new'' perm600)"
    using writeFileIfChanged_atomic by blast
  with r show ?thesis by simp
qed

text \<open>
  A trust policy name that passes validation can never leave the notation directory: it is
  accepted exactly when it is a single path element without a slash or backslash, and then the
  policy file is a direct child of the directory and has the extension \<^verbatim>\<open>.json\<close>.
\<close>

theorem validateFileName_confines:
  "(validateFileName quote name = None \<longleftrightarrow>
      name \<noteq> [] \<and> name \<noteq> ''.'' \<and> name \<noteq> ''..'' \<and> CHR ''/'' \<notin> set name \<and> CHR 0x5C \<notin> set name)
   \<and> (validateFileName quote name = None \<longrightarrow>
        filepath_Join dir (name @ ''.json'') = dir @ [name @ ''.json''] \<and> Ext (name @ ''.json'') = ''.json'')"
  by (auto simp: validateFileName_iff plain_element_def Ext_json filepath_Join_plain plain_json)

theorem validateFileName_confines_witness:
  "validateFileName id ''aws-signer-tp'' = None
   \<and> filepath_Join [''tmp'', ''notation''] (''aws-signer-tp'' @ ''.json'') = [''tmp'', ''notation'', ''aws-signer-tp.json'']
   \<and> filepath_Join [''tmp'', ''notation''] ''../etc.json'' = [''tmp'', ''etc.json'']"
proof -
  have v: "validateFileName id ''aws-signer-tp'' = None"
    by (simp add: validateFileName_def ContainsAny_def)
  with validateFileName_confines [of id "''aws-signer-tp''" "[''tmp'', ''notation'']"]
  show ?thesis by (simp add: filepath_Join_def)
qed

lemma last_uitoa: "uitoa n \<noteq> [] \<and> of_char (last (uitoa n)) = 48 + n mod 10"
  by (subst (1 2) uitoa.simps) (auto simp: of_char_of)

lemma temp_path_not_json: "temp_path dir n \<noteq> dir' @ [name @ ''.json'']"
proof
  assume "temp_path dir n = dir' @ [name @ ''.json'']"
  then have "last (''.tmp-'' @ uitoa n) = last (name @ ''.json'')"
    by (simp add: temp_path_def)
  with last_uitoa [of n] have "of_char (CHR ''n'') = 48 + n mod 10"
    by (metis last.simps last_append list.distinct(1))
  then show False by simp
qed

end
