(* ===== verification/Factory.thy ===== *)
theory Factory
  imports Types Files
begin

text \<open>
  The factory of notation verifiers (\<^verbatim>\<open>internal/notationfactory\<close>): one verifier per trust policy
  file. \<open>decode_policy\<close> stands for decoding notation's policy document and \<open>verifier_New\<close> for
  notation's \<^verbatim>\<open>verifier.New\<close>; a verifier is an opaque value of type \<open>'n\<close>. The directory is read
  with the system calls of theory Filesystem; the read-write lock makes a refresh and a lookup
  atomic steps.
\<close>

record ('d, 'n) notation_lib =
  decode_policy :: "string \<Rightarrow> 'd result"
  verifier_New :: "'d \<Rightarrow> 'n result"

record 'n notationverifierfactory =
  verifiers :: "'n gomap"

definition NewNotationVerifierFactory :: "'n notationverifierfactory" where
  "NewNotationVerifierFactory = \<lparr> verifiers = [] \<rparr>"

definition TrimSuffix :: "string \<Rightarrow> string \<Rightarrow> string" where
  "TrimSuffix s suf =
     (if length suf \<le> length s \<and> drop (length s - length suf) s = suf
      then take (length s - length suf) s else s)"

definition path_text :: "path \<Rightarrow> string" where
  "path_text p = concat (map (\<lambda>x. CHR ''/'' # x) p)"

definition loadTrustPolicy ::
    "('d, 'n) notation_lib \<Rightarrow> os_env \<Rightarrow> os \<Rightarrow> path \<Rightarrow> 'd result" where
  "loadTrustPolicy lib env s p =
     (case os_Lstat env s p of
        Inl e \<Rightarrow>
          if is_not_exist e then Inl (Err (''trust policy is not present '' @ path_text p))
          else Inl (io_err e)
      | Inr n \<Rightarrow>
          if (case n of Dir \<Rightarrow> True | Symlink _ \<Rightarrow> True | File _ _ \<Rightarrow> False)
          then Inl (Err (''trust policy is not a regular file (symlinks are not supported) path: '' @ path_text p))
          else (case os_Open env s p of
                  Inl e \<Rightarrow>
                    if is_permission e
                    then Inl (Err (''unable to read trust policy due to file permissions, please verify the permissions of '' @ path_text p))
                    else Inl (io_err e)
                | Inr content \<Rightarrow>
                    (case decode_policy lib content of
                       Inl e \<Rightarrow> Inl (wrap (''malformed trust policy path '' @ path_text p) e)
                     | Inr doc \<Rightarrow> Inr doc)))"

fun refreshEntries ::
    "('d, 'n) notation_lib \<Rightarrow> os_env \<Rightarrow> os \<Rightarrow> path \<Rightarrow> (string \<times> bool) list \<Rightarrow> 'n gomap \<Rightarrow> 'n gomap result" where
  "refreshEntries lib env s dir [] vs = Inr vs"
| "refreshEntries lib env s dir ((name, isDir) # rest) vs =
     (if isDir \<or> Ext name \<noteq> ''.json'' then refreshEntries lib env s dir rest vs
      else (case loadTrustPolicy lib env s (filepath_Join dir name) of
              Inl e \<Rightarrow> Inl e
            | Inr doc \<Rightarrow>
                (case verifier_New lib doc of
                   Inl e \<Rightarrow> Inl e
                 | Inr v \<Rightarrow>
                     refreshEntries lib env s dir rest (map_set vs (TrimSuffix name (Ext name)) v))))"

definition RefreshVerifiers ::
    "('d, 'n) notation_lib \<Rightarrow> os_env \<Rightarrow> os \<Rightarrow> path \<Rightarrow> 'n notationverifierfactory
       \<Rightarrow> gerr option \<times> 'n notationverifierfactory" where
  "RefreshVerifiers lib env s notationPath f =
     (case os_ReadDir env s notationPath of
        Inl e \<Rightarrow> (Some (io_err e), f)
      | Inr es \<Rightarrow>
          (case refreshEntries lib env s notationPath es [] of
             Inl e \<Rightarrow> (Some e, f)
           | Inr vs \<Rightarrow> (None, f\<lparr> verifiers := vs \<rparr>)))"

definition GetVerifier ::
    "(string \<Rightarrow> string) \<Rightarrow> 'n notationverifierfactory \<Rightarrow> VerificationRequest \<Rightarrow> 'n result" where
  "GetVerifier getenv f req =
     (let trustPolicy = (if TrustPolicy req = [] then getenv EnvDefaultTrustPolicy else TrustPolicy req)
      in if trustPolicy = []
         then Inl (Err (''no trust policy specified, please specify a trust policy in request or set ''
                        @ EnvDefaultTrustPolicy @ '' env''))
         else (case map_of (verifiers f) trustPolicy of
                 None \<Rightarrow> Inl (Err (''no trust policy found for trust policy '' @ trustPolicy))
               | Some v \<Rightarrow> Inr v))"

section \<open>The verifiers are the policy files\<close>

text \<open>The verifier the file of trust policy \<open>tp\<close> gives, if it is a good file.\<close>

definition policy_verifier :: "('d, 'n) notation_lib \<Rightarrow> disk \<Rightarrow> path \<Rightarrow> string \<Rightarrow> 'n option" where
  "policy_verifier lib d dir tp =
     (case map_of d (dir @ [tp @ ''.json'']) of
        Some (File c m) \<Rightarrow>
          (case decode_policy lib c of
             Inl e \<Rightarrow> None
           | Inr doc \<Rightarrow> (case verifier_New lib doc of Inl e \<Rightarrow> None | Inr v \<Rightarrow> Some v))
      | _ \<Rightarrow> None)"

lemma Ext_json_split:
  assumes "Ext name = ''.json''"
  shows "\<exists>tp. name = tp @ ''.json'' \<and> TrimSuffix name (Ext name) = tp"
proof -
  from assms have "CHR ''.'' \<in> set name" and al: "AfterLast name (CHR ''.'') = ''json''"
    by (auto simp: Ext_def split: if_splits)
  then obtain a b where "name = a @ CHR ''.'' # b" "CHR ''.'' \<notin> set b"
    using split_last_byte by metis
  with al have "name = a @ ''.json''" by (simp add: AfterLast_append)
  with assms show ?thesis by (auto simp: TrimSuffix_def)
qed

lemma loadTrustPolicy_ok:
  assumes "loadTrustPolicy lib env s p = Inr doc"
  shows "\<exists>c m. map_of (disk s) p = Some (File c m) \<and> decode_policy lib c = Inr doc"
proof -
  from assms obtain c0 m0 where l: "os_Lstat env s p = Inr (File c0 m0)"
    by (auto simp: loadTrustPolicy_def split: sum.splits node.splits if_splits)
  then have p: "p \<noteq> []" "map_of (disk s) p = Some (File c0 m0)"
    by (auto simp: os_Lstat_def split: option.splits if_splits)
  then have "os_Open env s p = Inr c \<Longrightarrow> c = c0" for c
    by (auto simp: os_Open_def read_node_File split: option.splits)
  with assms l p show ?thesis
    by (auto simp: loadTrustPolicy_def split: sum.splits if_splits)
qed

lemma refreshEntries_ok:
  assumes "refreshEntries lib env s dir es vs = Inr vs'"
    and "\<forall>(name, isDir) \<in> set es. plain_element name"
  shows "map_of vs' tp =
    (if (tp @ ''.json'', False) \<in> set es then policy_verifier lib (disk s) dir tp else map_of vs tp)
    \<and> ((tp @ ''.json'', False) \<in> set es \<longrightarrow> policy_verifier lib (disk s) dir tp \<noteq> None)"
  using assms
proof (induction es arbitrary: vs)
  case Nil
  then show ?case by simp
next
  case (Cons e es)
  obtain name isDir where e: "e = (name, isDir)" by (cases e)
  show ?case
  proof (cases "isDir \<or> Ext name \<noteq> ''.json''")
    case True
    then have "e \<noteq> (tp @ ''.json'', False)"
      by (auto simp: e Ext_json)
    with Cons True show ?thesis by (auto simp: e)
  next
    case False
    then obtain tp0 where n: "name = tp0 @ ''.json''" and trim: "TrimSuffix name ''.json'' = tp0"
      using Ext_json_split [of name] by auto
    from Cons.prems False obtain doc v
      where doc: "loadTrustPolicy lib env s (filepath_Join dir name) = Inr doc"
        and v: "verifier_New lib doc = Inr v"
        and rest: "refreshEntries lib env s dir es (map_set vs tp0 v) = Inr vs'"
      by (auto simp: e trim split: sum.splits)
    have "filepath_Join dir name = dir @ [tp0 @ ''.json'']"
      using Cons.prems(2) by (simp add: e filepath_Join_plain flip: n)
    with loadTrustPolicy_ok [OF doc] v have "policy_verifier lib (disk s) dir tp0 = Some v"
      by (auto simp: policy_verifier_def)
    with Cons.IH [OF rest] Cons.prems(2) False show ?thesis
      by (auto simp: e n)
  qed
qed

definition wf_names :: "disk \<Rightarrow> bool" where
  "wf_names d \<longleftrightarrow> (\<forall>p x. (p, x) \<in> set d \<longrightarrow> list_all plain_element p)"

lemma os_ReadDir_plain:
  "os_ReadDir env s dir = Inr es \<Longrightarrow> wf_names (disk s) \<Longrightarrow> \<forall>(name, isDir) \<in> set es. plain_element name"
  by (auto simp: os_ReadDir_def wf_names_def set_children split: option.splits if_splits) force

lemma os_ReadDir_iff:
  "os_ReadDir env s dir = Inr es \<Longrightarrow>
     (name, False) \<in> set es \<longleftrightarrow> map_of (disk s) (dir @ [name]) \<notin> {None, Some Dir}"
  by (auto simp: os_ReadDir_def image_iff children_iff split: option.splits if_splits)

lemma RefreshVerifiers_ok:
  assumes "RefreshVerifiers lib env s dir f = (None, f')" and "wf_names (disk s)"
  shows "map_of (verifiers f') tp = policy_verifier lib (disk s) dir tp
    \<and> (policy_verifier lib (disk s) dir tp = None \<longrightarrow> map_of (disk s) (dir @ [tp @ ''.json'']) \<in> {None, Some Dir})"
proof -
  from assms(1) obtain es vs where es: "os_ReadDir env s dir = Inr es"
    and vs: "refreshEntries lib env s dir es [] = Inr vs" and f': "f' = f\<lparr> verifiers := vs \<rparr>"
    by (auto simp: RefreshVerifiers_def split: sum.splits)
  from refreshEntries_ok [OF vs os_ReadDir_plain [OF es assms(2)], of tp]
    os_ReadDir_iff [OF es, of "tp @ ''.json''"]
  show ?thesis
    by (auto simp: f' policy_verifier_def split: option.splits node.splits if_splits)
qed

lemma RefreshVerifiers_err: "RefreshVerifiers lib env s dir f = (Some e, f') \<Longrightarrow> f' = f"
  by (auto simp: RefreshVerifiers_def split: sum.splits)

lemma GetVerifier_ok_iff:
  "GetVerifier getenv f req = Inr v \<longleftrightarrow>
     (let tp = (if TrustPolicy req = [] then getenv EnvDefaultTrustPolicy else TrustPolicy req)
      in tp \<noteq> [] \<and> map_of (verifiers f) tp = Some v)"
  by (auto simp: GetVerifier_def Let_def split: option.splits)

section \<open>Properties\<close>

text \<open>
  A refresh is all or nothing and exact: if it reports an error the verifiers in use stay
  as they were; otherwise there is a verifier for a trust policy exactly when a regular file of
  that name with extension \<^verbatim>\<open>.json\<close> is in the notation directory, it is the one notation builds
  from the content of that file, and no such file was left out.
\<close>

theorem RefreshVerifiers_exact:
  assumes "wf_names (disk s)"
  shows "case RefreshVerifiers lib env s dir f of
      (Some e, f') \<Rightarrow> f' = f
    | (None, f') \<Rightarrow> \<forall>tp. map_of (verifiers f') tp = policy_verifier lib (disk s) dir tp
        \<and> (map_of (verifiers f') tp = None \<longrightarrow> map_of (disk s) (dir @ [tp @ ''.json'']) \<in> {None, Some Dir})"
proof -
  obtain e f' where r: "RefreshVerifiers lib env s dir f = (e, f')" by fastforce
  show ?thesis
  proof (cases e)
    case None
    with r RefreshVerifiers_ok [OF _ assms, of lib env dir f f'] show ?thesis by simp
  next
    case (Some x)
    with r RefreshVerifiers_err [of lib env s dir f x f'] show ?thesis by simp
  qed
qed

definition demo_lib :: "(string, string) notation_lib" where
  "demo_lib = \<lparr> decode_policy = (\<lambda>c. if c = [] then Inl (Err ''EOF'') else Inr c), verifier_New = Inr \<rparr>"

lemma wf_names_demo: "wf_names (disk demo_os)"
  by (auto simp: wf_names_def demo_os_def plain_element_def)

lemma demo_refreshes: "\<exists>f'. RefreshVerifiers demo_lib calm demo_os [''n''] f = (None, f')"
proof -
  have "fst (RefreshVerifiers demo_lib calm demo_os [''n''] f) = None"
    by (simp add: RefreshVerifiers_def os_ReadDir_def calm_def demo_os_def is_dir_def children_def
        loadTrustPolicy_def os_Lstat_def os_Open_def read_node_def numeral_eq_Suc demo_lib_def
        filepath_Join_def Ext_def AfterLast_def LastIndexByte_def)
  then show ?thesis by (metis prod.collapse)
qed

theorem RefreshVerifiers_exact_witness:
  "\<exists>f'. RefreshVerifiers demo_lib calm demo_os [''n''] NewNotationVerifierFactory = (None, f')
     \<and> map_of (verifiers f') ''tp'' = Some ''old''"
proof -
  obtain f' where f': "RefreshVerifiers demo_lib calm demo_os [''n''] NewNotationVerifierFactory = (None, f')"
    by (metis demo_refreshes)
  with RefreshVerifiers_exact [OF wf_names_demo, where lib = demo_lib and env = calm and dir = "[''n'']" and f = NewNotationVerifierFactory]
  have "map_of (verifiers f') ''tp'' = policy_verifier demo_lib (disk demo_os) [''n''] ''tp''"
    by (simp only: f' prod.case option.case)
  then show ?thesis
    using f' by (simp add: policy_verifier_def demo_os_def demo_lib_def)
qed

end
