(* ===== verification/External.thy ===== *)
theory External
  imports Cache Keychain Factory
begin

text \<open>
  The third-party interfaces the request path calls, and the verifier's own structs.

  Record \<open>ext\<close> holds one function per call into a library or service that is not part of the
  repository: container registries (go-containerregistry and oras), notation, Kyverno's engine,
  credential providers, the clock and the environment. Handles the program only passes around
  (pullers, repositories, secrets, JSON payloads, engine contexts) have the opaque type \<open>'h\<close>,
  notation verifiers the opaque type \<open>'n\<close>. The functions are fixed for the duration of one
  request; different requests may see different ones.

  A keychain is a function that may change the credential cache, so it takes and returns it.
\<close>

type_synonym keychain =
  "resource \<Rightarrow> cachingKeychain option \<Rightarrow> authenticator result \<times> cachingKeychain option"

datatype 'h gcrOption = WithAuthFromKeychain keychain | WithContext | Reuse 'h

record name_Repository =
  repo_RegistryStr :: string
  repo_RepositoryStr :: string

record name_Reference =
  ref_String :: string
  ref_Context :: name_Repository
  ref_Identifier :: string
  ref_isDigest :: bool

record v1_Descriptor =
  desc_ArtifactType :: string
  desc_Digest :: string

record gcr_Descriptor =
  gcr_Digest :: string
  gcr_Manifest :: string

record oras_Reference =
  oras_Registry :: string
  oras_Repository :: string
  oras_Ref :: string

record auth_Credential =
  cred_Username :: string
  cred_Password :: string
  cred_RefreshToken :: string
  cred_AccessToken :: string

record auth_Client =
  client_Registry :: string
  client_Credential :: auth_Credential
  client_ClientID :: string
  client_UserAgent :: string

record 'h oras_repo =
  repo_base :: 'h
  repo_Client :: "auth_Client option"

record VerifyOptions =
  ArtifactReference :: string
  MaxSignatureAttempts :: int
  PluginConfig :: "string gomap"

text \<open>
  A registry call authenticates with the keychain among its options, so it may also change the
  credential cache.
\<close>

type_synonym 'a remote_call = "cachingKeychain option \<Rightarrow> ('a, cachingKeychain option) call"

record ('n, 'h) ext =
  getenv :: "string \<Rightarrow> string"
  order :: orders
  clock :: int
  image_String :: "Image \<Rightarrow> string"
  wildcard_Match :: "string \<Rightarrow> string \<Rightarrow> bool"
  DefaultKeychain :: keychain
  NewMultiKeychain :: "keychain list \<Rightarrow> keychain"
  NewFromPullSecrets :: "'h list \<Rightarrow> keychain result"
  NewPuller :: "'h gcrOption list \<Rightarrow> 'h result"
  name_ParseReference :: "string \<Rightarrow> name_Reference result"
  Context_Digest :: "name_Repository \<Rightarrow> string \<Rightarrow> name_Reference"
  gcr_Head :: "'h gcrOption list \<Rightarrow> name_Reference \<Rightarrow> v1_Descriptor remote_call"
  gcr_Get :: "'h gcrOption list \<Rightarrow> name_Reference \<Rightarrow> gcr_Descriptor remote_call"
  gcr_Referrers :: "'h gcrOption list \<Rightarrow> name_Reference \<Rightarrow> (v1_Descriptor list result) remote_call"
  gcr_Layer :: "'h gcrOption list \<Rightarrow> name_Reference \<Rightarrow> (string result) remote_call"
  unmarshal_Layers :: "string \<Rightarrow> string list result"
  fmt_Manifest :: "string \<Rightarrow> string"
  decode_payload :: "string \<Rightarrow> 'h result"
  AddJSONObject :: "'h \<Rightarrow> 'h result"
  EvaluateAnyAllConditions :: "'h \<Rightarrow> AnyAllConditions list \<Rightarrow> (bool \<times> string) result"
  registry_ParseReference :: "string \<Rightarrow> oras_Reference result"
  oras_String :: "oras_Reference \<Rightarrow> string"
  NewRepository :: "string \<Rightarrow> 'h result"
  notation_Verify :: "bool \<Rightarrow> 'n \<Rightarrow> 'h oras_repo \<Rightarrow> VerifyOptions \<Rightarrow> (string \<times> string option list) result"

text \<open>
  The verifier (\<^verbatim>\<open>internal/verifier/client.go\<close>): its configuration, and the parts that are built by
  \<^verbatim>\<open>newVerifier\<close>. A lister that was not created is nil.
\<close>

record verifier_conf =
  imagePullSecrets :: string
  insecureRegistry :: bool
  pluginConfigMap :: string
  maxSignatureAttempts :: int
  maxCacheSize :: int
  v_useCache :: bool
  reviewToken :: bool
  tokenReviewAudiences :: "string list"
  maxCacheTTL :: int
  debug :: bool
  allowedUsers :: "string list"

record ('n, 'h, 'r) verifier = verifier_conf +
  notationVerifierFactory :: "'n notationverifierfactory"
  secretLister :: "(string \<Rightarrow> 'h result) option"
  configMapLister :: "(string \<Rightarrow> string gomap result) option"
  providerKeychain :: "cachingKeychain option"
  v_cache :: "'r cache"
  stopCh_closed :: bool

record ('n, 'h, 'r) requestVerifier =
  rv_verifier :: "('n, 'h, 'r) verifier"
  notationVerifier :: 'n
  rv_trustPolicy :: string
  rv_keychain :: keychain
  rv_remoteOpts :: "'h gcrOption list"
  rv_pluginConfig :: "string gomap"

abbreviation rv_cache :: "('n, 'h, 'r) requestVerifier \<Rightarrow> 'r cache" where
  "rv_cache rv \<equiv> v_cache (rv_verifier rv)"

definition set_cache ::
    "('n, 'h, 'r) requestVerifier \<Rightarrow> 'r cache \<Rightarrow> ('n, 'h, 'r) requestVerifier" where
  "set_cache rv c = rv\<lparr> rv_verifier := (rv_verifier rv)\<lparr> v_cache := c \<rparr> \<rparr>"

definition set_provider ::
    "('n, 'h, 'r) requestVerifier \<Rightarrow> cachingKeychain option \<Rightarrow> ('n, 'h, 'r) requestVerifier" where
  "set_provider rv k = rv\<lparr> rv_verifier := (rv_verifier rv)\<lparr> providerKeychain := k \<rparr> \<rparr>"

text \<open>
  What no step of a request changes: everything but the cache and the credential cache.
\<close>

definition same_request ::
    "('n, 'h, 'r) requestVerifier \<Rightarrow> ('n, 'h, 'r) requestVerifier \<Rightarrow> bool" where
  "same_request rv rv' \<longleftrightarrow>
     set_cache (set_provider rv' None) (v_cache (rv_verifier rv)) =
     set_cache (set_provider rv None) (v_cache (rv_verifier rv))"

text \<open>A call into the registry library, on behalf of a request.\<close>

definition remote ::
    "'a remote_call \<Rightarrow> ('n, 'h, 'r) requestVerifier \<Rightarrow> ('a, ('n, 'h, 'r) requestVerifier) call" where
  "remote call rv =
     (case call (providerKeychain (rv_verifier rv)) of (r, k) \<Rightarrow> (r, set_provider rv k))"

lemma same_request_refl [simp]: "same_request rv rv"
  by (simp add: same_request_def)

lemma set_cache_frame [simp]:
  "rv_cache (set_cache rv c) = c" "rv_trustPolicy (set_cache rv c) = rv_trustPolicy rv"
  "notationVerifier (set_cache rv c) = notationVerifier rv" "rv_remoteOpts (set_cache rv c) = rv_remoteOpts rv"
  "rv_pluginConfig (set_cache rv c) = rv_pluginConfig rv" "rv_keychain (set_cache rv c) = rv_keychain rv"
  by (simp_all add: set_cache_def)

lemma set_provider_frame [simp]:
  "rv_cache (set_provider rv k) = rv_cache rv" "rv_trustPolicy (set_provider rv k) = rv_trustPolicy rv"
  "notationVerifier (set_provider rv k) = notationVerifier rv" "rv_remoteOpts (set_provider rv k) = rv_remoteOpts rv"
  "rv_pluginConfig (set_provider rv k) = rv_pluginConfig rv" "rv_keychain (set_provider rv k) = rv_keychain rv"
  by (simp_all add: set_provider_def)

lemma same_request_iff:
  "same_request rv rv' \<longleftrightarrow>
     (\<exists>c k. rv' = set_provider (set_cache rv c) k)"
proof
  assume "same_request rv rv'"
  then show "\<exists>c k. rv' = set_provider (set_cache rv c) k"
    by (cases rv; cases rv'; cases "rv_verifier rv"; cases "rv_verifier rv'")
      (auto simp: same_request_def set_cache_def set_provider_def
        intro!: exI [of _ "rv_cache rv'"] exI [of _ "providerKeychain (rv_verifier rv')"])
qed (auto simp: same_request_def set_cache_def set_provider_def)

lemma same_request_trans: "same_request rv rv' \<Longrightarrow> same_request rv' rv'' \<Longrightarrow> same_request rv rv''"
  by (auto simp: same_request_iff set_cache_def set_provider_def) blast

interpretation request: frame same_request
  by unfold_locales (auto intro: same_request_trans)

lemma same_request_set_cache [simp]: "same_request rv (set_cache rv c)"
  by (simp add: same_request_def set_cache_def set_provider_def)

lemma same_request_set_provider [simp]: "same_request rv (set_provider rv k)"
  by (simp add: same_request_def set_cache_def set_provider_def)

lemma same_request_remote [simp]: "same_request rv (snd (remote call rv))"
  by (simp add: remote_def split: prod.splits)

lemma rv_cache_remote [simp]: "rv_cache (snd (remote call rv)) = rv_cache rv"
  by (simp add: remote_def split: prod.splits)

lemma same_request_fields:
  "same_request rv rv' \<Longrightarrow> rv_trustPolicy rv' = rv_trustPolicy rv \<and> notationVerifier rv' = notationVerifier rv
     \<and> rv_remoteOpts rv' = rv_remoteOpts rv \<and> rv_pluginConfig rv' = rv_pluginConfig rv
     \<and> rv_keychain rv' = rv_keychain rv"
  by (auto simp: same_request_iff)

section \<open>A concrete environment\<close>

text \<open>
  One registry \<^verbatim>\<open>r\<close> with one repository \<^verbatim>\<open>app\<close>: its tag \<^verbatim>\<open>v1\<close> is the digest \<^verbatim>\<open>sha256:1\<close>, with one
  referrer \<^verbatim>\<open>sha256:2\<close> of type \<^verbatim>\<open>sbom\<close>. The verifier \<^verbatim>\<open>good\<close> accepts both digests, any other verifier
  rejects everything. The witnesses evaluate the model here.
\<close>

definition anonymous :: authenticator where
  "anonymous = \<lparr> isAnonymous = True, Authorization = Inr None \<rparr>"

definition demo_String :: "Image \<Rightarrow> string" where
  "demo_String img =
     img_Registry img @ ''/'' @ img_Path img
     @ (if img_Digest img = [] then '':'' @ img_Tag img else ''@'' @ img_Digest img)"

definition after_at :: "string \<Rightarrow> string" where
  "after_at s = tl (dropWhile (\<lambda>c. c \<noteq> CHR ''@'') s)"

definition demo_repo :: name_Repository where
  "demo_repo = \<lparr> repo_RegistryStr = ''r'', repo_RepositoryStr = ''app'' \<rparr>"

definition demo_ref :: "string \<Rightarrow> name_Reference" where
  "demo_ref s = \<lparr> ref_String = s, ref_Context = demo_repo, ref_Identifier = after_at s, ref_isDigest = CHR ''@'' \<in> set s \<rparr>"

definition demo_ext :: "(string, string) ext" where
  "demo_ext =
     \<lparr> getenv = (\<lambda>n. []),
       order = in_order,
       clock = 0,
       image_String = demo_String,
       wildcard_Match = (\<lambda>p s. p = ''*'' \<or> p = s),
       DefaultKeychain = (\<lambda>t k. (Inr anonymous, k)),
       NewMultiKeychain = hd,
       NewFromPullSecrets = (\<lambda>ss. Inr (\<lambda>t k. (Inr anonymous, k))),
       NewPuller = (\<lambda>opts. Inr ''puller''),
       name_ParseReference = (\<lambda>s. Inr (demo_ref s)),
       Context_Digest = (\<lambda>repo d. demo_ref (''r/app@'' @ d)),
       gcr_Head = (\<lambda>opts r k. (Inr \<lparr> desc_ArtifactType = [], desc_Digest = ''sha256:1'' \<rparr>, k)),
       gcr_Get = (\<lambda>opts r k. (Inr \<lparr> gcr_Digest = ''sha256:1'', gcr_Manifest = [] \<rparr>, k)),
       gcr_Referrers = (\<lambda>opts r k. (Inr (Inr [\<lparr> desc_ArtifactType = ''sbom'', desc_Digest = ''sha256:2'' \<rparr>]), k)),
       gcr_Layer = (\<lambda>opts r k. (Inr (Inr ''{}''), k)),
       unmarshal_Layers = (\<lambda>s. Inr [''sha256:3'']),
       fmt_Manifest = (\<lambda>s. s),
       decode_payload = Inr,
       AddJSONObject = Inr,
       EvaluateAnyAllConditions = (\<lambda>c conds. Inr (True, [])),
       registry_ParseReference =
         (\<lambda>s. Inr \<lparr> oras_Registry = ''r'', oras_Repository = ''app'',
                 oras_Ref = (if CHR ''@'' \<in> set s then after_at s else ''v1'') \<rparr>),
       oras_String =
         (\<lambda>r. oras_Registry r @ ''/'' @ oras_Repository r
              @ (if CHR '':'' \<in> set (oras_Ref r) then ''@'' else '':'') @ oras_Ref r),
       NewRepository = Inr,
       notation_Verify =
         (\<lambda>dbg n repo opts. if n = ''good'' then Inr (after_at (ArtifactReference opts), []) else Inl (Err ''signature'')) \<rparr>"

definition demo_verifier :: "string gomap \<Rightarrow> (string, string, (string \<times> cache_entry) list) verifier" where
  "demo_verifier vs =
     \<lparr> imagePullSecrets = [], insecureRegistry = False, pluginConfigMap = [], maxSignatureAttempts = 30,
       maxCacheSize = 1000, v_useCache = True, reviewToken = True, tokenReviewAudiences = [],
       maxCacheTTL = defaultTTL, debug = False, allowedUsers = [''kyverno''],
       notationVerifierFactory = \<lparr> verifiers = vs \<rparr>, secretLister = None, configMapLister = None,
       providerKeychain = None, v_cache = demo_cache True, stopCh_closed = False \<rparr>"

end
