(* ===== verification/Auth.thy ===== *)
theory Auth
  imports External
begin

text \<open>
  Registry credentials of a request (\<^verbatim>\<open>internal/verifier/auth.go\<close> and \<^verbatim>\<open>getAuthClient\<close> of
  \<^verbatim>\<open>verify.go\<close>): the docker configuration of the process, the configured image pull secrets and
  the cached provider keychain, tried in this order, and the oras client built from what they
  give.
\<close>

definition nil_dereference :: gerr where
  "nil_dereference = Panic ''invalid memory address or nil pointer dereference''"

text \<open>The provider keychain as an element of the keychain list: it works on the shared cache.\<close>

definition provider_keychain :: "('n, 'h) ext \<Rightarrow> keychain" where
  "provider_keychain ext target k =
     (case k of
        None \<Rightarrow> (Inl nil_dereference, None)
      | Some kc \<Rightarrow> (case Resolve (clock ext) kc target of (r, kc') \<Rightarrow> (r, Some kc')))"

fun getSecrets :: "(string \<Rightarrow> 'h result) option \<Rightarrow> string list \<Rightarrow> 'h list result" where
  "getSecrets lister [] = Inr []"
| "getSecrets lister (s # rest) =
     (let imagePullSecret = TrimSpace s
      in if imagePullSecret = [] then getSecrets lister rest
         else (case lister of
                 None \<Rightarrow> Inl nil_dereference
               | Some Get \<Rightarrow>
                   (case Get imagePullSecret of
                      Inl e \<Rightarrow> Inl (wrap (''failed to get image pull secret '' @ imagePullSecret) e)
                    | Inr secret \<Rightarrow>
                        (case getSecrets lister rest of
                           Inl e \<Rightarrow> Inl e
                         | Inr secrets \<Rightarrow> Inr (secret # secrets)))))"

definition getKeychainFromSecret ::
    "('n, 'h) ext \<Rightarrow> ('n, 'h, 'r) verifier \<Rightarrow> keychain result" where
  "getKeychainFromSecret ext v =
     (case getSecrets (secretLister v) (Split (imagePullSecrets v) (CHR '','')) of
        Inl e \<Rightarrow> Inl e
      | Inr secrets \<Rightarrow> NewFromPullSecrets ext secrets)"

definition getKeychain :: "('n, 'h) ext \<Rightarrow> ('n, 'h, 'r) verifier \<Rightarrow> keychain result" where
  "getKeychain ext v =
     (let provider = (if providerKeychain v \<noteq> None then [provider_keychain ext] else [])
      in if imagePullSecrets v \<noteq> []
         then (case getKeychainFromSecret ext v of
                 Inl e \<Rightarrow> Inl e
               | Inr secretKeychain \<Rightarrow>
                   Inr (NewMultiKeychain ext ([DefaultKeychain ext, secretKeychain] @ provider)))
         else Inr (NewMultiKeychain ext ([DefaultKeychain ext] @ provider)))"

definition imageResource :: "('n, 'h) ext \<Rightarrow> oras_Reference \<Rightarrow> resource" where
  "imageResource ext ref = \<lparr> res_String = oras_String ext ref, RegistryStr = oras_Registry ref \<rparr>"

definition getAuthConfigFromKeychain ::
    "('n, 'h) ext \<Rightarrow> keychain \<Rightarrow> oras_Reference \<Rightarrow> cachingKeychain option
       \<Rightarrow> (AuthConfig option, cachingKeychain option) call" where
  "getAuthConfigFromKeychain ext kc ref k =
     andThen (kc (imageResource ext ref) k)
       (\<lambda>a k'. (case Authorization a of
                  Inl e \<Rightarrow> (Inl (wrap (''failed to get auth config for '' @ oras_String ext ref) e), k')
                | Inr authConfig \<Rightarrow> (Inr authConfig, k')))"

definition client_of :: "string \<Rightarrow> AuthConfig \<Rightarrow> auth_Client" where
  "client_of reg authConfig =
     \<lparr> client_Registry = reg,
       client_Credential =
         \<lparr> cred_Username = Username authConfig, cred_Password = Password authConfig,
           cred_RefreshToken = IdentityToken authConfig, cred_AccessToken = RegistryToken authConfig \<rparr>,
       client_ClientID = ''notation'',
       client_UserAgent = ''kyverno.io'' \<rparr>"

definition getAuthClient ::
    "('n, 'h) ext \<Rightarrow> oras_Reference \<Rightarrow> ('n, 'h, 'r) requestVerifier
       \<Rightarrow> (auth_Client option, ('n, 'h, 'r) requestVerifier) call" where
  "getAuthClient ext ref rv =
     andThen (remote (getAuthConfigFromKeychain ext (rv_keychain rv) ref) rv)
       (\<lambda>authConfig rv'. (Inr (map_option (client_of (oras_Registry ref)) authConfig), rv'))"

lemma same_request_getAuthClient [simp]: "same_request rv (snd (getAuthClient ext ref rv))"
  by (auto simp: getAuthClient_def intro: request.frame_andThen)

section \<open>Which secrets are used\<close>

text \<open>The names in a comma-separated list: trimmed, without the empty ones, in order.\<close>

definition secret_names :: "string \<Rightarrow> string list" where
  "secret_names s = filter (\<lambda>n. n \<noteq> []) (map TrimSpace (Split s (CHR '','')))"

lemma getSecrets_Inr:
  "getSecrets (Some Get) ss = Inr secrets \<Longrightarrow>
     list_all2 (\<lambda>n secret. Get n = Inr secret) (filter (\<lambda>n. n \<noteq> []) (map TrimSpace ss)) secrets"
  by (induction ss arbitrary: secrets)
    (auto simp: Let_def split: sum.splits if_splits)

lemma getSecrets_Inl:
  "getSecrets (Some Get) ss = Inl e \<Longrightarrow>
     \<exists>n e0. n \<in> set (map TrimSpace ss) \<and> n \<noteq> [] \<and> Get n = Inl e0
       \<and> e = wrap (''failed to get image pull secret '' @ n) e0"
  by (induction ss) (auto simp: Let_def split: sum.splits if_splits)

text \<open>A verifier as \<^verbatim>\<open>newVerifier\<close> leaves it: the listers exist for what is configured.\<close>

definition listers_ready :: "('n, 'h, 'r) verifier \<Rightarrow> bool" where
  "listers_ready v \<longleftrightarrow>
     (imagePullSecrets v \<noteq> [] \<longrightarrow> secretLister v \<noteq> None)
     \<and> (pluginConfigMap v \<noteq> [] \<longrightarrow> configMapLister v \<noteq> None)"

text \<open>
  Image pull secrets are all or nothing: the keychain of a request is built from the docker
  configuration, then exactly the secrets named in the comma-separated setting (trimmed, empty
  names dropped, in order), then the provider keychain if there is one. If one of the named
  secrets cannot be read the whole request fails with an error naming that secret; no secret is
  ever left out silently.
\<close>

theorem getKeychain_secrets:
  assumes "listers_ready v"
  shows "case getKeychain ext v of
      Inr kc \<Rightarrow>
        \<exists>secretKeychains.
          kc = NewMultiKeychain ext ([DefaultKeychain ext] @ secretKeychains
                 @ (if providerKeychain v = None then [] else [provider_keychain ext]))
          \<and> (if imagePullSecrets v = [] then secretKeychains = []
             else \<exists>Get secrets sk. secretLister v = Some Get \<and> secretKeychains = [sk]
               \<and> list_all2 (\<lambda>n secret. Get n = Inr secret) (secret_names (imagePullSecrets v)) secrets
               \<and> NewFromPullSecrets ext secrets = Inr sk)
    | Inl e \<Rightarrow>
        imagePullSecrets v \<noteq> [] \<and>
        (\<exists>Get. secretLister v = Some Get \<and>
          ((\<exists>n e0. n \<in> set (secret_names (imagePullSecrets v)) \<and> Get n = Inl e0
              \<and> e = wrap (''failed to get image pull secret '' @ n) e0)
           \<or> (\<exists>secrets. list_all2 (\<lambda>n secret. Get n = Inr secret) (secret_names (imagePullSecrets v)) secrets
                \<and> NewFromPullSecrets ext secrets = Inl e)))"
proof (cases "imagePullSecrets v = []")
  case True
  then show ?thesis by (auto simp: getKeychain_def Let_def)
next
  case False
  with assms obtain Get where Get: "secretLister v = Some Get"
    by (auto simp: listers_ready_def)
  show ?thesis
  proof (cases "getSecrets (Some Get) (Split (imagePullSecrets v) (CHR '',''))")
    case (Inl e)
    with getSecrets_Inl [OF Inl] False Get show ?thesis
      by (fastforce simp: getKeychain_def getKeychainFromSecret_def Let_def secret_names_def)
  next
    case (Inr secrets)
    then have all: "list_all2 (\<lambda>n secret. Get n = Inr secret) (secret_names (imagePullSecrets v)) secrets"
      by (simp add: getSecrets_Inr secret_names_def)
    moreover have "getKeychainFromSecret ext v = NewFromPullSecrets ext secrets"
      by (simp add: getKeychainFromSecret_def Get Inr)
    ultimately show ?thesis
    proof (cases "NewFromPullSecrets ext secrets")
      case sk: (Inr sk)
      have "getKeychain ext v = Inr (NewMultiKeychain ext ([DefaultKeychain ext] @ [sk]
          @ (if providerKeychain v = None then [] else [provider_keychain ext])))"
        using False \<open>getKeychainFromSecret ext v = _\<close> sk by (simp add: getKeychain_def)
      then show ?thesis
        using False Get sk all by (simp only: sum.case) (rule exI [of _ "[sk]"], auto)
    qed (auto simp: False Get getKeychain_def)
  qed
qed

definition secret_verifier :: "(string, string, (string \<times> cache_entry) list) verifier" where
  "secret_verifier =
     (demo_verifier [])\<lparr> imagePullSecrets := ''a, b,'',
       secretLister := Some (\<lambda>n. if n = ''a'' then Inr ''A'' else Inl (Err ''not found'')) \<rparr>"

theorem getKeychain_secrets_witness:
  "listers_ready secret_verifier \<and> secret_names (imagePullSecrets secret_verifier) = [''a'', ''b'']
   \<and> getKeychain demo_ext secret_verifier = Inl (Err ''failed to get image pull secret b: not found'')"
proof -
  have r: "listers_ready secret_verifier"
    by (simp add: listers_ready_def secret_verifier_def demo_verifier_def)
  have n: "secret_names (imagePullSecrets secret_verifier) = [''a'', ''b'']"
    by (simp add: secret_verifier_def demo_verifier_def secret_names_def trim_eval)
  have l: "imagePullSecrets secret_verifier \<noteq> []"
      "secretLister secret_verifier = Some (\<lambda>n. if n = ''a'' then Inr ''A'' else Inl (Err ''not found''))"
    by (simp_all add: secret_verifier_def demo_verifier_def)
  have p: "NewFromPullSecrets demo_ext ss \<noteq> Inl e" for ss e
    by (simp add: demo_ext_def)
  show ?thesis
    using getKeychain_secrets [OF r, of demo_ext]
    by (cases "getKeychain demo_ext secret_verifier") (auto simp: r n l p list_all2_Cons1 split: if_splits)
qed

end
