(* ===== verification/References.thy ===== *)
theory References
  imports Auth
begin

text \<open>
  References and signatures (\<^verbatim>\<open>internal/verifier/verify.go\<close>): how an image string becomes a
  repository and a digest reference, the options of registry and plugin calls, and
  \<^verbatim>\<open>verifyReferences\<close>, the one place that asks notation for a verdict.
\<close>

definition getTrustPolicy :: "(string \<Rightarrow> string) \<Rightarrow> VerificationRequest \<Rightarrow> string" where
  "getTrustPolicy Getenv req =
     (let trustPolicy = TrustPolicy req
      in if length trustPolicy = 0 then Getenv EnvDefaultTrustPolicy else trustPolicy)"

definition isDigestReference :: "string \<Rightarrow> bool" where
  "isDigestReference reference =
     (let parts = SplitN2 reference (CHR ''/'')
      in if length parts = 1 then False
         else IndexByte (parts ! 1) (CHR ''@'') \<noteq> -1)"

definition getReference :: "string \<Rightarrow> name_Reference \<Rightarrow> string" where
  "getReference digest ref =
     (if length digest = 0 then ref_String ref
      else repo_RegistryStr (ref_Context ref) @ ''/'' @ repo_RepositoryStr (ref_Context ref) @ ''@'' @ digest)"

definition getRemoteOpts :: "('n, 'h) ext \<Rightarrow> keychain \<Rightarrow> 'h gcrOption list result" where
  "getRemoteOpts ext kc =
     (let remoteOpts = [WithAuthFromKeychain kc, WithContext]
      in (case NewPuller ext remoteOpts of
            Inl e \<Rightarrow> Inl e
          | Inr puller \<Rightarrow> Inr (remoteOpts @ [Reuse puller])))"

definition copyConfig :: "(string \<times> string) list \<Rightarrow> string gomap \<Rightarrow> string gomap" where
  "copyConfig kvs m = fold (\<lambda>(k, val) pluginConfig. map_set pluginConfig k val) kvs m"

definition getPluginConfig :: "('n, 'h) ext \<Rightarrow> ('n, 'h, 'r) verifier \<Rightarrow> string gomap result" where
  "getPluginConfig ext v =
     (let finish = (\<lambda>pluginConfig.
            Inr (if debug v then map_set pluginConfig ''debug'' ''true'' else pluginConfig))
      in if pluginConfigMap v \<noteq> []
         then (case configMapLister v of
                 None \<Rightarrow> Inl nil_dereference
               | Some Get \<Rightarrow>
                   (case Get (pluginConfigMap v) of
                      Inl e \<Rightarrow> Inl (wrap (''failed to fetch plugin configmap '' @ pluginConfigMap v) e)
                    | Inr data \<Rightarrow> finish (copyConfig (range_map (order ext) AtConfig data) [])))
         else finish [])"

definition getDigest ::
    "('n, 'h) ext \<Rightarrow> string \<Rightarrow> ('n, 'h, 'r) requestVerifier \<Rightarrow> (string, ('n, 'h, 'r) requestVerifier) call" where
  "getDigest ext imageRef rv =
     (case name_ParseReference ext imageRef of
        Inl e \<Rightarrow> (Inl (wrap (''failed to parse image reference: '' @ imageRef @ '', error'') e), rv)
      | Inr parsedRef \<Rightarrow>
          andThen (wrapErr (''failed to fetch image reference: '' @ imageRef @ '', error'')
              (remote (gcr_Get ext (rv_remoteOpts rv) parsedRef) rv))
            (\<lambda>desc rv'.
               if ref_isDigest parsedRef \<and> ref_Identifier parsedRef \<noteq> gcr_Digest desc
               then (Inl (Err (''digest mismatch, expected: '' @ ref_Identifier parsedRef
                        @ '', received: '' @ gcr_Digest desc)), rv')
               else (Inr (gcr_Digest desc), rv')))"

definition resolveDigest ::
    "('n, 'h) ext \<Rightarrow> oras_Reference \<Rightarrow> ('n, 'h, 'r) requestVerifier
       \<Rightarrow> (oras_Reference, ('n, 'h, 'r) requestVerifier) call" where
  "resolveDigest ext ref rv =
     (if isDigestReference (oras_String ext ref) then (Inr ref, rv)
      else andThen (getDigest ext (oras_String ext ref) rv)
             (\<lambda>digest rv'. (Inr (ref\<lparr> oras_Ref := digest \<rparr>), rv')))"

text \<open>The first lines of \<^verbatim>\<open>parseReferenceAndResolveDigest\<close>: default registry and default tag.\<close>

definition normalizeReference :: "string \<Rightarrow> string" where
  "normalizeReference ref0 =
     (let ref = (if CHR ''/'' \<notin> set ref0 then ''docker.io/library/'' @ ref0 else ref0)
      in if \<not> ContainsAny (AfterLast ref (CHR ''/'')) '':@'' then ref @ '':latest'' else ref)"

definition parseReferenceAndResolveDigest ::
    "('n, 'h) ext \<Rightarrow> string \<Rightarrow> ('n, 'h, 'r) requestVerifier
       \<Rightarrow> ('h oras_repo \<times> oras_Reference, ('n, 'h, 'r) requestVerifier) call" where
  "parseReferenceAndResolveDigest ext ref0 rv =
     (let ref = normalizeReference ref0
      in (case registry_ParseReference ext ref of
            Inl e \<Rightarrow> (Inl (wrap (''failed to parse reference '' @ ref) e), rv)
          | Inr parsedRef \<Rightarrow>
              andThen (wrapErr ''failed to retrieve credentials'' (getAuthClient ext parsedRef rv))
                (\<lambda>authClient rv1.
                   (case NewRepository ext ref of
                      Inl e \<Rightarrow> (Inl (wrap ''failed to initialize repository'' e), rv1)
                    | Inr base \<Rightarrow>
                        andThen (wrapErr ''failed to resolve digest'' (resolveDigest ext parsedRef rv1))
                          (\<lambda>resolved rv2.
                             (Inr (\<lparr> repo_base = base, repo_Client = authClient \<rparr>, resolved), rv2))))))"

text \<open>\<^verbatim>\<open>errors.Join\<close>: the texts, one per line.\<close>

fun errors_Join :: "string list \<Rightarrow> string" where
  "errors_Join [] = []"
| "errors_Join [e] = e"
| "errors_Join (e # es) = e @ [CHR 0x0A] @ errors_Join es"

definition outcome_errors :: "string option list \<Rightarrow> string list" where
  "outcome_errors outcomes = List.map_filter (\<lambda>outcome. outcome) outcomes"

definition verifyReferences ::
    "('n, 'h) ext \<Rightarrow> string \<Rightarrow> ('n, 'h, 'r) requestVerifier \<Rightarrow> (string, ('n, 'h, 'r) requestVerifier) call" where
  "verifyReferences ext img rv =
     andThen (wrapErr ''failed to resolve digest'' (parseReferenceAndResolveDigest ext img rv))
       (\<lambda>(repo, reference) rv'.
          (let opts = \<lparr> ArtifactReference = oras_String ext reference,
                        MaxSignatureAttempts = maxSignatureAttempts (rv_verifier rv'),
                        PluginConfig = rv_pluginConfig rv' \<rparr>
           in (case notation_Verify ext (debug (rv_verifier rv')) (notationVerifier rv') repo opts of
                 Inl e \<Rightarrow> (Inl e, rv')
               | Inr (desc, outcomes) \<Rightarrow>
                   if length (outcome_errors outcomes) > 0
                   then (Inl (Err (errors_Join (outcome_errors outcomes))), rv')
                   else (Inr desc, rv'))))"

text \<open>The two matching routines; the second builds the set of referrer types as a map.\<close>

fun matchImageReferences :: "(string \<Rightarrow> string \<Rightarrow> bool) \<Rightarrow> string list \<Rightarrow> string \<Rightarrow> bool" where
  "matchImageReferences wm imageReferences img =
     (if length imageReferences = 0 then True
      else list_ex (\<lambda>imageRef. wm imageRef img) imageReferences)"

definition referrer_types :: "v1_Descriptor list \<Rightarrow> bool gomap" where
  "referrer_types referrers =
     fold (\<lambda>referrer refList. map_set refList (desc_ArtifactType referrer) True) referrers []"

fun missing_attestation :: "bool gomap \<Rightarrow> string list \<Rightarrow> string option" where
  "missing_attestation refList [] = None"
| "missing_attestation refList (att # atts) =
     (if map_of refList att = None then Some att else missing_attestation refList atts)"

definition matchAttestations ::
    "orders \<Rightarrow> string \<Rightarrow> AttestationList \<Rightarrow> v1_Descriptor list \<Rightarrow> unit result" where
  "matchAttestations ord img attestationList referrers =
     (case missing_attestation (referrer_types referrers) (map fst (range_map ord AtMatch attestationList)) of
        Some att \<Rightarrow> Inl (Err (''failed to find attestation '' @ att @ '' in image '' @ img))
      | None \<Rightarrow> Inr ())"

section \<open>Frames and shapes\<close>

text \<open>Everything in this theory leaves a request alone but for the credential cache.\<close>

definition quiet :: "('n, 'h, 'r) requestVerifier \<Rightarrow> ('n, 'h, 'r) requestVerifier \<Rightarrow> bool" where
  "quiet rv rv' \<longleftrightarrow> (\<exists>k. rv' = set_provider rv k)"

interpretation quiet: frame quiet
proof
  show "quiet s s" for s :: "('n, 'h, 'r) requestVerifier"
    unfolding quiet_def by (rule exI [of _ "providerKeychain (rv_verifier s)"]) (simp add: set_provider_def)
qed (auto simp: quiet_def set_provider_def)

lemma quiet_refl [simp]: "quiet rv rv"
  by (rule quiet.frame_refl)

lemma quiet_remote [simp]: "quiet rv (snd (remote call rv))"
  by (auto simp: remote_def quiet_def split: prod.splits)

lemma quiet_getAuthClient [simp]: "quiet rv (snd (getAuthClient ext ref rv))"
  by (auto simp: getAuthClient_def intro: quiet.frame_andThen)

lemma quiet_getDigest [simp]: "quiet rv (snd (getDigest ext ref rv))"
  by (auto simp: getDigest_def intro!: quiet.frame_andThen split: sum.splits)

lemma quiet_resolveDigest [simp]: "quiet rv (snd (resolveDigest ext ref rv))"
  by (auto simp: resolveDigest_def intro: quiet.frame_andThen)

lemma quiet_parse [simp]: "quiet rv (snd (parseReferenceAndResolveDigest ext img rv))"
  by (auto simp: parseReferenceAndResolveDigest_def Let_def intro!: quiet.frame_andThen split: sum.splits)

lemma quiet_verifyReferences [simp]: "quiet rv (snd (verifyReferences ext img rv))"
  by (auto simp: verifyReferences_def Let_def intro!: quiet.frame_andThen split: sum.splits)

lemma quietD:
  "quiet rv rv' \<Longrightarrow> rv_cache rv' = rv_cache rv \<and> same_request rv rv'
     \<and> rv_trustPolicy rv' = rv_trustPolicy rv \<and> notationVerifier rv' = notationVerifier rv
     \<and> rv_remoteOpts rv' = rv_remoteOpts rv \<and> rv_pluginConfig rv' = rv_pluginConfig rv"
  by (auto simp: quiet_def)

lemma outcome_errors_Nil [simp]: "outcome_errors outs = [] \<longleftrightarrow> set outs \<subseteq> {None}"
  by (induction outs) (auto simp: outcome_errors_def List.map_filter_simps split: option.splits)

section \<open>What a successful verification rests on\<close>

text \<open>The registry answered that \<open>s\<close> has digest \<open>d\<close>.\<close>

definition served :: "('n, 'h) ext \<Rightarrow> 'h gcrOption list \<Rightarrow> string \<Rightarrow> string \<Rightarrow> bool" where
  "served ext opts s d \<longleftrightarrow>
     (\<exists>r k desc. name_ParseReference ext s = Inr r \<and> fst (gcr_Get ext opts r k) = Inr desc
        \<and> d = gcr_Digest desc \<and> (ref_isDigest r \<longrightarrow> ref_Identifier r = d))"

text \<open>The digest reference handed to notation for the parsed reference \<open>pref\<close>: itself if it
  already is one, otherwise the same repository at the digest the registry served.\<close>

definition resolved :: "('n, 'h) ext \<Rightarrow> 'h gcrOption list \<Rightarrow> oras_Reference \<Rightarrow> oras_Reference \<Rightarrow> bool" where
  "resolved ext opts pref ref \<longleftrightarrow>
     (if isDigestReference (oras_String ext pref) then ref = pref
      else \<exists>d. served ext opts (oras_String ext pref) d \<and> ref = pref\<lparr> oras_Ref := d \<rparr>)"

text \<open>Notation accepted image \<open>img\<close> with verifier \<open>nv\<close>, without any failed signature outcome, and
  gave digest \<open>d\<close> (empty when the trust policy skips verification).\<close>

definition verified_as :: "('n, 'h) ext \<Rightarrow> 'h gcrOption list \<Rightarrow> 'n \<Rightarrow> string \<Rightarrow> string \<Rightarrow> bool" where
  "verified_as ext opts nv img d \<longleftrightarrow>
     (\<exists>pref ref dbg repo vopts outcomes.
        registry_ParseReference ext (normalizeReference img) = Inr pref
        \<and> resolved ext opts pref ref
        \<and> NewRepository ext (normalizeReference img) = Inr (repo_base repo)
        \<and> ArtifactReference vopts = oras_String ext ref
        \<and> notation_Verify ext dbg nv repo vopts = Inr (d, outcomes) \<and> set outcomes \<subseteq> {None})"

lemma remote_ok:
  "remote call rv = (Inr x, rv') \<Longrightarrow> fst (call (providerKeychain (rv_verifier rv))) = Inr x"
  by (auto simp: remote_def split: prod.splits)

lemma getDigest_ok:
  assumes "getDigest ext s rv = (Inr d, rv')"
  shows "served ext (rv_remoteOpts rv) s d"
  using assms
  by (auto simp: getDigest_def served_def andThen_ok_iff split: sum.splits if_splits dest!: remote_ok)

lemma resolveDigest_ok:
  "resolveDigest ext pref rv = (Inr ref, rv') \<Longrightarrow> resolved ext (rv_remoteOpts rv) pref ref"
  by (auto simp: resolveDigest_def resolved_def andThen_ok_iff split: if_splits dest!: getDigest_ok)

lemma parse_ok:
  assumes "parseReferenceAndResolveDigest ext img rv = (Inr (repo, ref), rv')"
  shows "\<exists>pref. registry_ParseReference ext (normalizeReference img) = Inr pref
    \<and> resolved ext (rv_remoteOpts rv) pref ref \<and> NewRepository ext (normalizeReference img) = Inr (repo_base repo)"
proof -
  from assms obtain pref client rv1 where p: "registry_ParseReference ext (normalizeReference img) = Inr pref"
    and c: "getAuthClient ext pref rv = (Inr client, rv1)"
    and n: "NewRepository ext (normalizeReference img) = Inr (repo_base repo)"
    and r: "resolveDigest ext pref rv1 = (Inr ref, rv')"
    by (cases "registry_ParseReference ext (normalizeReference img)"; cases "NewRepository ext (normalizeReference img)")
      (auto simp: parseReferenceAndResolveDigest_def andThen_ok_iff)
  from quiet_getAuthClient [of rv ext pref] have "rv_remoteOpts rv1 = rv_remoteOpts rv"
    by (simp add: c quietD)
  with resolveDigest_ok [OF r] p n show ?thesis by auto
qed

lemma verifyReferences_ok:
  assumes "verifyReferences ext img rv = (Inr d, rv')"
  shows "verified_as ext (rv_remoteOpts rv) (notationVerifier rv) img d \<and> quiet rv rv'"
proof -
  from assms obtain repo ref rv1 where r: "parseReferenceAndResolveDigest ext img rv = (Inr (repo, ref), rv1)"
    by (auto simp: verifyReferences_def andThen_ok_iff)
  from quiet_parse [of rv ext img] have "notationVerifier rv1 = notationVerifier rv"
    by (simp add: r quietD)
  with assms r obtain outcomes where "notation_Verify ext (debug (rv_verifier rv1)) (notationVerifier rv) repo
      \<lparr> ArtifactReference = oras_String ext ref, MaxSignatureAttempts = maxSignatureAttempts (rv_verifier rv1),
        PluginConfig = rv_pluginConfig rv1 \<rparr> = Inr (d, outcomes)" "set outcomes \<subseteq> {None}"
    by (auto simp: verifyReferences_def Let_def split: sum.split_asm if_split_asm)
  moreover have "ArtifactReference \<lparr> ArtifactReference = oras_String ext ref, MaxSignatureAttempts = maxSignatureAttempts (rv_verifier rv1),
        PluginConfig = rv_pluginConfig rv1 \<rparr> = oras_String ext ref" by simp
  ultimately have "verified_as ext (rv_remoteOpts rv) (notationVerifier rv) img d"
    using parse_ok [OF r] unfolding verified_as_def by blast
  with quiet_verifyReferences [of rv ext img] assms show ?thesis by simp
qed

section \<open>Properties\<close>

lemma ContainsAny_latest: "ContainsAny (AfterLast (s @ '':latest'') (CHR ''/'')) '':@''"
proof (cases "CHR ''/'' \<in> set s")
  case True
  then obtain a b where "s = a @ CHR ''/'' # b" "CHR ''/'' \<notin> set b"
    using split_last_byte by metis
  then show ?thesis
    using AfterLast_append [of "CHR ''/''" "b @ '':latest''" a] by (simp add: ContainsAny_iff)
next
  case False
  then show ?thesis
    using AfterLast_absent [of "CHR ''/''" "s @ '':latest''"] by (simp add: ContainsAny_iff)
qed

text \<open>
  C40. Reference normalisation is complete and stable: the reference that is parsed always has a
  registry or repository path and a tag or digest in its last path element (so a port number in
  the registry is never taken for a tag), a reference that has both is used exactly as given,
  and normalising twice changes nothing more. The given reference is always part of the result,
  and only the default registry and the default tag are ever added.
\<close>

theorem normalizeReference_complete:
  "CHR ''/'' \<in> set (normalizeReference ref)
   \<and> ContainsAny (AfterLast (normalizeReference ref) (CHR ''/'')) '':@''
   \<and> normalizeReference (normalizeReference ref) = normalizeReference ref
   \<and> (CHR ''/'' \<in> set ref \<and> ContainsAny (AfterLast ref (CHR ''/'')) '':@'' \<longrightarrow> normalizeReference ref = ref)
   \<and> (\<exists>pre suf. normalizeReference ref = pre @ ref @ suf
        \<and> pre \<in> {[], ''docker.io/library/''} \<and> suf \<in> {[], '':latest''})"
proof -
  have slash: "CHR ''/'' \<in> set (normalizeReference ref)"
    by (auto simp: normalizeReference_def Let_def)
  have tag: "ContainsAny (AfterLast (normalizeReference ref) (CHR ''/'')) '':@''"
    using ContainsAny_latest [of ref] ContainsAny_latest [of "''docker.io/library/'' @ ref"]
    by (auto simp: normalizeReference_def Let_def)
  have same: "CHR ''/'' \<in> set r \<Longrightarrow> ContainsAny (AfterLast r (CHR ''/'')) '':@'' \<Longrightarrow> normalizeReference r = r" for r
    by (simp add: normalizeReference_def)
  have "\<exists>pre suf. normalizeReference ref = pre @ ref @ suf
      \<and> pre \<in> {[], ''docker.io/library/''} \<and> suf \<in> {[], '':latest''}"
    by (rule exI [of _ "if CHR ''/'' \<in> set ref then [] else ''docker.io/library/''"],
        rule exI [of _ "drop (length (if CHR ''/'' \<in> set ref then [] else ''docker.io/library/'') + length ref) (normalizeReference ref)"])
      (auto simp: normalizeReference_def Let_def)
  with slash tag same same [OF slash tag] show ?thesis by blast
qed

theorem normalizeReference_complete_witness:
  "normalizeReference ''r:5000/app'' = ''r:5000/app:latest'' \<and> normalizeReference ''nginx'' = ''docker.io/library/nginx:latest''
   \<and> normalizeReference ''r/app@sha256:1'' = ''r/app@sha256:1''"
proof -
  have "CHR ''/'' \<in> set ''r/app@sha256:1'' \<and> ContainsAny (AfterLast ''r/app@sha256:1'' (CHR ''/'')) '':@''"
    by (simp add: ContainsAny_iff AfterLast_def LastIndexByte_def)
  with normalizeReference_complete [of "''r/app@sha256:1''"] show ?thesis
    by (simp add: normalizeReference_def ContainsAny_iff AfterLast_def LastIndexByte_def)
qed

text \<open>
  What oras documents of \<^verbatim>\<open>registry.Reference\<close>, for whatever counts as a digest: a reference to a
  digest in a repository is printed with an \<^verbatim>\<open>@\<close> after the repository (a reference without a
  repository is printed as its registry alone), and \<^verbatim>\<open>ParseReference\<close> refuses a reference without a
  repository. Digests the registry library returns are digests.
\<close>

definition prints_digests :: "('n, 'h) ext \<Rightarrow> (string \<Rightarrow> bool) \<Rightarrow> bool" where
  "prints_digests ext isDigest \<longleftrightarrow>
     (\<forall>r. oras_Repository r \<noteq> [] \<longrightarrow> isDigest (oras_Ref r) \<longrightarrow>
        oras_String ext r = oras_Registry r @ ''/'' @ oras_Repository r @ ''@'' @ oras_Ref r)
     \<and> (\<forall>s r. registry_ParseReference ext s = Inr r \<longrightarrow> oras_Repository r \<noteq> [])
     \<and> (\<forall>opts r k desc. fst (gcr_Get ext opts r k) = Inr desc \<longrightarrow> isDigest (gcr_Digest desc))"

text \<open>The questions about the image reference \<open>img\<close> that name a digest: about a reference with a
  digest in the registry and the repository \<open>img\<close> names.\<close>

definition about_digest :: "('n, 'h) ext \<Rightarrow> string \<Rightarrow> string \<Rightarrow> bool" where
  "about_digest ext img asked \<longleftrightarrow> isDigestReference asked
     \<and> (\<exists>pref ref. registry_ParseReference ext (normalizeReference img) = Inr pref
          \<and> oras_Registry ref = oras_Registry pref \<and> oras_Repository ref = oras_Repository pref
          \<and> asked = oras_String ext ref)"

lemma isDigestReference_iff:
  "isDigestReference s \<longleftrightarrow> (\<exists>a b. s = a @ CHR ''/'' # b \<and> CHR ''/'' \<notin> set a \<and> CHR ''@'' \<in> set b)"
proof (cases "CHR ''/'' \<in> set s")
  case True
  then obtain a b where ab: "s = a @ CHR ''/'' # b" "CHR ''/'' \<notin> set a"
    by (metis split_list_first)
  then have "SplitN2 s (CHR ''/'') = [a, b]"
    by (simp add: SplitN2_def takeWhile_append dropWhile_append)
  then have "isDigestReference s \<longleftrightarrow> CHR ''@'' \<in> set b"
    by (simp add: isDigestReference_def IndexByte_eq_minus_one)
  moreover have "a' = a \<and> b' = b" if "s = a' @ CHR ''/'' # b'" "CHR ''/'' \<notin> set a'" for a' b'
    using split_first_unique [of "CHR ''/''" a' a b' b] that ab by simp
  ultimately show ?thesis
    using ab by blast
next
  case False
  then show ?thesis by (auto simp: isDigestReference_def SplitN2_def)
qed

lemma digest_reference_shape: "isDigestReference (reg @ ''/'' @ repo @ ''@'' @ d)"
proof (cases "CHR ''/'' \<in> set reg")
  case True
  then obtain a b where "reg = a @ CHR ''/'' # b" "CHR ''/'' \<notin> set a"
    by (metis split_list_first)
  then show ?thesis
    unfolding isDigestReference_iff
    by (intro exI [of _ a] exI [of _ "b @ ''/'' @ repo @ ''@'' @ d"]) simp
next
  case False
  then show ?thesis
    unfolding isDigestReference_iff
    by (intro exI [of _ reg] exI [of _ "repo @ ''@'' @ d"]) simp
qed

lemma resolved_digest:
  assumes "prints_digests ext isDigest" and "registry_ParseReference ext img = Inr pref" and "resolved ext opts pref ref"
  shows "isDigestReference (oras_String ext ref) \<and> oras_Registry ref = oras_Registry pref
      \<and> oras_Repository ref = oras_Repository pref
      \<and> (if isDigestReference (oras_String ext pref) then ref = pref
         else served ext opts (oras_String ext pref) (oras_Ref ref))"
proof (cases "isDigestReference (oras_String ext pref)")
  case True
  with assms(3) show ?thesis by (simp add: resolved_def)
next
  case False
  with assms(3) obtain d where d: "served ext opts (oras_String ext pref) d" "ref = pref\<lparr> oras_Ref := d \<rparr>"
    by (auto simp: resolved_def)
  from d(1) assms(1) have "isDigest (oras_Ref ref)"
    by (auto simp: served_def prints_digests_def d(2))
  moreover have "oras_Repository ref \<noteq> []"
    using assms(1,2) d(2) by (auto simp: prints_digests_def)
  ultimately have "oras_String ext ref = oras_Registry ref @ ''/'' @ oras_Repository ref @ ''@'' @ oras_Ref ref"
    using assms(1) by (simp add: prints_digests_def)
  with digest_reference_shape [of "oras_Registry ref" "oras_Repository ref" "oras_Ref ref"] False d show ?thesis by simp
qed

text \<open>Everything before the question to notation is done without notation.\<close>

lemma getAuthClient_without_notation:
  "getAuthClient (ext\<lparr> notation_Verify := f \<rparr>) ref rv = getAuthClient ext ref rv"
proof -
  have "getAuthConfigFromKeychain (ext\<lparr> notation_Verify := f \<rparr>) = getAuthConfigFromKeychain ext"
    by (intro ext) (simp add: getAuthConfigFromKeychain_def imageResource_def cong del: sum.case_cong_weak)
  then show ?thesis by (simp add: getAuthClient_def)
qed

lemma getDigest_without_notation: "getDigest (ext\<lparr> notation_Verify := f \<rparr>) s rv = getDigest ext s rv"
  by (simp add: getDigest_def cong del: sum.case_cong_weak)

lemma parse_without_notation:
  "parseReferenceAndResolveDigest (ext\<lparr> notation_Verify := f \<rparr>) img rv = parseReferenceAndResolveDigest ext img rv"
  by (simp add: parseReferenceAndResolveDigest_def resolveDigest_def getAuthClient_without_notation getDigest_without_notation Let_def
      cong del: sum.case_cong_weak if_weak_cong)

lemma verifyReferences_asks:
  assumes "\<And>dbg repo vopts. about_digest ext img (ArtifactReference vopts) \<Longrightarrow>
      f dbg (notationVerifier rv) repo vopts = notation_Verify ext dbg (notationVerifier rv) repo vopts"
    and "prints_digests ext isDigest"
  shows "verifyReferences (ext\<lparr> notation_Verify := f \<rparr>) img rv = verifyReferences ext img rv"
proof (cases "parseReferenceAndResolveDigest ext img rv")
  case (Pair r rv1)
  show ?thesis
  proof (cases r)
    case (Inl e)
    with Pair show ?thesis by (simp add: verifyReferences_def parse_without_notation)
  next
    case (Inr x)
    obtain repo ref where x: "x = (repo, ref)" by fastforce
    with Pair Inr have p: "parseReferenceAndResolveDigest ext img rv = (Inr (repo, ref), rv1)" by simp
    from parse_ok [OF p] obtain pref where "registry_ParseReference ext (normalizeReference img) = Inr pref"
      and "resolved ext (rv_remoteOpts rv) pref ref" by blast
    with resolved_digest [OF assms(2)] have "about_digest ext img (oras_String ext ref)"
      unfolding about_digest_def by blast
    moreover have "notationVerifier rv1 = notationVerifier rv" using quiet_parse [of rv ext img] by (simp add: p quietD)
    ultimately show ?thesis
      using assms(1) by (simp add: verifyReferences_def parse_without_notation p)
  qed
qed

text \<open>
  C22. Notation is only ever asked about a digest: whatever notation would say about references
  that do not name a digest in the registry and repository of the image reference, or with another
  verifier, has no influence on a verification, whether it succeeds or fails. When it succeeds,
  notation accepted such a reference; if the (normalised) image reference itself names a digest
  that very reference is checked, and otherwise the digest is the one the registry served for the
  tag. Verifying changes nothing but the credential cache. This rests on \<open>prints_digests\<close>, what
  oras documents of its references.
\<close>

theorem verifyReferences_pins_digest:
  assumes "prints_digests ext isDigest"
  shows "(\<forall>f. (\<forall>dbg repo vopts. about_digest ext img (ArtifactReference vopts) \<longrightarrow>
              f dbg (notationVerifier rv) repo vopts = notation_Verify ext dbg (notationVerifier rv) repo vopts) \<longrightarrow>
            verifyReferences (ext\<lparr> notation_Verify := f \<rparr>) img rv = verifyReferences ext img rv)
    \<and> (\<forall>d rv'. verifyReferences ext img rv = (Inr d, rv') \<longrightarrow>
         rv_cache rv' = rv_cache rv \<and>
         (\<exists>pref ref dbg repo vopts outcomes.
            registry_ParseReference ext (normalizeReference img) = Inr pref
            \<and> oras_Registry ref = oras_Registry pref \<and> oras_Repository ref = oras_Repository pref
            \<and> (if isDigestReference (oras_String ext pref) then ref = pref
               else served ext (rv_remoteOpts rv) (oras_String ext pref) (oras_Ref ref))
            \<and> ArtifactReference vopts = oras_String ext ref \<and> isDigestReference (ArtifactReference vopts)
            \<and> notation_Verify ext dbg (notationVerifier rv) repo vopts = Inr (d, outcomes) \<and> set outcomes \<subseteq> {None}))"
proof (intro conjI allI impI)
  fix f
  assume "\<forall>dbg repo vopts. about_digest ext img (ArtifactReference vopts) \<longrightarrow>
      f dbg (notationVerifier rv) repo vopts = notation_Verify ext dbg (notationVerifier rv) repo vopts"
  with verifyReferences_asks [OF _ assms] show "verifyReferences (ext\<lparr> notation_Verify := f \<rparr>) img rv = verifyReferences ext img rv"
    by blast
next
  fix d rv'
  assume run: "verifyReferences ext img rv = (Inr d, rv')"
  from verifyReferences_ok [OF this] show "rv_cache rv' = rv_cache rv" by (auto dest: quietD)
  from verifyReferences_ok [OF run] obtain pref ref dbg repo vopts outcomes where
    v: "registry_ParseReference ext (normalizeReference img) = Inr pref"
      "resolved ext (rv_remoteOpts rv) pref ref" "ArtifactReference vopts = oras_String ext ref"
      "notation_Verify ext dbg (notationVerifier rv) repo vopts = Inr (d, outcomes)" "set outcomes \<subseteq> {None}"
    by (auto simp: verified_as_def)
  with resolved_digest [OF assms v(1,2)] show "\<exists>pref ref dbg repo vopts outcomes.
      registry_ParseReference ext (normalizeReference img) = Inr pref
      \<and> oras_Registry ref = oras_Registry pref \<and> oras_Repository ref = oras_Repository pref
      \<and> (if isDigestReference (oras_String ext pref) then ref = pref
         else served ext (rv_remoteOpts rv) (oras_String ext pref) (oras_Ref ref))
      \<and> ArtifactReference vopts = oras_String ext ref \<and> isDigestReference (ArtifactReference vopts)
      \<and> notation_Verify ext dbg (notationVerifier rv) repo vopts = Inr (d, outcomes) \<and> set outcomes \<subseteq> {None}"
    by metis
qed

definition demo_rv :: "string \<Rightarrow> (string, string, (string \<times> cache_entry) list) requestVerifier" where
  "demo_rv nv =
     \<lparr> rv_verifier = demo_verifier [(''tp'', nv)], notationVerifier = nv, rv_trustPolicy = ''tp'',
       rv_keychain = (\<lambda>t k. (Inr anonymous, k)), rv_remoteOpts = [], rv_pluginConfig = [] \<rparr>"

definition demo_is_digest :: "string \<Rightarrow> bool" where
  "demo_is_digest d \<longleftrightarrow> CHR '':'' \<in> set d"

lemma demo_prints_digests: "prints_digests demo_ext demo_is_digest"
  by (simp add: prints_digests_def demo_ext_def demo_is_digest_def)

lemmas demo_eval = verifyReferences_def parseReferenceAndResolveDigest_def resolveDigest_def getDigest_def
  getAuthClient_def getAuthConfigFromKeychain_def remote_def normalizeReference_def isDigestReference_def
  imageResource_def SplitN2_def IndexByte_def ContainsAny_def AfterLast_def LastIndexByte_def
  demo_rv_def demo_verifier_def demo_ext_def demo_ref_def after_at_def anonymous_def outcome_errors_def
  set_provider_def List.map_filter_simps

lemma demo_verifies: "fst (verifyReferences demo_ext ''r/app:v1'' (demo_rv ''good'')) = Inr ''sha256:1''"
  by (simp add: demo_eval)

text \<open>The verdict for the tag \<^verbatim>\<open>v1\<close> is the same if notation rejected everything but digests.\<close>

theorem verifyReferences_pins_digest_witness:
  "fst (verifyReferences (demo_ext\<lparr> notation_Verify := \<lambda>dbg n repo opts.
       if isDigestReference (ArtifactReference opts) then notation_Verify demo_ext dbg n repo opts else Inl (Err ''tag'') \<rparr>)
       ''r/app:v1'' (demo_rv ''good'')) = Inr ''sha256:1''
   \<and> (\<exists>dbg repo vopts outcomes. isDigestReference (ArtifactReference vopts)
        \<and> notation_Verify demo_ext dbg ''good'' repo vopts = Inr (''sha256:1'', outcomes))"
proof -
  note P = verifyReferences_pins_digest [OF demo_prints_digests, of "''r/app:v1''" "demo_rv ''good''"]
  have "verifyReferences (demo_ext\<lparr> notation_Verify := \<lambda>dbg n repo opts.
       if isDigestReference (ArtifactReference opts) then notation_Verify demo_ext dbg n repo opts else Inl (Err ''tag'') \<rparr>)
       ''r/app:v1'' (demo_rv ''good'') = verifyReferences demo_ext ''r/app:v1'' (demo_rv ''good'')"
    by (rule mp [OF spec [OF conjunct1 [OF P]]]) (simp add: about_digest_def)
  moreover have "notationVerifier (demo_rv ''good'') = ''good''" by (simp add: demo_rv_def)
  moreover obtain rv' where "verifyReferences demo_ext ''r/app:v1'' (demo_rv ''good'') = (Inr ''sha256:1'', rv')"
    by (metis demo_verifies prod.collapse)
  ultimately show ?thesis using conjunct2 [OF P] by fastforce
qed

section \<open>Configuration and matching\<close>

lemma map_of_copyConfig: "map_of (copyConfig kvs m) = map_of m ++ map_of (rev kvs)"
  by (induction kvs arbitrary: m)
    (auto simp: copyConfig_def map_add_def fun_eq_iff split: option.splits)

lemma map_of_rev_range_map:
  assumes "range_order ord" and "wf_map m"
  shows "map_of (rev (range_map ord site m)) = map_of m"
proof -
  have "distinct (map fst (rev (range_map ord site m)))" and "set (rev (range_map ord site m)) = set m"
    using distinct_range_map [OF assms, of site] set_range_map [OF assms, of site] by (simp_all add: rev_map [symmetric])
  with map_of_inject_set [of "rev (range_map ord site m)" m] assms(2) show ?thesis by (simp add: wf_map_def)
qed

lemma getPluginConfig_content:
  assumes "range_order (order ext)" and "getPluginConfig ext v = Inr m"
    and "\<And>Get name data. configMapLister v = Some Get \<Longrightarrow> Get name = Inr data \<Longrightarrow> wf_map data"
  shows "\<exists>data. (if pluginConfigMap v = [] then data = []
      else \<exists>Get. configMapLister v = Some Get \<and> Get (pluginConfigMap v) = Inr data)
    \<and> map_of m = (if debug v then (map_of data)(''debug'' \<mapsto> ''true'') else map_of data)"
proof (cases "pluginConfigMap v = []")
  case True
  with assms(2) show ?thesis by (auto simp: getPluginConfig_def)
next
  case False
  with assms(2) obtain Get data where g: "configMapLister v = Some Get" "Get (pluginConfigMap v) = Inr data"
    and m: "m = (let c = copyConfig (range_map (order ext) AtConfig data) [] in if debug v then map_set c ''debug'' ''true'' else c)"
    by (auto simp: getPluginConfig_def Let_def split: option.split_asm sum.split_asm)
  have "map_of (copyConfig (range_map (order ext) AtConfig data) []) = map_of data"
    using map_of_rev_range_map [OF assms(1), of data] assms(3) [OF g(1,2)] by (simp add: map_of_copyConfig)
  with False g m show ?thesis by (auto simp: Let_def)
qed

lemma map_of_referrer_types_aux:
  "map_of (fold (\<lambda>r refList. map_set refList (desc_ArtifactType r) True) rs m) a = None \<longleftrightarrow>
     map_of m a = None \<and> a \<notin> desc_ArtifactType ` set rs"
  by (induction rs arbitrary: m) auto

lemma missing_attestation_None:
  "missing_attestation refList atts = None \<longleftrightarrow> (\<forall>att \<in> set atts. map_of refList att \<noteq> None)"
  by (induction atts) auto

lemma matchAttestations_ok_iff:
  assumes "range_order ord" and "wf_map atts"
  shows "matchAttestations ord img atts rs = Inr u \<longleftrightarrow> fst ` set atts \<subseteq> desc_ArtifactType ` set rs"
proof -
  have keys: "set (map fst (range_map ord AtMatch atts)) = fst ` set atts"
    using set_range_map [OF assms] by simp
  have "matchAttestations ord img atts rs = Inr u \<longleftrightarrow>
      missing_attestation (referrer_types rs) (map fst (range_map ord AtMatch atts)) = None"
    by (simp add: matchAttestations_def split: option.splits)
  also have "\<dots> \<longleftrightarrow> (\<forall>a \<in> fst ` set atts. a \<in> desc_ArtifactType ` set rs)"
    unfolding missing_attestation_None keys referrer_types_def map_of_referrer_types_aux by simp
  finally show ?thesis by (simp only: subset_iff Ball_def)
qed

lemma matchImageReferences_iff:
  "matchImageReferences wm refs img \<longleftrightarrow> refs = [] \<or> (\<exists>r \<in> set refs. wm r img)"
  by (auto simp: list_ex_iff)

declare matchImageReferences.simps [simp del]

end
