(* ===== verification/Request.thy ===== *)
theory Request
  imports Types
begin

text \<open>
  Request validation (\<^verbatim>\<open>internal/verifier/request.go\<close>): \<open>processRequestData\<close> rejects a request
  without images, with an empty image reference, an attestation without a name or a condition
  without key or value, in the order the nested loops meet them, and drops the caller-supplied
  metadata. \<open>fmt_att\<close> stands for the \<^verbatim>\<open>%+v\<close> rendering of an attestation entry.
\<close>

fun checkConditions :: "Condition list \<Rightarrow> gerr option" where
  "checkConditions [] = None"
| "checkConditions (cond # conds) =
     (if RawKey cond = None then Some (Err ''condition key cannot be empty'')
      else if RawValue cond = None then Some (Err ''condition value cannot be empty'')
      else checkConditions conds)"

fun checkTypes :: "AttestationType list \<Rightarrow> gerr option" where
  "checkTypes [] = None"
| "checkTypes (attType # rest) =
     (if att_Name attType = [] then Some (Err ''attestation name cannot be empty'')
      else (case checkConditions (AnyConditions (att_Conditions attType)) of
              Some e \<Rightarrow> Some e
            | None \<Rightarrow>
                (case checkConditions (AllConditions (att_Conditions attType)) of
                   Some e \<Rightarrow> Some e
                 | None \<Rightarrow> checkTypes rest)))"

fun checkAttestations :: "(AttestationsInfo \<Rightarrow> string) \<Rightarrow> AttestationsInfo list \<Rightarrow> gerr option" where
  "checkAttestations fmt_att [] = None"
| "checkAttestations fmt_att (att # rest) =
     (if ImageReference att = [] then Some (Err (''image reference cannot be empty '' @ fmt_att att))
      else (case checkTypes (att_Type att) of
              Some e \<Rightarrow> Some e
            | None \<Rightarrow> checkAttestations fmt_att rest))"

definition processRequestData ::
    "(AttestationsInfo \<Rightarrow> string) \<Rightarrow> RequestData \<Rightarrow> VerificationRequest result" where
  "processRequestData fmt_att req =
     (if Containers (rd_Images req) = [] \<and> InitContainers (rd_Images req) = []
         \<and> EphemeralContainers (rd_Images req) = []
      then Inl (Err ''at least one image must be provided'')
      else (case checkAttestations fmt_att (rd_Attestations req) of
              Some e \<Rightarrow> Inl e
            | None \<Rightarrow>
                Inr \<lparr> ImageReferences = rd_ImageReferences req,
                      Images = rd_Images req,
                      TrustPolicy = rd_TrustPolicy req,
                      Attestations = rd_Attestations req,
                      Insecure = rd_Insecure req \<rparr>))"

section \<open>What an accepted request satisfies\<close>

definition valid_condition :: "Condition \<Rightarrow> bool" where
  "valid_condition c \<longleftrightarrow> RawKey c \<noteq> None \<and> RawValue c \<noteq> None"

definition valid_type :: "AttestationType \<Rightarrow> bool" where
  "valid_type t \<longleftrightarrow> att_Name t \<noteq> []
     \<and> list_all valid_condition (AnyConditions (att_Conditions t))
     \<and> list_all valid_condition (AllConditions (att_Conditions t))"

definition valid_attestation :: "AttestationsInfo \<Rightarrow> bool" where
  "valid_attestation a \<longleftrightarrow> ImageReference a \<noteq> [] \<and> list_all valid_type (att_Type a)"

definition valid_request :: "RequestData \<Rightarrow> bool" where
  "valid_request req \<longleftrightarrow>
     all_images (rd_Images req) \<noteq> [] \<and> list_all valid_attestation (rd_Attestations req)"

lemma checkConditions_None: "checkConditions cs = None \<longleftrightarrow> list_all valid_condition cs"
  by (induction cs) (auto simp: valid_condition_def)

lemma checkTypes_None: "checkTypes ts = None \<longleftrightarrow> list_all valid_type ts"
  by (induction ts) (auto simp: valid_type_def checkConditions_None split: option.splits
      simp flip: checkConditions_None)

lemma checkAttestations_None:
  "checkAttestations fmt_att as = None \<longleftrightarrow> list_all valid_attestation as"
  by (induction as) (auto simp: valid_attestation_def split: option.splits
      simp flip: checkTypes_None)

lemma checkConditions_no_panic: "checkConditions cs = Some e \<Longrightarrow> \<not> is_panic e"
  by (induction cs) (auto split: if_splits)

lemma checkTypes_no_panic: "checkTypes ts = Some e \<Longrightarrow> \<not> is_panic e"
  by (induction ts) (auto split: if_splits option.splits dest: checkConditions_no_panic)

lemma checkAttestations_no_panic: "checkAttestations fmt_att as = Some e \<Longrightarrow> \<not> is_panic e"
  by (induction as) (auto split: if_splits option.splits dest: checkTypes_no_panic)

lemma processRequestData_ok_iff: "is_ok (processRequestData fmt_att req) \<longleftrightarrow> valid_request req"
  by (auto simp: processRequestData_def valid_request_def all_images_def
      split: option.splits simp flip: checkAttestations_None [of fmt_att])

lemma processRequestData_no_panic: "no_panic (processRequestData fmt_att req)"
  by (auto simp: processRequestData_def split: option.splits dest: checkAttestations_no_panic)

lemma processRequestData_fields:
  assumes "processRequestData fmt_att req = Inr vr"
  shows "ImageReferences vr = rd_ImageReferences req" and "Images vr = rd_Images req"
    and "TrustPolicy vr = rd_TrustPolicy req" and "Attestations vr = rd_Attestations req"
    and "Insecure vr = rd_Insecure req"
  using assms by (auto simp: processRequestData_def split: if_splits option.splits)

text \<open>
  C33. Validation is exact and never panics: a request is accepted if and only if it has an image
  in one of its three groups, every attestation entry has an image reference, every attestation
  type has a name and every condition has a key and a value. An accepted request reaches the
  verifier with its images, references, trust policy, attestations and insecure flag unchanged.
\<close>

theorem processRequestData_exact:
  "case processRequestData fmt_att req of
     Inr vr \<Rightarrow> valid_request req \<and> ImageReferences vr = rd_ImageReferences req
       \<and> Images vr = rd_Images req \<and> TrustPolicy vr = rd_TrustPolicy req
       \<and> Attestations vr = rd_Attestations req \<and> Insecure vr = rd_Insecure req
   | Inl e \<Rightarrow> \<not> valid_request req \<and> \<not> is_panic e"
  using processRequestData_ok_iff [of fmt_att req] processRequestData_no_panic [of fmt_att req]
  by (cases "processRequestData fmt_att req") (auto dest: processRequestData_fields)

end
