(* ===== verification/Response.thy ===== *)
theory Response
  imports Types
begin

text \<open>
  The response under construction (\<^verbatim>\<open>internal/verifier/response.go\<close>): the list of verified images
  with the attestations each still has to satisfy, and the data sent back. \<open>image_String\<close> stands
  for Kyverno's \<^verbatim>\<open>ImageInfo.String\<close> and \<open>wildcard_Match\<close> for its \<^verbatim>\<open>wildcard.Match\<close>.
\<close>

record responseStruct =
  imageList :: "AttestationList gomap"
  responseData :: ResponseData

definition NewResponse :: responseStruct where
  "NewResponse =
     \<lparr> imageList = [],
       responseData = \<lparr> Verified = True, ErrorMessage = [], Results = [] \<rparr> \<rparr>"

definition GetResponse :: "responseStruct \<Rightarrow> ResponseData" where
  "GetResponse r = responseData r"

definition GetImageList :: "responseStruct \<Rightarrow> AttestationList gomap" where
  "GetImageList r = imageList r"

definition patch_of :: "(Image \<Rightarrow> string) \<Rightarrow> ImageInfo \<Rightarrow> Operation" where
  "patch_of image_String img =
     \<lparr> op_Operation = ''replace'', op_Path = info_Pointer img,
       op_Value = image_String (info_Image img) \<rparr>"

definition AddImage_response ::
    "(Image \<Rightarrow> string) \<Rightarrow> responseStruct \<Rightarrow> string \<Rightarrow> ImageInfo \<Rightarrow> responseStruct" where
  "AddImage_response image_String r imageRef img =
     r\<lparr> responseData := (responseData r)
          \<lparr> Results := Results (responseData r) @ [patch_of image_String img] \<rparr>,
        imageList := map_set (imageList r) imageRef [] \<rparr>"

definition addAttestations ::
    "responseStruct \<Rightarrow> string \<Rightarrow> AttestationType \<Rightarrow> responseStruct result" where
  "addAttestations r img att =
     (case map_of (imageList r) img of
        None \<Rightarrow> Inl (Err ''image not found in image list'')
      | Some atts \<Rightarrow>
          (let atts1 = (case map_of atts (att_Name att) of
                          None \<Rightarrow> map_set atts (att_Name att) []
                        | Some _ \<Rightarrow> atts);
               conds = (case map_of atts1 (att_Name att) of None \<Rightarrow> [] | Some cs \<Rightarrow> cs);
               atts2 = (if AllConditions (att_Conditions att) \<noteq> []
                           \<or> AnyConditions (att_Conditions att) \<noteq> []
                        then map_set atts1 (att_Name att) (conds @ [att_Conditions att])
                        else atts1)
           in Inr (r\<lparr> imageList := map_set (imageList r) img atts2 \<rparr>)))"

definition VerificationFailed :: "responseStruct \<Rightarrow> string \<Rightarrow> ResponseData" where
  "VerificationFailed r msg =
     (responseData r)\<lparr> Verified := False, ErrorMessage := msg, Results := [] \<rparr>"

definition VerificationSucceeded :: "responseStruct \<Rightarrow> string \<Rightarrow> ResponseData" where
  "VerificationSucceeded r msg = (responseData r)\<lparr> ErrorMessage := msg \<rparr>"

text \<open>The three nested loops of \<^verbatim>\<open>BuildAttestationList\<close>, innermost first.\<close>

fun buildTypes :: "string \<Rightarrow> AttestationType list \<Rightarrow> responseStruct \<Rightarrow> responseStruct result" where
  "buildTypes imgRef [] r = Inr r"
| "buildTypes imgRef (t # ts) r =
     (case addAttestations r imgRef t of Inl e \<Rightarrow> Inl e | Inr r' \<Rightarrow> buildTypes imgRef ts r')"

fun buildImages ::
    "(string \<Rightarrow> string \<Rightarrow> bool) \<Rightarrow> AttestationsInfo \<Rightarrow> string list \<Rightarrow> responseStruct
       \<Rightarrow> responseStruct result" where
  "buildImages wildcard_Match attestation [] r = Inr r"
| "buildImages wildcard_Match attestation (imgRef # imgRefs) r =
     (if wildcard_Match (ImageReference attestation) imgRef
      then (case buildTypes imgRef (att_Type attestation) r of
              Inl e \<Rightarrow> Inl e
            | Inr r' \<Rightarrow> buildImages wildcard_Match attestation imgRefs r')
      else buildImages wildcard_Match attestation imgRefs r)"

fun BuildAttestationList ::
    "(string \<Rightarrow> string \<Rightarrow> bool) \<Rightarrow> orders \<Rightarrow> AttestationsInfo list \<Rightarrow> responseStruct
       \<Rightarrow> responseStruct result" where
  "BuildAttestationList wildcard_Match ord [] r = Inr r"
| "BuildAttestationList wildcard_Match ord (attestation # rest) r =
     (case buildImages wildcard_Match attestation (ord AtBuild (map fst (imageList r))) r of
        Inl e \<Rightarrow> Inl e
      | Inr r' \<Rightarrow> BuildAttestationList wildcard_Match ord rest r')"

section \<open>The attestation list against its specification\<close>

text \<open>
  What the list should hold: image \<open>image\<close> has to satisfy attestation type \<open>name\<close> if some entry
  whose reference matches the image lists it, under the non-empty conditions of all such
  entries, in order.
\<close>

definition nonempty_conditions :: "AttestationType \<Rightarrow> bool" where
  "nonempty_conditions t \<longleftrightarrow>
     AllConditions (att_Conditions t) \<noteq> [] \<or> AnyConditions (att_Conditions t) \<noteq> []"

definition required_types ::
    "(string \<Rightarrow> string \<Rightarrow> bool) \<Rightarrow> AttestationsInfo list \<Rightarrow> string \<Rightarrow> AttestationType list" where
  "required_types wildcard_Match as imgRef =
     concat (map att_Type (filter (\<lambda>a. wildcard_Match (ImageReference a) imgRef) as))"

definition required ::
    "AttestationType list \<Rightarrow> string \<Rightarrow> AnyAllConditions list option" where
  "required ts name =
     (if name \<in> att_Name ` set ts
      then Some (map att_Conditions (filter (\<lambda>t. att_Name t = name \<and> nonempty_conditions t) ts))
      else None)"

text \<open>One attestation list extended by a list of types: the effect of the innermost loop.\<close>

definition extend_by :: "(string \<rightharpoonup> AnyAllConditions list) \<Rightarrow> AttestationType list
    \<Rightarrow> string \<rightharpoonup> AnyAllConditions list" where
  "extend_by m ts name =
     (case required ts name of
        None \<Rightarrow> m name
      | Some cs \<Rightarrow> Some ((case m name of None \<Rightarrow> [] | Some c0 \<Rightarrow> c0) @ cs))"

lemma required_Nil [simp]: "required [] name = None"
  by (simp add: required_def)

lemma extend_by_Nil [simp]: "extend_by m [] = m"
  by (rule ext) (simp add: extend_by_def)

lemma required_append:
  "required (ts @ us) name =
     (case (required ts name, required us name) of
        (None, None) \<Rightarrow> None
      | (a, b) \<Rightarrow> Some ((case a of None \<Rightarrow> [] | Some cs \<Rightarrow> cs) @ (case b of None \<Rightarrow> [] | Some cs \<Rightarrow> cs)))"
  by (auto simp: required_def image_Un filter_empty_conv image_iff)

lemma extend_by_append: "extend_by m (ts @ us) = extend_by (extend_by m ts) us"
  by (rule ext) (auto simp: extend_by_def required_append split: option.splits)

definition atts_of :: "responseStruct \<Rightarrow> string \<Rightarrow> (string \<rightharpoonup> AnyAllConditions list) option" where
  "atts_of r imgRef = map_option map_of (map_of (imageList r) imgRef)"

definition wf_response :: "responseStruct \<Rightarrow> bool" where
  "wf_response r \<longleftrightarrow> wf_map (imageList r) \<and> (\<forall>(k, atts) \<in> set (imageList r). wf_map atts)"

lemma wf_response_wf_map [simp]: "wf_response r \<Longrightarrow> wf_map (imageList r)"
  by (simp add: wf_response_def)

lemma map_set_keys: "map fst (map_set m k v) = (if k \<in> fst ` set m then map fst m else map fst m @ [k])"
  by (simp add: map_set_def update_keys)

lemma set_update_subset_aux: "set (AList.update k v m) \<subseteq> insert (k, v) (set m)"
  by (induction m) auto

lemma set_map_set: "set (map_set m k v) \<subseteq> insert (k, v) (set m)"
  using set_update_subset_aux [of k v m] by (simp add: map_set_def)

lemma wf_response_set:
  "wf_response r \<Longrightarrow> wf_map atts \<Longrightarrow> wf_response (r\<lparr> imageList := map_set (imageList r) img atts \<rparr>)"
  using set_map_set [of "imageList r" img atts] by (fastforce simp: wf_response_def)

text \<open>A step that only extends the attestations of image \<open>img\<close> by the types \<open>ts\<close>.\<close>

definition extended :: "responseStruct \<Rightarrow> string \<Rightarrow> AttestationType list \<Rightarrow> responseStruct \<Rightarrow> bool" where
  "extended r img ts r' \<longleftrightarrow> responseData r' = responseData r
     \<and> map fst (imageList r') = map fst (imageList r) \<and> wf_response r'
     \<and> atts_of r' = (atts_of r)(img := map_option (\<lambda>m. extend_by m ts) (atts_of r img))"

lemma atts_of_None: "atts_of r img = None \<longleftrightarrow> img \<notin> fst ` set (imageList r)"
  by (auto simp: atts_of_def map_of_eq_None_iff)

lemma addAttestations_extended:
  assumes "wf_response r" and "img \<in> fst ` set (imageList r)"
  shows "\<exists>r'. addAttestations r img t = Inr r' \<and> extended r img [t] r'"
proof -
  obtain atts where atts: "map_of (imageList r) img = Some atts"
    using assms(2) by (metis map_of_eq_None_iff not_None_eq)
  then have wf: "wf_map atts"
    using assms(1) by (fastforce simp: wf_response_def dest: map_of_SomeD)
  define atts1 where
    "atts1 = (case map_of atts (att_Name t) of None \<Rightarrow> map_set atts (att_Name t) [] | Some _ \<Rightarrow> atts)"
  define conds where "conds = (case map_of atts1 (att_Name t) of None \<Rightarrow> [] | Some cs \<Rightarrow> cs)"
  define atts2 where
    "atts2 = (if nonempty_conditions t
              then map_set atts1 (att_Name t) (conds @ [att_Conditions t]) else atts1)"
  have "addAttestations r img t = Inr (r\<lparr> imageList := map_set (imageList r) img atts2 \<rparr>)"
    by (simp add: addAttestations_def atts Let_def atts2_def atts1_def conds_def
        nonempty_conditions_def)
  moreover have "wf_map atts2"
    using wf by (auto simp: atts2_def atts1_def split: option.splits)
  moreover have "map_of atts2 = extend_by (map_of atts) [t]"
    by (rule ext) (auto simp: atts2_def atts1_def conds_def extend_by_def required_def
        split: option.splits)
  ultimately show ?thesis
    using assms atts
    by (auto simp: extended_def map_set_keys wf_response_set atts_of_def fun_eq_iff)
qed

lemma extended_trans:
  "extended r img ts r' \<Longrightarrow> extended r' img us r'' \<Longrightarrow> extended r img (ts @ us) r''"
  by (auto simp: extended_def fun_eq_iff extend_by_append option.map_comp comp_def)

lemma extended_keys: "extended r img ts r' \<Longrightarrow> fst ` set (imageList r') = fst ` set (imageList r)"
  by (metis extended_def set_map)

lemma buildTypes_extended:
  assumes "wf_response r" and "img \<in> fst ` set (imageList r)"
  shows "\<exists>r'. buildTypes img ts r = Inr r' \<and> extended r img ts r'"
  using assms
proof (induction ts arbitrary: r)
  case Nil
  then show ?case
    by (auto simp: extended_def fun_eq_iff option.map_ident)
next
  case (Cons t ts)
  obtain r1 where r1: "addAttestations r img t = Inr r1" "extended r img [t] r1"
    using addAttestations_extended Cons.prems by blast
  moreover obtain r2 where "buildTypes img ts r1 = Inr r2" "extended r1 img ts r2"
    using Cons.IH [of r1] Cons.prems r1(2) extended_keys by (metis extended_def)
  ultimately show ?case
    using extended_trans [of r img "[t]" r1 ts r2] by auto
qed

lemma buildImages_effect:
  assumes "wf_response r" and "set imgs \<subseteq> fst ` set (imageList r)" and "distinct imgs"
  shows "\<exists>r'. buildImages wm a imgs r = Inr r' \<and> responseData r' = responseData r
     \<and> map fst (imageList r') = map fst (imageList r) \<and> wf_response r'
     \<and> (\<forall>img. atts_of r' img =
          (if img \<in> set imgs \<and> wm (ImageReference a) img
           then map_option (\<lambda>m. extend_by m (att_Type a)) (atts_of r img) else atts_of r img))"
  using assms
proof (induction imgs arbitrary: r)
  case Nil
  then show ?case by auto
next
  case (Cons i imgs)
  show ?case
  proof (cases "wm (ImageReference a) i")
    case False
    with Cons show ?thesis by fastforce
  next
    case True
    obtain r1 where r1: "buildTypes i (att_Type a) r = Inr r1" "extended r i (att_Type a) r1"
      using buildTypes_extended Cons.prems by (meson list.set_intros(1) subsetD)
    then have "wf_response r1" "set imgs \<subseteq> fst ` set (imageList r1)" "distinct imgs"
      using Cons.prems extended_keys by (auto simp: extended_def)
    from Cons.IH [OF this] r1 True Cons.prems(3) show ?thesis
      by (auto simp: extended_def)
  qed
qed

lemma BuildAttestationList_effect:
  assumes "range_order ord" and "wf_response r"
  shows "\<exists>r'. BuildAttestationList wm ord as r = Inr r' \<and> responseData r' = responseData r
     \<and> map fst (imageList r') = map fst (imageList r) \<and> wf_response r'
     \<and> (\<forall>img. atts_of r' img =
          map_option (\<lambda>m. extend_by m (required_types wm as img)) (atts_of r img))"
  using assms(2)
proof (induction as arbitrary: r)
  case Nil
  then show ?case by (auto simp: required_types_def option.map_ident)
next
  case (Cons a as)
  let ?imgs = "ord AtBuild (map fst (imageList r))"
  have "set ?imgs = fst ` set (imageList r)" and "distinct ?imgs"
    using assms(1) Cons.prems by (auto simp: range_order_def wf_response_def wf_map_def)
  with buildImages_effect [OF Cons.prems, of ?imgs wm a]
  obtain r1 where r1: "buildImages wm a ?imgs r = Inr r1" "responseData r1 = responseData r"
      "map fst (imageList r1) = map fst (imageList r)" "wf_response r1"
    and eff: "\<And>img. atts_of r1 img =
          (if img \<in> fst ` set (imageList r) \<and> wm (ImageReference a) img
           then map_option (\<lambda>m. extend_by m (att_Type a)) (atts_of r img) else atts_of r img)"
    by auto
  have "atts_of r1 img = map_option (\<lambda>m. extend_by m (required_types wm [a] img)) (atts_of r img)" for img
    using atts_of_None [of r img] by (auto simp: eff required_types_def option.map_ident)
  with Cons.IH [OF r1(4)] r1 show ?case
    by (auto simp: required_types_def option.map_comp comp_def extend_by_append [symmetric])
qed

lemma BuildAttestationList_required:
  assumes "range_order ord" and "wf_map (imageList r)" and "\<forall>(k, atts) \<in> set (imageList r). atts = []"
  shows "\<exists>r'. BuildAttestationList wm ord as r = Inr r' \<and> GetResponse r' = GetResponse r
     \<and> map fst (GetImageList r') = map fst (GetImageList r) \<and> wf_response r'
     \<and> (\<forall>img atts. map_of (GetImageList r') img = Some atts \<longrightarrow>
          map_of atts = required (required_types wm as img))"
proof -
  have "wf_response r"
    using assms(2,3) by (auto simp: wf_response_def)
  from BuildAttestationList_effect [OF assms(1) this, of wm as]
  obtain r' where r': "BuildAttestationList wm ord as r = Inr r'" "responseData r' = responseData r"
      "map fst (imageList r') = map fst (imageList r)" "wf_response r'"
    and eff: "\<And>img. atts_of r' img =
          map_option (\<lambda>m. extend_by m (required_types wm as img)) (atts_of r img)"
    by blast
  have "map_of atts = required (required_types wm as img)"
    if "map_of (imageList r') img = Some atts" for img atts
  proof -
    from that eff [of img] obtain atts0 where "map_of (imageList r) img = Some atts0"
      and "map_of atts = extend_by (map_of atts0) (required_types wm as img)"
      by (cases "map_of (imageList r) img") (auto simp: atts_of_def)
    moreover from this(1) have "atts0 = []"
      using assms(3) by (auto dest: map_of_SomeD)
    ultimately show ?thesis
      by (auto simp: fun_eq_iff extend_by_def split: option.splits)
  qed
  with r' show ?thesis by (auto simp: GetResponse_def GetImageList_def)
qed

text \<open>
  C20. The attestation list is what the policy asks for, whatever order the maps are ranged in:
  building it from freshly added images succeeds, changes no patch and gives each image exactly
  the attestation types of the entries whose reference matches it, each with the non-empty
  conditions of all those entries in order.
\<close>

theorem BuildAttestationList_spec:
  assumes "range_order ord" and "wf_map (imageList r)" and "\<forall>(k, atts) \<in> set (imageList r). atts = []"
  shows "\<exists>r'. BuildAttestationList wm ord as r = Inr r' \<and> GetResponse r' = GetResponse r
     \<and> map fst (GetImageList r') = map fst (GetImageList r)
     \<and> (\<forall>img atts. map_of (GetImageList r') img = Some atts \<longrightarrow>
          map_of atts = required (required_types wm as img))"
  using BuildAttestationList_required [OF assms, of wm as] by blast

definition demo_response :: responseStruct where
  "demo_response =
     \<lparr> imageList = [(''r/app:v1'', [])], responseData = responseData NewResponse \<rparr>"

definition demo_attestations :: "AttestationsInfo list" where
  "demo_attestations =
     [\<lparr> ImageReference = ''*'',
        att_Type = [\<lparr> att_Name = ''sbom'', att_Conditions = \<lparr> AnyConditions = [], AllConditions = [] \<rparr> \<rparr>] \<rparr>]"

theorem BuildAttestationList_spec_witness:
  "\<exists>r'. BuildAttestationList (\<lambda>p s. p = ''*'') in_order demo_attestations demo_response = Inr r'
     \<and> map fst (GetImageList r') = [''r/app:v1'']
     \<and> (\<forall>atts. map_of (GetImageList r') ''r/app:v1'' = Some atts \<longrightarrow> map_of atts ''sbom'' = Some [])"
proof -
  have "wf_map (imageList demo_response)" and "\<forall>(k, atts) \<in> set (imageList demo_response). atts = []"
    by (simp_all add: demo_response_def wf_map_def)
  from BuildAttestationList_spec [OF range_order_in_order this, of "\<lambda>p s. p = ''*''" demo_attestations]
  show ?thesis
    by (auto simp: demo_response_def demo_attestations_def required_types_def required_def
        nonempty_conditions_def GetImageList_def)
qed

end
