(* ===== verification/Verify.thy ===== *)
theory Verify
  imports References Request Response
begin

text \<open>
  The verification of one request (\<^verbatim>\<open>internal/verifier/verify.go\<close>): every image of the three groups
  that the request selects, then the attestations each verified image has to carry. The request
  verifier is threaded through, since each step may change the verdict cache and the credential
  cache; an error ends the request with a negative response, a panic ends it without one.
\<close>

section \<open>Attestations\<close>

definition fetchAndExtractPayload ::
    "('n, 'h) ext \<Rightarrow> name_Reference \<Rightarrow> v1_Descriptor \<Rightarrow> ('n, 'h, 'r) requestVerifier
       \<Rightarrow> ('h, ('n, 'h, 'r) requestVerifier) call" where
  "fetchAndExtractPayload ext repoRef desc rv =
     andThen (wrapErr ''error in fetching statement''
         (remote (gcr_Get ext (rv_remoteOpts rv) (Context_Digest ext (ref_Context repoRef) (desc_Digest desc))) rv))
       (\<lambda>manifestDesc rv1.
          (case unmarshal_Layers ext (gcr_Manifest manifestDesc) of
             Inl e \<Rightarrow> (Inl e, rv1)
           | Inr layers \<Rightarrow>
               if length layers = 0
               then (Inl (Err (''no predicate found: '' @ fmt_Manifest ext (gcr_Manifest manifestDesc))), rv1)
               else if length layers > 1
               then (Inl (Err (''multiple layers in predicate not supported: ''
                       @ fmt_Manifest ext (gcr_Manifest manifestDesc))), rv1)
               else andThen (remote (gcr_Layer ext (rv_remoteOpts rv1)
                        (Context_Digest ext (ref_Context repoRef) (layers ! 0))) rv1)
                      (\<lambda>layer rv2.
                         (case layer of
                            Inl e \<Rightarrow> (Inl e, rv2)
                          | Inr ioPredicate \<Rightarrow> (decode_payload ext ioPredicate, rv2)))))"

definition verifyConditions ::
    "('n, 'h) ext \<Rightarrow> name_Reference \<Rightarrow> v1_Descriptor \<Rightarrow> AnyAllConditions list
       \<Rightarrow> ('n, 'h, 'r) requestVerifier \<Rightarrow> (unit, ('n, 'h, 'r) requestVerifier) call" where
  "verifyConditions ext repoRef desc conditions rv =
     andThen (fetchAndExtractPayload ext repoRef desc rv)
       (\<lambda>payload rv1.
          (case AddJSONObject ext payload of
             Inl e \<Rightarrow> (Inl (wrap ''failed to add Statement to the context'' e), rv1)
           | Inr engineContext \<Rightarrow>
               (case EvaluateAnyAllConditions ext engineContext conditions of
                  Inl e \<Rightarrow> (Inl e, rv1)
                | Inr (val, msg) \<Rightarrow>
                    if \<not> val then (Inl (Err (''failed to evaluate conditions: '' @ msg)), rv1)
                    else (Inr (), rv1))))"

definition checkAllAttestationsForImage ::
    "('n, 'h) ext \<Rightarrow> ('n, 'h, 'r) requestVerifier \<Rightarrow> string \<Rightarrow> AttestationList \<Rightarrow> bool" where
  "checkAllAttestationsForImage ext rv img attestationList =
     list_all (\<lambda>(attestation, condition). GetAttestation (rv_cache rv) (rv_trustPolicy rv) img attestation condition)
       (range_map (order ext) AtCheckAll attestationList)"

text \<open>The body of the loop over the referrers, from the notation call on.\<close>

definition verifyReferrer ::
    "('n, 'h) ext \<Rightarrow> string \<Rightarrow> name_Reference \<Rightarrow> v1_Descriptor \<Rightarrow> AnyAllConditions list
       \<Rightarrow> ('n, 'h, 'r) requestVerifier \<Rightarrow> (unit, ('n, 'h, 'r) requestVerifier) call" where
  "verifyReferrer ext img ref referrer conditions rv =
     andThen (wrapErr (''failed to get referrer of artifact type '' @ ref_String ref @ '' ''
                 @ desc_Digest referrer @ '' '' @ desc_ArtifactType referrer)
         (verifyReferences ext (getReference (desc_Digest referrer) ref) rv))
       (\<lambda>digest rv1.
          if length digest = 0 then (Inr (), rv1)
          else andThen
            (if length conditions \<noteq> 0
             then wrapErr (''failed to verify conditions '' @ ref_String ref @ '' '' @ desc_Digest referrer)
                    (verifyConditions ext ref referrer conditions rv1)
             else (Inr (), rv1))
            (\<lambda>_ rv2.
               (case AddAttestation (rv_cache rv2) (rv_trustPolicy rv2) img (desc_ArtifactType referrer) conditions of
                  (Inl e, c) \<Rightarrow>
                    (Inl (wrap (''failed to add attestation to the cache image='' @ ref_String ref
                            @ '', digest='' @ desc_Digest referrer) e), set_cache rv2 c)
                | (Inr _, c) \<Rightarrow> (Inr (), set_cache rv2 c))))"

fun verifyReferrers ::
    "('n, 'h) ext \<Rightarrow> string \<Rightarrow> name_Reference \<Rightarrow> AttestationList \<Rightarrow> v1_Descriptor list
       \<Rightarrow> ('n, 'h, 'r) requestVerifier \<Rightarrow> (unit, ('n, 'h, 'r) requestVerifier) call" where
  "verifyReferrers ext img ref attestationList [] rv = (Inr (), rv)"
| "verifyReferrers ext img ref attestationList (referrer # rest) rv =
     (case map_of attestationList (desc_ArtifactType referrer) of
        None \<Rightarrow> verifyReferrers ext img ref attestationList rest rv
      | Some conditions \<Rightarrow>
          if GetAttestation (rv_cache rv) (rv_trustPolicy rv) img (desc_ArtifactType referrer) conditions
          then verifyReferrers ext img ref attestationList rest rv
          else andThen (verifyReferrer ext img ref referrer conditions rv)
                 (\<lambda>_ rv1. verifyReferrers ext img ref attestationList rest rv1))"

definition verifyAttestation ::
    "('n, 'h) ext \<Rightarrow> string \<Rightarrow> AttestationList \<Rightarrow> ('n, 'h, 'r) requestVerifier
       \<Rightarrow> (unit, ('n, 'h, 'r) requestVerifier) call" where
  "verifyAttestation ext img attestationList rv =
     (if length attestationList = 0 then (Inr (), rv)
      else if checkAllAttestationsForImage ext rv img attestationList then (Inr (), rv)
      else (case name_ParseReference ext img of
              Inl e \<Rightarrow> (Inl (wrap (''failed to parse image reference: '' @ img) e), rv)
            | Inr ref \<Rightarrow>
                andThen (wrapErr ''failed to get gcr remote head'' (remote (gcr_Head ext (rv_remoteOpts rv) ref) rv))
                  (\<lambda>refDesc rv1.
                     andThen (wrapErr ''failed to get gcr remote referrers''
                         (remote (gcr_Referrers ext (rv_remoteOpts rv1)
                            (Context_Digest ext (ref_Context ref) (desc_Digest refDesc))) rv1))
                       (\<lambda>referrers rv2.
                          (case referrers of
                             Inl e \<Rightarrow> (Inl e, rv2)
                           | Inr manifests \<Rightarrow>
                               (case matchAttestations (order ext) img attestationList manifests of
                                  Inl e \<Rightarrow> (Inl e, rv2)
                                | Inr _ \<Rightarrow> verifyReferrers ext img ref attestationList manifests rv2))))))"

fun verifyAttestationsLoop ::
    "('n, 'h) ext \<Rightarrow> (string \<times> AttestationList) list \<Rightarrow> ('n, 'h, 'r) requestVerifier
       \<Rightarrow> (unit, ('n, 'h, 'r) requestVerifier) call" where
  "verifyAttestationsLoop ext [] rv = (Inr (), rv)"
| "verifyAttestationsLoop ext ((img, lst) # rest) rv =
     andThen (wrapErr ''failed to verify attestations'' (verifyAttestation ext img lst rv))
       (\<lambda>_ rv1. verifyAttestationsLoop ext rest rv1)"

definition verifyAttestations ::
    "('n, 'h) ext \<Rightarrow> responseStruct \<Rightarrow> ('n, 'h, 'r) requestVerifier
       \<Rightarrow> (unit, ('n, 'h, 'r) requestVerifier) call" where
  "verifyAttestations ext response rv =
     verifyAttestationsLoop ext (range_map (order ext) AtVerify (GetImageList response)) rv"

section \<open>Images\<close>

definition verifyImageInfo ::
    "('n, 'h) ext \<Rightarrow> ImageInfo \<Rightarrow> ('n, 'h, 'r) requestVerifier
       \<Rightarrow> (ImageInfo, ('n, 'h, 'r) requestVerifier) call" where
  "verifyImageInfo ext info rv =
     (let imgRef = image_String ext (info_Image info)
      in (case GetImage (rv_cache rv) (rv_trustPolicy rv) imgRef of
            Some img \<Rightarrow> (Inr (info\<lparr> info_Image := img \<rparr>), rv)
          | None \<Rightarrow>
              andThen (wrapErr (''failed to verify image '' @ imgRef) (verifyReferences ext imgRef rv))
                (\<lambda>digest rv1.
                   (let info' = info\<lparr> info_Image := (info_Image info)\<lparr> img_Digest := digest \<rparr> \<rparr>
                    in (case AddImage (rv_cache rv1) (rv_trustPolicy rv1) imgRef (info_Image info') of
                          (Inl e, c) \<Rightarrow> (Inl (wrap (''failed to add image to the cache '' @ imgRef) e), set_cache rv1 c)
                        | (Inr _, c) \<Rightarrow> (Inr info', set_cache rv1 c))))))"

text \<open>The loop over the images of one group; its state is the response and the request verifier.\<close>

fun verifyGroup ::
    "('n, 'h) ext \<Rightarrow> string list \<Rightarrow> string \<Rightarrow> ImageInfo list \<Rightarrow> responseStruct \<times> ('n, 'h, 'r) requestVerifier
       \<Rightarrow> (unit, responseStruct \<times> ('n, 'h, 'r) requestVerifier) call" where
  "verifyGroup ext imageReferences kind [] (response, rv) = (Inr (), response, rv)"
| "verifyGroup ext imageReferences kind (info # rest) (response, rv) =
     (if \<not> matchImageReferences (wildcard_Match ext) imageReferences (image_String ext (info_Image info))
      then verifyGroup ext imageReferences kind rest (response, rv)
      else (case verifyImageInfo ext info rv of
              (Inl e, rv1) \<Rightarrow>
                (Inl (wrap (''failed to verify '' @ kind @ '' '' @ img_Name (info_Image info)) e), response, rv1)
            | (Inr res, rv1) \<Rightarrow>
                if length (img_Digest (info_Image res)) = 0
                then verifyGroup ext imageReferences kind rest (response, rv1)
                else verifyGroup ext imageReferences kind rest
                       (AddImage_response (image_String ext) response (image_String ext (info_Image info)) res, rv1)))"

fun verifyGroups ::
    "('n, 'h) ext \<Rightarrow> string list \<Rightarrow> (string \<times> ImageInfo list) list \<Rightarrow> responseStruct \<times> ('n, 'h, 'r) requestVerifier
       \<Rightarrow> (unit, responseStruct \<times> ('n, 'h, 'r) requestVerifier) call" where
  "verifyGroups ext imageReferences [] s = (Inr (), s)"
| "verifyGroups ext imageReferences ((kind, infos) # rest) s =
     andThen (verifyGroup ext imageReferences kind infos s)
       (\<lambda>_ s1. verifyGroups ext imageReferences rest s1)"

definition groups :: "orders \<Rightarrow> ImageInfos \<Rightarrow> (string \<times> ImageInfo list) list" where
  "groups ord imgs =
     [(''container'', map snd (range_map ord AtImages (Containers imgs))),
      (''init container'', map snd (range_map ord AtInit (InitContainers imgs))),
      (''ephemeral container'', map snd (range_map ord AtEphemeral (EphemeralContainers imgs)))]"

text \<open>An error becomes a negative response; a panic does not.\<close>

fun failed :: "responseStruct \<Rightarrow> gerr \<Rightarrow> ResponseData result" where
  "failed response (Err msg) = Inr (VerificationFailed response msg)"
| "failed response (Panic p) = Inl (Panic p)"

definition verifyWith ::
    "('n, 'h) ext \<Rightarrow> VerificationRequest \<Rightarrow> ('n, 'h, 'r) requestVerifier
       \<Rightarrow> (ResponseData, ('n, 'h, 'r) requestVerifier) call" where
  "verifyWith ext requestData rv =
     (case verifyGroups ext (ImageReferences requestData) (groups (order ext) (Images requestData)) (NewResponse, rv) of
        (Inl e, response, rv1) \<Rightarrow> (failed response e, rv1)
      | (Inr _, response, rv1) \<Rightarrow>
          (case BuildAttestationList (wildcard_Match ext) (order ext) (Attestations requestData) response of
             Inl e \<Rightarrow> (failed response (wrap ''failed to create attestation list'' e), rv1)
           | Inr response1 \<Rightarrow>
               (case verifyAttestations ext response1 rv1 of
                  (Inl e, rv2) \<Rightarrow> (failed response1 (wrap ''failed to verify attestations'' e), rv2)
                | (Inr _, rv2) \<Rightarrow> (Inr (VerificationSucceeded response1 []), rv2))))"

definition verifyImagesAndAttestations ::
    "('n, 'h) ext \<Rightarrow> VerificationRequest \<Rightarrow> ('n, 'h, 'r) verifier
       \<Rightarrow> (ResponseData, ('n, 'h, 'r) verifier) call" where
  "verifyImagesAndAttestations ext requestData v =
     (case GetVerifier (getenv ext) (notationVerifierFactory v) requestData of
        Inl e \<Rightarrow> (failed NewResponse (wrap ''failed to create notation verifier'' e), v)
      | Inr nv \<Rightarrow>
          (case getKeychain ext v of
             Inl e \<Rightarrow>
               (failed NewResponse (wrap ''failed to get remote options: failed to retrieve credentials'' e), v)
           | Inr kc \<Rightarrow>
               (case getRemoteOpts ext kc of
                  Inl e \<Rightarrow> (failed NewResponse (wrap ''failed to get remote options'' e), v)
                | Inr remoteOpts \<Rightarrow>
                    (case getPluginConfig ext v of
                       Inl e \<Rightarrow> (failed NewResponse e, v)
                     | Inr pluginConfig \<Rightarrow>
                         (case verifyWith ext requestData
                                 \<lparr> rv_verifier = v, notationVerifier = nv,
                                   rv_trustPolicy = getTrustPolicy (getenv ext) requestData,
                                   rv_keychain = kc, rv_remoteOpts = remoteOpts,
                                   rv_pluginConfig = pluginConfig \<rparr> of
                            (r, rv') \<Rightarrow> (r, rv_verifier rv'))))))"

section \<open>What verdicts rest on\<close>

text \<open>The payload of referrer \<open>r\<close>: the single layer of its manifest, fetched from the repository.\<close>

definition payload_of ::
    "('n, 'h) ext \<Rightarrow> 'h gcrOption list \<Rightarrow> name_Reference \<Rightarrow> v1_Descriptor \<Rightarrow> 'h \<Rightarrow> bool" where
  "payload_of ext opts ref r payload \<longleftrightarrow>
     (\<exists>k m layer k' content.
        fst (gcr_Get ext opts (Context_Digest ext (ref_Context ref) (desc_Digest r)) k) = Inr m
        \<and> unmarshal_Layers ext (gcr_Manifest m) = Inr [layer]
        \<and> fst (gcr_Layer ext opts (Context_Digest ext (ref_Context ref) layer) k') = Inr (Inr content)
        \<and> decode_payload ext content = Inr payload)"

definition conditions_hold ::
    "('n, 'h) ext \<Rightarrow> 'h gcrOption list \<Rightarrow> name_Reference \<Rightarrow> v1_Descriptor \<Rightarrow> AnyAllConditions list \<Rightarrow> bool" where
  "conditions_hold ext opts ref r cs \<longleftrightarrow>
     (\<exists>payload ctx msg. payload_of ext opts ref r payload \<and> AddJSONObject ext payload = Inr ctx
        \<and> EvaluateAnyAllConditions ext ctx cs = Inr (True, msg))"

text \<open>\<open>r\<close> is a referrer of the manifest the registry has for image \<open>img\<close>.\<close>

definition refers_to ::
    "('n, 'h) ext \<Rightarrow> 'h gcrOption list \<Rightarrow> string \<Rightarrow> name_Reference \<Rightarrow> v1_Descriptor \<Rightarrow> bool" where
  "refers_to ext opts img ref r \<longleftrightarrow>
     name_ParseReference ext img = Inr ref
     \<and> (\<exists>k hd k' rs. fst (gcr_Head ext opts ref k) = Inr hd
          \<and> fst (gcr_Referrers ext opts (Context_Digest ext (ref_Context ref) (desc_Digest hd)) k') = Inr (Inr rs)
          \<and> r \<in> set rs)"

definition attestation_verified ::
    "('n, 'h) ext \<Rightarrow> 'h gcrOption list \<Rightarrow> 'n \<Rightarrow> string \<Rightarrow> string \<Rightarrow> AnyAllConditions list \<Rightarrow> bool" where
  "attestation_verified ext opts nv img ty cs \<longleftrightarrow>
     (\<exists>ref r d. refers_to ext opts img ref r \<and> desc_ArtifactType r = ty
        \<and> verified_as ext opts nv (getReference (desc_Digest r) ref) d \<and> d \<noteq> []
        \<and> (cs \<noteq> [] \<longrightarrow> conditions_hold ext opts ref r cs))"

text \<open>The trust policy of the request skips verification of such a referrer.\<close>

definition attestation_skipped ::
    "('n, 'h) ext \<Rightarrow> 'h gcrOption list \<Rightarrow> 'n \<Rightarrow> string \<Rightarrow> string \<Rightarrow> bool" where
  "attestation_skipped ext opts nv img ty \<longleftrightarrow>
     (\<exists>ref r. refers_to ext opts img ref r \<and> desc_ArtifactType r = ty
        \<and> verified_as ext opts nv (getReference (desc_Digest r) ref) [])"

section \<open>The cache invariant\<close>

text \<open>
  \<open>P\<close> says what a cached image stands for, \<open>Q\<close> what a cached attestation stands for. \<open>covers\<close>: the
  verdicts of this request satisfy them.
\<close>

type_synonym image_verdicts = "string \<times> string \<Rightarrow> Image \<Rightarrow> bool"
type_synonym attestation_verdicts = "att_key \<Rightarrow> unit \<Rightarrow> bool"

definition cache_inv :: "image_verdicts \<Rightarrow> attestation_verdicts \<Rightarrow> 'r cache \<Rightarrow> bool" where
  "cache_inv P Q c \<longleftrightarrow>
     cache_ok c \<and> justified image_lookup image_adm P c \<and> justified att_lookup att_adm Q c"

definition covers ::
    "('n, 'h) ext \<Rightarrow> 'h gcrOption list \<Rightarrow> 'n \<Rightarrow> string \<Rightarrow> image_verdicts \<Rightarrow> attestation_verdicts \<Rightarrow> bool" where
  "covers ext opts nv tp P Q \<longleftrightarrow>
     (\<forall>img d. verified_as ext opts nv (image_String ext img) d \<longrightarrow>
        P (tp, image_String ext img) (img\<lparr> img_Digest := d \<rparr>))
     \<and> (\<forall>img ty cs. attestation_verified ext opts nv img ty cs \<longrightarrow> Q (tp, img, ty, cs) ())"

lemma cache_inv_AddImage:
  assumes "cache_inv P Q c" and "no_sep tp" "no_sep ref" and "P (tp, ref) img"
  shows "cache_inv P Q (snd (AddImage c tp ref img))"
proof -
  have ok: "cache_ok c" using assms(1) by (simp add: cache_inv_def)
  have "justified image_lookup image_adm P (image_put c (tp, ref) img)"
    using assms by (intro images.justified_put) (auto simp: cache_inv_def image_adm_def)
  moreover have "justified att_lookup att_adm Q (snd (AddImage c tp ref img))"
    using assms(1) GetAttestation_AddImage [OF ok assms(2,3)]
    by (fastforce simp: cache_inv_def justified_def split: if_splits)
  ultimately show ?thesis
    using ok by (simp add: cache_inv_def cache_ok_def image_put_def)
qed

lemma cache_inv_AddAttestation:
  assumes "cache_inv P Q c" and "no_sep tp" "no_sep ref" "no_sep ty" and "Q (tp, ref, ty, cs) ()"
  shows "cache_inv P Q (snd (AddAttestation c tp ref ty cs))"
proof -
  have ok: "cache_ok c" using assms(1) by (simp add: cache_inv_def)
  have "justified att_lookup att_adm Q (att_put c (tp, ref, ty, cs) ())"
    using assms by (intro attestations.justified_put) (auto simp: cache_inv_def)
  moreover have "justified image_lookup image_adm P (snd (AddAttestation c tp ref ty cs))"
    using assms(1) GetImage_AddAttestation [OF ok]
    by (fastforce simp: cache_inv_def justified_def image_lookup_def)
  ultimately show ?thesis
    using ok by (simp add: cache_inv_def cache_ok_def)
qed

lemma cache_inv_image: "cache_inv P Q c \<Longrightarrow> no_sep tp \<Longrightarrow> GetImage c tp ref = Some img \<Longrightarrow> P (tp, ref) img"
  using justifiedD [of image_lookup image_adm P c "(tp, ref)" img]
  by (simp add: cache_inv_def image_lookup_def image_adm_def)

lemma cache_inv_attestation:
  "cache_inv P Q c \<Longrightarrow> no_sep tp \<Longrightarrow> no_sep ref \<Longrightarrow> no_sep ty \<Longrightarrow> GetAttestation c tp ref ty cs \<Longrightarrow>
     Q (tp, ref, ty, cs) ()"
  using justifiedD [of att_lookup att_adm Q c "(tp, ref, ty, cs)" "()"] by (simp add: cache_inv_def)

text \<open>A step of a request that keeps the invariant.\<close>

definition sound_step :: "image_verdicts \<Rightarrow> attestation_verdicts
    \<Rightarrow> ('n, 'h, 'r) requestVerifier \<Rightarrow> ('n, 'h, 'r) requestVerifier \<Rightarrow> bool" where
  "sound_step P Q rv rv' \<longleftrightarrow>
     same_request rv rv' \<and> (cache_inv P Q (rv_cache rv) \<longrightarrow> cache_inv P Q (rv_cache rv'))"

interpretation sound: frame "sound_step P Q" for P Q
  by unfold_locales (auto simp: sound_step_def intro: same_request_trans)

lemma sound_step_refl [simp]: "sound_step P Q rv rv"
  by (rule sound.frame_refl)

lemma quiet_sound_step: "quiet rv rv' \<Longrightarrow> sound_step P Q rv rv'"
  by (simp add: sound_step_def quietD)

abbreviation covered :: "('n, 'h) ext \<Rightarrow> ('n, 'h, 'r) requestVerifier
    \<Rightarrow> image_verdicts \<Rightarrow> attestation_verdicts \<Rightarrow> bool" where
  "covered ext rv P Q \<equiv> covers ext (rv_remoteOpts rv) (notationVerifier rv) (rv_trustPolicy rv) P Q"

section \<open>Attestations are sound\<close>

lemma quiet_fetch [simp]: "quiet rv (snd (fetchAndExtractPayload ext ref r rv))"
  by (auto simp: fetchAndExtractPayload_def intro!: quiet.frame_andThen split: sum.splits)

lemma quiet_verifyConditions [simp]: "quiet rv (snd (verifyConditions ext ref r cs rv))"
  by (auto simp: verifyConditions_def intro!: quiet.frame_andThen split: sum.splits)

lemma remote_quiet: "remote call rv = (x, rv') \<Longrightarrow> quiet rv rv'"
  by (metis quiet_remote snd_conv)

lemma verifyConditions_quiet: "verifyConditions ext ref r cs rv = (x, rv') \<Longrightarrow> quiet rv rv'"
  by (metis quiet_verifyConditions snd_conv)

lemma fetch_ok:
  assumes "fetchAndExtractPayload ext ref r rv = (Inr payload, rv')"
  shows "payload_of ext (rv_remoteOpts rv) ref r payload"
proof -
  from assms obtain m rv1 layers where
    m: "remote (gcr_Get ext (rv_remoteOpts rv) (Context_Digest ext (ref_Context ref) (desc_Digest r))) rv = (Inr m, rv1)"
    and l: "unmarshal_Layers ext (gcr_Manifest m) = Inr layers"
    by (auto simp: fetchAndExtractPayload_def ok_iffs)
  from remote_quiet [OF m] have opts: "rv_remoteOpts rv1 = rv_remoteOpts rv"
    by (simp add: quietD)
  from assms m l obtain layer content where "layers = [layer]"
    and c: "remote (gcr_Layer ext (rv_remoteOpts rv1) (Context_Digest ext (ref_Context ref) layer)) rv1 = (Inr (Inr content), rv')"
    and d: "decode_payload ext content = Inr payload"
    by (cases layers) (auto simp: fetchAndExtractPayload_def ok_iffs)
  with remote_ok [OF m] remote_ok [OF c] l show ?thesis
    unfolding payload_of_def opts by blast
qed

lemma verifyConditions_ok:
  assumes "verifyConditions ext ref r cs rv = (Inr u, rv')"
  shows "conditions_hold ext (rv_remoteOpts rv) ref r cs"
  using assms unfolding conditions_hold_def
  by (fastforce simp: verifyConditions_def ok_iffs dest: fetch_ok)

lemma verifyReferrer_ok:
  assumes "verifyReferrer ext img ref r cs rv = (Inr u, rv')"
    and "refers_to ext (rv_remoteOpts rv) img ref r"
  shows "attestation_verified ext (rv_remoteOpts rv) (notationVerifier rv) img (desc_ArtifactType r) cs
    \<or> attestation_skipped ext (rv_remoteOpts rv) (notationVerifier rv) img (desc_ArtifactType r)"
proof -
  from assms(1) obtain d rv1 where d: "verifyReferences ext (getReference (desc_Digest r) ref) rv = (Inr d, rv1)"
    and rest: "d \<noteq> [] \<Longrightarrow> cs \<noteq> [] \<Longrightarrow> \<exists>rv2. verifyConditions ext ref r cs rv1 = (Inr (), rv2)"
    by (auto simp: verifyReferrer_def andThen_ok_iff split: if_splits)
  from verifyReferences_ok [OF d]
  have v: "verified_as ext (rv_remoteOpts rv) (notationVerifier rv) (getReference (desc_Digest r) ref) d"
    and opts: "rv_remoteOpts rv1 = rv_remoteOpts rv"
    by (auto dest: quietD)
  show ?thesis
  proof (cases "d = []")
    case True
    with v assms(2) show ?thesis unfolding attestation_skipped_def by blast
  next
    case False
    with rest opts have "cs \<noteq> [] \<Longrightarrow> conditions_hold ext (rv_remoteOpts rv) ref r cs"
      by (metis verifyConditions_ok)
    with False v assms(2) show ?thesis unfolding attestation_verified_def by blast
  qed
qed

lemma verifyReferrer_step:
  assumes "covered ext rv P Q" and "refers_to ext (rv_remoteOpts rv) img ref r"
    and "no_sep (rv_trustPolicy rv)" "no_sep img" "no_sep (desc_ArtifactType r)"
  shows "sound_step P Q rv (snd (verifyReferrer ext img ref r cs rv))"
proof -
  let ?verify = "verifyReferences ext (getReference (desc_Digest r) ref) rv"
  let ?conds = "\<lambda>rv1. if length cs \<noteq> 0
      then wrapErr (''failed to verify conditions '' @ ref_String ref @ '' '' @ desc_Digest r) (verifyConditions ext ref r cs rv1)
      else (Inr (), rv1)"
  have add: "sound_step P Q rv2 (set_cache rv2 (snd (AddAttestation (rv_cache rv2) (rv_trustPolicy rv2) img (desc_ArtifactType r) cs)))"
    if d: "?verify = (Inr d, rv1)" "d \<noteq> []" and c: "?conds rv1 = (Inr (), rv2)" for d rv1 rv2
  proof -
    from d verifyReferences_ok [OF d(1)] have q1: "quiet rv rv1"
      and v: "verified_as ext (rv_remoteOpts rv) (notationVerifier rv) (getReference (desc_Digest r) ref) d" by auto
    from c have q2: "quiet rv1 rv2"
      by (auto split: if_splits dest: verifyConditions_quiet)
    have "cs \<noteq> [] \<Longrightarrow> conditions_hold ext (rv_remoteOpts rv) ref r cs"
      using c verifyConditions_ok [of ext ref r cs rv1] quietD [OF q1] by auto
    with v d(2) assms(2) have "attestation_verified ext (rv_remoteOpts rv) (notationVerifier rv) img (desc_ArtifactType r) cs"
      unfolding attestation_verified_def by blast
    with assms(1) have "Q (rv_trustPolicy rv, img, desc_ArtifactType r, cs) ()"
      by (simp add: covers_def)
    with assms(3-5) quietD [OF q1] quietD [OF q2] show ?thesis
      by (auto simp: sound_step_def intro: cache_inv_AddAttestation)
  qed
  show ?thesis
    unfolding verifyReferrer_def
  proof (rule sound.frame_andThen, goal_cases)
    case 1
    then show ?case by (simp add: quiet_sound_step)
  next
    case (2 d rv1)
    then have d: "?verify = (Inr d, rv1)" by simp
    show ?case
    proof (cases "d = []")
      case False
      have run: "sound_step P Q rv1 (snd (andThen (?conds rv1) f))"
        if f: "\<And>u rv2. snd (f u rv2) = set_cache rv2 (snd (AddAttestation (rv_cache rv2) (rv_trustPolicy rv2) img (desc_ArtifactType r) cs))"
        for f :: "unit \<Rightarrow> ('a, 'b, 'c) requestVerifier \<Rightarrow> (unit, ('a, 'b, 'c) requestVerifier) call"
      proof (rule sound.frame_andThen)
        show "sound_step P Q rv1 (snd (?conds rv1))" by (simp add: quiet_sound_step)
        show "sound_step P Q rv2 (snd (f u rv2))" if "?conds rv1 = (Inr u, rv2)" for u rv2
          using that add [OF d False, of rv2] by (simp only: f) simp
      qed
      from False have "(length d = 0) = False" by simp
      then show ?thesis by (simp only: if_False) (rule run, rule snd_case_call)
    qed simp
  qed
qed

text \<open>A required attestation is met: it stands in the cache for a verdict that satisfies \<open>Q\<close>, now or
  from before, or the trust policy skips it.\<close>

definition attested ::
    "('n, 'h) ext \<Rightarrow> ('n, 'h, 'r) requestVerifier \<Rightarrow> attestation_verdicts \<Rightarrow> string \<Rightarrow> string
       \<Rightarrow> AnyAllConditions list \<Rightarrow> bool" where
  "attested ext rv Q img ty cs \<longleftrightarrow>
     Q (rv_trustPolicy rv, img, ty, cs) ()
     \<or> attestation_skipped ext (rv_remoteOpts rv) (notationVerifier rv) img ty"

definition seps_ok :: "('n, 'h, 'r) requestVerifier \<Rightarrow> string \<Rightarrow> AttestationList \<Rightarrow> bool" where
  "seps_ok rv img atts \<longleftrightarrow>
     no_sep (rv_trustPolicy rv) \<and> no_sep img \<and> (\<forall>ty \<in> fst ` set atts. no_sep ty)"

lemma same_request_transfer:
  assumes "same_request rv rv'"
  shows "covered ext rv' P Q = covered ext rv P Q" "attested ext rv' Q img ty cs = attested ext rv Q img ty cs"
    "seps_ok rv' img atts = seps_ok rv img atts" "refers_to ext (rv_remoteOpts rv') = refers_to ext (rv_remoteOpts rv)"
  using same_request_fields [OF assms] by (simp_all add: attested_def seps_ok_def)

lemma sound_stepD:
  "sound_step P Q rv rv' \<Longrightarrow> cache_inv P Q (rv_cache rv) \<Longrightarrow> same_request rv rv' \<and> cache_inv P Q (rv_cache rv')"
  by (simp add: sound_step_def)

lemma verifyReferrers_sound:
  assumes "covered ext rv P Q" and "seps_ok rv img atts" and "cache_inv P Q (rv_cache rv)"
    and "\<forall>r \<in> set rs. refers_to ext (rv_remoteOpts rv) img ref r"
  shows "sound_step P Q rv (snd (verifyReferrers ext img ref atts rs rv))
    \<and> (is_ok (fst (verifyReferrers ext img ref atts rs rv)) \<longrightarrow>
         (\<forall>r \<in> set rs. \<forall>cs. map_of atts (desc_ArtifactType r) = Some cs \<longrightarrow>
            attested ext rv Q img (desc_ArtifactType r) cs))"
  using assms
proof (induction rs arbitrary: rv)
  case Nil
  then show ?case by simp
next
  case (Cons r rs)
  note IH = Cons.IH [OF Cons.prems(1-3)]
  show ?case
  proof (cases "map_of atts (desc_ArtifactType r)")
    case None
    with IH Cons.prems(4) show ?thesis by simp
  next
    case (Some cs)
    then have "no_sep (desc_ArtifactType r)"
      using Cons.prems(2) by (force simp: seps_ok_def dest: map_of_SomeD)
    with Cons.prems(2) have sep: "no_sep (rv_trustPolicy rv)" "no_sep img" "no_sep (desc_ArtifactType r)"
      by (simp_all add: seps_ok_def)
    show ?thesis
    proof (cases "GetAttestation (rv_cache rv) (rv_trustPolicy rv) img (desc_ArtifactType r) cs")
      case True
      with sep Cons.prems(3) have "attested ext rv Q img (desc_ArtifactType r) cs"
        by (simp add: attested_def cache_inv_attestation)
      with True Some IH Cons.prems(4) show ?thesis by simp
    next
      case False
      let ?m = "verifyReferrer ext img ref r cs rv"
      have step: "sound_step P Q rv (snd ?m)"
        using Cons.prems sep by (intro verifyReferrer_step) auto
      show ?thesis
      proof (cases "fst ?m")
        case (Inl e)
        then have "verifyReferrers ext img ref atts (r # rs) rv = (Inl e, snd ?m)"
          by (simp add: Some False andThen_fst)
        with step show ?thesis by simp
      next
        case (Inr u)
        define rv1 where "rv1 = snd ?m"
        then have m: "?m = (Inr u, rv1)" using Inr by (simp add: prod_eq_iff)
        from step Cons.prems(3) have s1: "same_request rv rv1" "cache_inv P Q (rv_cache rv1)"
          by (auto simp: rv1_def dest: sound_stepD)
        have "attested ext rv Q img (desc_ArtifactType r) cs"
          using verifyReferrer_ok [OF m] Cons.prems(1,4) by (auto simp: attested_def covers_def)
        moreover have "sound_step P Q rv1 (snd (verifyReferrers ext img ref atts rs rv1))
            \<and> (is_ok (fst (verifyReferrers ext img ref atts rs rv1)) \<longrightarrow>
                 (\<forall>r \<in> set rs. \<forall>cs. map_of atts (desc_ArtifactType r) = Some cs \<longrightarrow>
                    attested ext rv Q img (desc_ArtifactType r) cs))"
          using Cons.IH [of rv1] Cons.prems s1 by (simp add: same_request_transfer)
        moreover have "verifyReferrers ext img ref atts (r # rs) rv = verifyReferrers ext img ref atts rs rv1"
          by (simp add: Some False m)
        ultimately show ?thesis
          using step sound.frame_trans [of P Q rv rv1] Some by (auto simp: rv1_def)
      qed
    qed
  qed
qed

text \<open>Past the cache check, \<^verbatim>\<open>verifyAttestation\<close> either fails without touching the verdict cache or
  runs the loop over the referrers of the image, among which every required type occurs.\<close>

lemma verifyAttestation_shape:
  assumes "range_order (order ext)" and "wf_map atts" and "atts \<noteq> []"
    and "\<not> checkAllAttestationsForImage ext rv img atts"
  shows "(\<not> is_ok (fst (verifyAttestation ext img atts rv)) \<and> quiet rv (snd (verifyAttestation ext img atts rv)))
    \<or> (\<exists>ref rs rv'. quiet rv rv' \<and> (\<forall>r \<in> set rs. refers_to ext (rv_remoteOpts rv) img ref r)
         \<and> fst ` set atts \<subseteq> desc_ArtifactType ` set rs
         \<and> verifyAttestation ext img atts rv = verifyReferrers ext img ref atts rs rv')"
proof (cases "name_ParseReference ext img")
  case (Inl e)
  with assms(3,4) show ?thesis by (auto simp: verifyAttestation_def)
next
  case ref: (Inr ref)
  let ?head = "remote (gcr_Head ext (rv_remoteOpts rv) ref) rv"
  show ?thesis
  proof (cases "fst ?head")
    case (Inl e)
    then have "?head = (Inl e, snd ?head)" by (simp add: prod_eq_iff)
    then show ?thesis
      using assms(3,4) quiet_remote [of rv "gcr_Head ext (rv_remoteOpts rv) ref"]
      by (cases ?head) (auto simp: verifyAttestation_def ref)
  next
    case (Inr hd)
    then obtain rv1 where head: "?head = (Inr hd, rv1)" by (metis prod.collapse)
    then have q1: "quiet rv rv1" and h: "fst (gcr_Head ext (rv_remoteOpts rv) ref (providerKeychain (rv_verifier rv))) = Inr hd"
      by (auto dest: remote_quiet remote_ok)
    let ?refs = "remote (gcr_Referrers ext (rv_remoteOpts rv1) (Context_Digest ext (ref_Context ref) (desc_Digest hd))) rv1"
    obtain x rv2 where refs: "?refs = (x, rv2)" by fastforce
    then have q2: "quiet rv rv2" using q1 remote_quiet quiet.frame_trans by blast
    show ?thesis
    proof (cases "\<exists>rs u. x = Inr (Inr rs) \<and> matchAttestations (order ext) img atts rs = Inr u")
      case True
      then obtain rs u where x: "x = Inr (Inr rs)" and mt: "matchAttestations (order ext) img atts rs = Inr u" by blast
      have "fst (gcr_Referrers ext (rv_remoteOpts rv) (Context_Digest ext (ref_Context ref) (desc_Digest hd))
          (providerKeychain (rv_verifier rv1))) = Inr (Inr rs)"
        using remote_ok [of _ rv1 "Inr rs" rv2] refs quietD [OF q1] by (simp add: x)
      with h ref have "\<forall>r \<in> set rs. refers_to ext (rv_remoteOpts rv) img ref r"
        unfolding refers_to_def by blast
      moreover have "fst ` set atts \<subseteq> desc_ArtifactType ` set rs"
        using mt matchAttestations_ok_iff [OF assms(1,2)] by blast
      moreover have "verifyAttestation ext img atts rv = verifyReferrers ext img ref atts rs rv2"
        using assms(3,4) by (simp add: verifyAttestation_def ref head refs x mt)
      ultimately show ?thesis using q2 by blast
    next
      case False
      then have "\<not> is_ok (fst (verifyAttestation ext img atts rv)) \<and> snd (verifyAttestation ext img atts rv) = rv2"
        using assms(3,4) by (cases x) (auto simp: verifyAttestation_def ref head refs split: sum.splits)
      with q2 show ?thesis by simp
    qed
  qed
qed

lemma verifyAttestation_sound:
  assumes "covered ext rv P Q" and "seps_ok rv img atts" and "cache_inv P Q (rv_cache rv)"
    and "range_order (order ext)" and "wf_map atts"
  shows "sound_step P Q rv (snd (verifyAttestation ext img atts rv))
    \<and> (is_ok (fst (verifyAttestation ext img atts rv)) \<longrightarrow>
         (\<forall>ty cs. map_of atts ty = Some cs \<longrightarrow> attested ext rv Q img ty cs))"
proof (cases "atts = []")
  case True
  then show ?thesis by (simp add: verifyAttestation_def)
next
  case ne: False
  show ?thesis
  proof (cases "checkAllAttestationsForImage ext rv img atts")
    case True
    have "attested ext rv Q img ty cs" if "map_of atts ty = Some cs" for ty cs
    proof -
      from that True have "GetAttestation (rv_cache rv) (rv_trustPolicy rv) img ty cs"
        using set_range_map [OF assms(4,5)]
        by (auto simp: checkAllAttestationsForImage_def list_all_iff dest: map_of_SomeD)
      moreover have "no_sep (rv_trustPolicy rv)" "no_sep img" "no_sep ty"
        using assms(2) that by (force simp: seps_ok_def dest: map_of_SomeD)+
      ultimately show ?thesis
        using assms(3) by (simp add: attested_def cache_inv_attestation)
    qed
    with True show ?thesis by (simp add: verifyAttestation_def)
  next
    case False
    from verifyAttestation_shape [OF assms(4,5) ne False] show ?thesis
    proof (elim disjE conjE exE)
      fix ref rs rv'
      assume q: "quiet rv rv'" and rs: "\<forall>r \<in> set rs. refers_to ext (rv_remoteOpts rv) img ref r"
        and types: "fst ` set atts \<subseteq> desc_ArtifactType ` set rs"
        and run: "verifyAttestation ext img atts rv = verifyReferrers ext img ref atts rs rv'"
      have q': "same_request rv rv'" "rv_cache rv' = rv_cache rv" using quietD [OF q] by auto
      have sound: "sound_step P Q rv' (snd (verifyReferrers ext img ref atts rs rv'))
          \<and> (is_ok (fst (verifyReferrers ext img ref atts rs rv')) \<longrightarrow>
              (\<forall>r \<in> set rs. \<forall>cs. map_of atts (desc_ArtifactType r) = Some cs \<longrightarrow>
                 attested ext rv Q img (desc_ArtifactType r) cs))"
        using verifyReferrers_sound [of ext rv' P Q img atts rs ref] assms(1-3) rs q'
        by (simp add: same_request_transfer)
      moreover have "\<exists>r \<in> set rs. desc_ArtifactType r = ty" if "map_of atts ty = Some cs" for ty cs
        using that types by (force dest: map_of_SomeD)
      ultimately show ?thesis
        using sound.frame_trans quiet_sound_step [OF q] unfolding run by blast
    qed (simp add: quiet_sound_step)
  qed
qed

lemma verifyAttestationsLoop_sound:
  assumes "covered ext rv P Q" and "cache_inv P Q (rv_cache rv)" and "range_order (order ext)"
    and "\<forall>(img, atts) \<in> set ls. seps_ok rv img atts \<and> wf_map atts"
  shows "sound_step P Q rv (snd (verifyAttestationsLoop ext ls rv))
    \<and> (is_ok (fst (verifyAttestationsLoop ext ls rv)) \<longrightarrow>
         (\<forall>(img, atts) \<in> set ls. \<forall>ty cs. map_of atts ty = Some cs \<longrightarrow> attested ext rv Q img ty cs))"
  using assms
proof (induction ls arbitrary: rv)
  case Nil
  then show ?case by simp
next
  case (Cons l ls)
  obtain img atts where l: "l = (img, atts)" by (cases l)
  let ?m = "verifyAttestation ext img atts rv"
  have snd_m: "sound_step P Q rv (snd ?m)"
    and ok_m: "is_ok (fst ?m) \<longrightarrow> (\<forall>ty cs. map_of atts ty = Some cs \<longrightarrow> attested ext rv Q img ty cs)"
    using verifyAttestation_sound [of ext rv P Q img atts] Cons.prems by (auto simp: l)
  show ?case
  proof (cases "fst ?m")
    case (Inl e)
    then have "verifyAttestationsLoop ext (l # ls) rv = (Inl (wrap ''failed to verify attestations'' e), snd ?m)"
      by (cases ?m) (simp add: l)
    with snd_m show ?thesis by simp
  next
    case (Inr u)
    define rv1 where "rv1 = snd ?m"
    have run: "verifyAttestationsLoop ext (l # ls) rv = verifyAttestationsLoop ext ls rv1"
      using Inr by (cases ?m) (simp add: l rv1_def)
    from snd_m Cons.prems(2) have s1: "same_request rv rv1" "cache_inv P Q (rv_cache rv1)"
      by (auto simp: rv1_def dest: sound_stepD)
    have "sound_step P Q rv1 (snd (verifyAttestationsLoop ext ls rv1))
      \<and> (is_ok (fst (verifyAttestationsLoop ext ls rv1)) \<longrightarrow>
           (\<forall>(img, atts) \<in> set ls. \<forall>ty cs. map_of atts ty = Some cs \<longrightarrow> attested ext rv Q img ty cs))"
      using Cons.IH [of rv1] Cons.prems s1 by (simp add: same_request_transfer)
    with snd_m ok_m Inr sound.frame_trans [of P Q rv rv1] show ?thesis
      unfolding run by (auto simp: l rv1_def)
  qed
qed

section \<open>Images are sound\<close>

lemma verifyImageInfo_sound:
  assumes "covered ext rv P Q" and "cache_inv P Q (rv_cache rv)"
    and "no_sep (rv_trustPolicy rv)" "no_sep (image_String ext (info_Image info))"
  shows "sound_step P Q rv (snd (verifyImageInfo ext info rv))
    \<and> (\<forall>res. fst (verifyImageInfo ext info rv) = Inr res \<longrightarrow>
         (\<exists>img. res = info\<lparr> info_Image := img \<rparr> \<and> P (rv_trustPolicy rv, image_String ext (info_Image info)) img))"
proof (cases "GetImage (rv_cache rv) (rv_trustPolicy rv) (image_String ext (info_Image info))")
  case (Some img)
  with assms show ?thesis
    by (auto simp: verifyImageInfo_def cache_inv_image)
next
  case None
  let ?ref = "image_String ext (info_Image info)"
  let ?m = "verifyReferences ext ?ref rv"
  show ?thesis
  proof (cases "fst ?m")
    case (Inl e)
    then have "verifyImageInfo ext info rv = (Inl (wrap (''failed to verify image '' @ ?ref) e), snd ?m)"
      by (cases ?m) (simp add: verifyImageInfo_def None)
    then show ?thesis by (simp add: quiet_sound_step)
  next
    case (Inr d)
    then obtain rv1 where m: "?m = (Inr d, rv1)" by (metis prod.collapse)
    let ?img = "(info_Image info)\<lparr> img_Digest := d \<rparr>"
    have q: "quiet rv rv1" and v: "verified_as ext (rv_remoteOpts rv) (notationVerifier rv) ?ref d"
      using verifyReferences_ok [OF m] by auto
    then have PP: "P (rv_trustPolicy rv, ?ref) ?img"
      using assms(1) by (simp add: covers_def)
    have run: "verifyImageInfo ext info rv =
        (Inr (info\<lparr> info_Image := ?img \<rparr>), set_cache rv1 (snd (AddImage (rv_cache rv1) (rv_trustPolicy rv1) ?ref ?img)))"
      by (cases "AddImage (rv_cache rv1) (rv_trustPolicy rv1) ?ref ?img")
        (use ops_AddImage(3) [of "rv_cache rv1" "rv_trustPolicy rv1" ?ref ?img] in
          \<open>simp add: verifyImageInfo_def Let_def None m\<close>)
    have "cache_inv P Q (snd (AddImage (rv_cache rv1) (rv_trustPolicy rv1) ?ref ?img))"
      using assms PP quietD [OF q] by (auto intro: cache_inv_AddImage)
    then have "sound_step P Q rv (snd (verifyImageInfo ext info rv))"
      using quietD [OF q] same_request_trans [of rv rv1] by (simp add: run sound_step_def)
    with PP show ?thesis by (auto simp: run)
  qed
qed

text \<open>A run over some images pairs each selected image with the verdict it got. The response grows
  by one patch for every verdict with a digest; an empty digest means that the trust policy
  skips the image.\<close>

type_synonym verdict = "ImageInfo \<times> Image"

definition patches :: "('n, 'h) ext \<Rightarrow> verdict list \<Rightarrow> Operation list" where
  "patches ext vs =
     map (\<lambda>(info, img). patch_of (image_String ext) (info\<lparr> info_Image := img \<rparr>)) (filter (\<lambda>(info, img). img_Digest img \<noteq> []) vs)"

definition pinned :: "('n, 'h) ext \<Rightarrow> verdict list \<Rightarrow> string set" where
  "pinned ext vs =
     (\<lambda>(info, img). image_String ext (info_Image info)) ` set (filter (\<lambda>(info, img). img_Digest img \<noteq> []) vs)"

definition fresh_response :: "responseStruct \<Rightarrow> bool" where
  "fresh_response r \<longleftrightarrow> wf_map (imageList r) \<and> (\<forall>(k, atts) \<in> set (imageList r). atts = [])"

definition grown :: "('n, 'h) ext \<Rightarrow> verdict list \<Rightarrow> responseStruct \<Rightarrow> responseStruct \<Rightarrow> bool" where
  "grown ext vs r r' \<longleftrightarrow>
     Verified (responseData r') = Verified (responseData r)
     \<and> Results (responseData r') = Results (responseData r) @ patches ext vs
     \<and> fst ` set (imageList r') = fst ` set (imageList r) \<union> pinned ext vs
     \<and> (fresh_response r \<longrightarrow> fresh_response r')"

definition good_verdicts :: "('n, 'h) ext \<Rightarrow> string \<Rightarrow> image_verdicts \<Rightarrow> verdict list \<Rightarrow> bool" where
  "good_verdicts ext tp P vs \<longleftrightarrow> (\<forall>(info, img) \<in> set vs. P (tp, image_String ext (info_Image info)) img)"

lemma verdicts_Nil [simp]: "patches ext [] = []" "pinned ext [] = {}" "good_verdicts ext tp P []" "grown ext [] r r"
  by (simp_all add: patches_def pinned_def good_verdicts_def grown_def)

lemma good_verdicts_append [simp]:
  "good_verdicts ext tp P (vs @ ws) \<longleftrightarrow> good_verdicts ext tp P vs \<and> good_verdicts ext tp P ws"
  by (auto simp: good_verdicts_def)

lemma grown_trans: "grown ext vs r r' \<Longrightarrow> grown ext ws r' r'' \<Longrightarrow> grown ext (vs @ ws) r r''"
  by (auto simp: grown_def patches_def pinned_def)

lemma fresh_response_AddImage: "fresh_response r \<Longrightarrow> fresh_response (AddImage_response f r k i)"
  using set_map_set [of "imageList r" k "[]"] by (fastforce simp: fresh_response_def AddImage_response_def)

lemma grown_AddImage:
  "img_Digest img \<noteq> [] \<Longrightarrow>
     grown ext [(info, img)] r (AddImage_response (image_String ext) r (image_String ext (info_Image info)) (info\<lparr> info_Image := img \<rparr>))"
  using fresh_response_AddImage [of r "image_String ext" "image_String ext (info_Image info)" "info\<lparr> info_Image := img \<rparr>"]
  by (auto simp: grown_def patches_def pinned_def AddImage_response_def)

lemma grown_skip: "img_Digest img = [] \<Longrightarrow> grown ext [(info, img)] r r"
  by (simp add: grown_def patches_def pinned_def)

abbreviation selected :: "('n, 'h) ext \<Rightarrow> string list \<Rightarrow> ImageInfo list \<Rightarrow> ImageInfo list" where
  "selected ext refs infos \<equiv>
     filter (\<lambda>info. matchImageReferences (wildcard_Match ext) refs (image_String ext (info_Image info))) infos"

definition group_sound :: "('n, 'h) ext \<Rightarrow> image_verdicts \<Rightarrow> attestation_verdicts \<Rightarrow> ImageInfo list
    \<Rightarrow> responseStruct \<times> ('n, 'h, 'r) requestVerifier
    \<Rightarrow> (unit, responseStruct \<times> ('n, 'h, 'r) requestVerifier) call \<Rightarrow> bool" where
  "group_sound ext P Q infos s res \<longleftrightarrow>
     sound_step P Q (snd s) (snd (snd res))
     \<and> (is_ok (fst res) \<longrightarrow>
          (\<exists>vs. map fst vs = infos \<and> good_verdicts ext (rv_trustPolicy (snd s)) P vs
              \<and> grown ext vs (fst s) (fst (snd res))))"

lemma group_sound_trans:
  assumes "group_sound ext P Q infos s (Inr u, s')" and "group_sound ext P Q js s' res"
  shows "group_sound ext P Q (infos @ js) s res"
proof -
  from assms(1) have s1: "sound_step P Q (snd s) (snd s')"
    and "\<exists>vs. map fst vs = infos \<and> good_verdicts ext (rv_trustPolicy (snd s)) P vs \<and> grown ext vs (fst s) (fst s')"
    by (auto simp: group_sound_def)
  then obtain vs where vs: "map fst vs = infos" "good_verdicts ext (rv_trustPolicy (snd s)) P vs" "grown ext vs (fst s) (fst s')"
    by blast
  have tp: "rv_trustPolicy (snd s') = rv_trustPolicy (snd s)"
    using s1 same_request_fields by (auto simp: sound_step_def)
  have "\<exists>us. map fst us = infos @ js \<and> good_verdicts ext (rv_trustPolicy (snd s)) P us \<and> grown ext us (fst s) (fst (snd res))"
    if "is_ok (fst res)"
  proof -
    from assms(2) that tp obtain ws where ws: "map fst ws = js" "good_verdicts ext (rv_trustPolicy (snd s)) P ws" "grown ext ws (fst s') (fst (snd res))"
      by (auto simp: group_sound_def)
    with vs show ?thesis
      by (intro exI [of _ "vs @ ws"]) (auto intro: grown_trans)
  qed
  with s1 assms(2) show ?thesis
    by (auto simp: group_sound_def intro: sound.frame_trans)
qed

lemma verifyGroup_sound:
  assumes "covered ext rv P Q" and "cache_inv P Q (rv_cache rv)" and "no_sep (rv_trustPolicy rv)"
    and "\<forall>info \<in> set infos. no_sep (image_String ext (info_Image info))"
  shows "group_sound ext P Q (selected ext refs infos) (response, rv) (verifyGroup ext refs kind infos (response, rv))"
  using assms
proof (induction infos arbitrary: response rv)
  case Nil
  then show ?case by (simp add: group_sound_def)
next
  case (Cons info infos)
  show ?case
  proof (cases "matchImageReferences (wildcard_Match ext) refs (image_String ext (info_Image info))")
    case False
    with Cons show ?thesis by simp
  next
    case True
    let ?m = "verifyImageInfo ext info rv"
    obtain x rv1 where m: "?m = (x, rv1)" by fastforce
    have step: "sound_step P Q rv rv1" and ok: "\<And>res. x = Inr res \<Longrightarrow>
        \<exists>img. res = info\<lparr> info_Image := img \<rparr> \<and> P (rv_trustPolicy rv, image_String ext (info_Image info)) img"
      using verifyImageInfo_sound [of ext rv P Q info] Cons.prems by (auto simp: m)
    have s1: "same_request rv rv1" "cache_inv P Q (rv_cache rv1)"
      using sound_stepD [OF step] Cons.prems(2) by auto
    have rest: "group_sound ext P Q (selected ext refs infos) (response', rv1) (verifyGroup ext refs kind infos (response', rv1))" for response'
      using Cons.IH [of rv1] Cons.prems s1 same_request_fields [OF s1(1)] by simp
    show ?thesis
    proof (cases x)
      case (Inl e)
      with True m step show ?thesis by (simp add: group_sound_def)
    next
      case (Inr res)
      then obtain img where img: "res = info\<lparr> info_Image := img \<rparr>" "P (rv_trustPolicy rv, image_String ext (info_Image info)) img"
        using ok by blast
      define response' where "response' = (if img_Digest img = [] then response
        else AddImage_response (image_String ext) response (image_String ext (info_Image info)) res)"
      have "grown ext [(info, img)] response response'"
        using grown_skip grown_AddImage by (auto simp: response'_def img(1))
      with step img(2) have "group_sound ext P Q [info] (response, rv) (Inr (), response', rv1)"
        unfolding group_sound_def by (auto simp: good_verdicts_def intro!: exI [of _ "[(info, img)]"])
      from group_sound_trans [OF this rest] True m Inr img(1) show ?thesis
        by (simp add: response'_def split: if_splits)
    qed
  qed
qed

lemma verifyGroups_sound:
  assumes "covered ext (snd s) P Q" and "cache_inv P Q (rv_cache (snd s))" and "no_sep (rv_trustPolicy (snd s))"
    and "\<forall>(kind, infos) \<in> set gs. \<forall>info \<in> set infos. no_sep (image_String ext (info_Image info))"
  shows "group_sound ext P Q (selected ext refs (concat (map snd gs))) s (verifyGroups ext refs gs s)"
  using assms
proof (induction gs arbitrary: s)
  case Nil
  then show ?case by (simp add: group_sound_def)
next
  case (Cons g gs)
  obtain kind infos where g: "g = (kind, infos)" by (cases g)
  obtain x s1 where m: "verifyGroup ext refs kind infos s = (x, s1)" by (rule prod.exhaust)
  have first: "group_sound ext P Q (selected ext refs infos) s (x, s1)"
    using verifyGroup_sound [of ext "snd s" P Q infos refs "fst s" kind] Cons.prems by (simp add: g m)
  show ?case
  proof (cases x)
    case (Inl e)
    with first show ?thesis by (simp add: g m group_sound_def)
  next
    case (Inr u)
    from first Cons.prems(2) have s1: "same_request (snd s) (snd s1)" "cache_inv P Q (rv_cache (snd s1))"
      by (auto simp: group_sound_def dest: sound_stepD)
    have "group_sound ext P Q (selected ext refs (concat (map snd gs))) s1 (verifyGroups ext refs gs s1)"
      using Cons.IH [of s1] Cons.prems s1 same_request_fields [OF s1(1)] by (simp add: g)
    from group_sound_trans [OF first [unfolded Inr] this] show ?thesis
      by (simp add: g m Inr)
  qed
qed

lemma set_groups:
  assumes "range_order ord" and "wf_images imgs"
  shows "set (concat (map snd (groups ord imgs))) = snd ` set (all_images imgs)"
  using assms by (simp add: groups_def all_images_def wf_images_def image_Un set_range_map)

section \<open>Whole requests\<close>

definition admissible :: "('n, 'h) ext \<Rightarrow> VerificationRequest \<Rightarrow> bool" where
  "admissible ext req \<longleftrightarrow>
     no_sep (getTrustPolicy (getenv ext) req)
     \<and> (\<forall>(k, info) \<in> set (all_images (Images req)). no_sep (image_String ext (info_Image info)))
     \<and> (\<forall>a \<in> set (Attestations req). \<forall>t \<in> set (att_Type a). no_sep (att_Name t))"

definition selects :: "('n, 'h) ext \<Rightarrow> VerificationRequest \<Rightarrow> ImageInfo set" where
  "selects ext req =
     {info \<in> snd ` set (all_images (Images req)).
        matchImageReferences (wildcard_Match ext) (ImageReferences req) (image_String ext (info_Image info))}"

lemma required_no_sep:
  assumes "admissible ext req" and "required (required_types wm (Attestations req) img) ty = Some cs"
  shows "no_sep ty"
  using assms by (fastforce simp: admissible_def required_def required_types_def split: if_splits)

lemma fresh_NewResponse [simp]: "fresh_response NewResponse"
  by (simp add: fresh_response_def NewResponse_def)

text \<open>What a positive response stands for, given what cached verdicts stand for.\<close>

definition response_sound :: "('n, 'h) ext \<Rightarrow> VerificationRequest \<Rightarrow> ('n, 'h, 'r) requestVerifier
    \<Rightarrow> image_verdicts \<Rightarrow> attestation_verdicts \<Rightarrow> ResponseData \<Rightarrow> bool" where
  "response_sound ext req rv P Q resp \<longleftrightarrow>
     (\<exists>vs. fst ` set vs = selects ext req \<and> good_verdicts ext (rv_trustPolicy rv) P vs
        \<and> Results resp = patches ext vs \<and> ErrorMessage resp = []
        \<and> (\<forall>img \<in> pinned ext vs. \<forall>ty cs.
             required (required_types (wildcard_Match ext) (Attestations req) img) ty = Some cs \<longrightarrow>
             attested ext rv Q img ty cs))"

lemma failed_cases: "failed r e = Inr resp \<Longrightarrow> \<not> Verified resp \<and> Results resp = []"
  by (cases e) (auto simp: VerificationFailed_def)

lemma pinned_no_sep:
  assumes "admissible ext req" and "fst ` set vs = selects ext req" and "img \<in> pinned ext vs"
  shows "no_sep img"
proof -
  from assms(3) obtain info i where "(info, i) \<in> set vs" and img: "img = image_String ext (info_Image info)"
    by (auto simp: pinned_def)
  then have "info \<in> selects ext req" unfolding assms(2) [symmetric] by (metis fst_conv image_eqI)
  with assms(1) show ?thesis by (auto simp: img selects_def admissible_def)
qed

lemma attestation_stage_sound:
  assumes "covered ext rv P Q" and "cache_inv P Q (rv_cache rv)" and "no_sep (rv_trustPolicy rv)"
    and "admissible ext req" and "range_order (order ext)" and "fresh_response r1"
    and "\<forall>img \<in> fst ` set (imageList r1). no_sep img"
  shows "\<exists>r2. BuildAttestationList (wildcard_Match ext) (order ext) (Attestations req) r1 = Inr r2
    \<and> responseData r2 = responseData r1 \<and> sound_step P Q rv (snd (verifyAttestations ext r2 rv))
    \<and> (is_ok (fst (verifyAttestations ext r2 rv)) \<longrightarrow>
         (\<forall>img \<in> fst ` set (imageList r1). \<forall>ty cs.
            required (required_types (wildcard_Match ext) (Attestations req) img) ty = Some cs \<longrightarrow>
            attested ext rv Q img ty cs))"
proof -
  from BuildAttestationList_required [OF assms(5), of r1 "wildcard_Match ext" "Attestations req"] assms(6)
  obtain r2 where r2: "BuildAttestationList (wildcard_Match ext) (order ext) (Attestations req) r1 = Inr r2"
      "responseData r2 = responseData r1" "map fst (GetImageList r2) = map fst (GetImageList r1)" "wf_response r2"
    and req: "\<And>img atts. map_of (GetImageList r2) img = Some atts \<Longrightarrow>
        map_of atts = required (required_types (wildcard_Match ext) (Attestations req) img)"
    by (auto simp: fresh_response_def GetResponse_def)
  have keys: "fst ` set (GetImageList r2) = fst ` set (imageList r1)"
    using arg_cong [OF r2(3), of set] by (simp add: GetImageList_def)
  let ?ls = "range_map (order ext) AtVerify (GetImageList r2)"
  have ls: "set ?ls = set (GetImageList r2)"
    using r2(4) by (intro set_range_map [OF assms(5)]) (simp add: GetImageList_def)
  have look: "map_of (GetImageList r2) img = Some atts" if "(img, atts) \<in> set ?ls" for img atts
    using that ls r2(4) by (simp add: GetImageList_def wf_response_def wf_map_def)
  have "seps_ok rv img atts \<and> wf_map atts" if mem: "(img, atts) \<in> set ?ls" for img atts
  proof -
    have "img \<in> fst ` set (imageList r1)" using mem unfolding ls keys [symmetric] by (metis fst_conv image_eqI)
    with assms(7) have "no_sep img" by blast
    moreover have "no_sep ty" if "ty \<in> fst ` set atts" for ty
      using that req [OF look [OF mem]] required_no_sep [OF assms(4)]
      by (metis map_of_eq_None_iff not_None_eq)
    moreover have "wf_map atts"
      using mem ls r2(4) by (auto simp: wf_response_def GetImageList_def)
    ultimately show ?thesis using assms(3) by (simp add: seps_ok_def)
  qed
  then have "\<forall>(img, atts) \<in> set ?ls. seps_ok rv img atts \<and> wf_map atts" by blast
  note sound = verifyAttestationsLoop_sound [OF assms(1,2,5) this, folded verifyAttestations_def]
  have att: "attested ext rv Q img ty cs" if "is_ok (fst (verifyAttestations ext r2 rv))" "img \<in> fst ` set (imageList r1)"
    "required (required_types (wildcard_Match ext) (Attestations req) img) ty = Some cs" for img ty cs
  proof -
    from that(2) keys ls obtain atts where mem: "(img, atts) \<in> set ?ls" by force
    with that(3) req [OF look] have "map_of atts ty = Some cs" by simp
    with mem that(1) sound show ?thesis by fastforce
  qed
  show ?thesis
    by (rule exI [of _ r2]) (simp only: r2(1,2) sound [THEN conjunct1] att simp_thms, blast intro: att)
qed

lemma verifyWith_sound:
  assumes "covered ext rv P Q" and "cache_inv P Q (rv_cache rv)" and "rv_trustPolicy rv = getTrustPolicy (getenv ext) req"
    and "admissible ext req" and "range_order (order ext)" and "wf_images (Images req)"
  shows "sound_step P Q rv (snd (verifyWith ext req rv))
    \<and> (\<forall>resp. fst (verifyWith ext req rv) = Inr resp \<and> Verified resp \<longrightarrow> response_sound ext req rv P Q resp)"
proof -
  let ?gs = "groups (order ext) (Images req)" and ?refs = "ImageReferences req"
  have tp: "no_sep (rv_trustPolicy rv)" using assms(3,4) by (simp add: admissible_def)
  obtain x r1 rv1 where run: "verifyGroups ext ?refs ?gs (NewResponse, rv) = (x, r1, rv1)"
    by (metis prod_cases3)
  have seps: "\<forall>(kind, infos) \<in> set ?gs. \<forall>info \<in> set infos. no_sep (image_String ext (info_Image info))"
    using assms(4) set_groups [OF assms(5,6)] by (fastforce simp: admissible_def)
  have sound1: "group_sound ext P Q (selected ext ?refs (concat (map snd ?gs))) (NewResponse, rv) (x, r1, rv1)"
    using verifyGroups_sound [of ext "(NewResponse, rv)" P Q ?gs ?refs] assms(1,2) tp seps by (simp add: run)
  then have step1: "sound_step P Q rv rv1" by (simp add: group_sound_def)
  then have s1: "same_request rv rv1" "cache_inv P Q (rv_cache rv1)"
    using sound_stepD assms(2) by blast+
  show ?thesis
  proof (cases x)
    case (Inl e)
    with step1 show ?thesis by (auto simp: verifyWith_def run dest: failed_cases)
  next
    case x: (Inr u)
    then obtain vs where vs: "map fst vs = selected ext ?refs (concat (map snd ?gs))"
        "good_verdicts ext (rv_trustPolicy rv) P vs" and gr: "grown ext vs NewResponse r1"
      using sound1 by (auto simp: group_sound_def)
    have sel: "fst ` set vs = selects ext req"
      using arg_cong [OF vs(1), of set] set_groups [OF assms(5,6)] by (auto simp: selects_def)
    from gr have fresh: "fresh_response r1" and keys: "fst ` set (imageList r1) = pinned ext vs"
      and res: "Results (responseData r1) = patches ext vs"
      by (simp_all add: grown_def NewResponse_def fresh_response_def)
    have seps1: "\<forall>img \<in> fst ` set (imageList r1). no_sep img"
      using pinned_no_sep [OF assms(4)] sel unfolding keys by blast
    have rv1: "covered ext rv1 P Q" "no_sep (rv_trustPolicy rv1)"
      using assms(1) tp same_request_fields [OF s1(1)] by simp_all
    obtain r2 where r2: "BuildAttestationList (wildcard_Match ext) (order ext) (Attestations req) r1 = Inr r2"
        "responseData r2 = responseData r1" "sound_step P Q rv1 (snd (verifyAttestations ext r2 rv1))"
      and att: "is_ok (fst (verifyAttestations ext r2 rv1)) \<longrightarrow> (\<forall>img \<in> pinned ext vs. \<forall>ty cs.
            required (required_types (wildcard_Match ext) (Attestations req) img) ty = Some cs \<longrightarrow>
            attested ext rv Q img ty cs)"
      using attestation_stage_sound [OF rv1(1) s1(2) rv1(2) assms(4,5) fresh seps1]
      unfolding keys same_request_transfer [OF s1(1)] by blast
    obtain y rv2 where run2: "verifyAttestations ext r2 rv1 = (y, rv2)" by fastforce
    have step2: "sound_step P Q rv rv2"
      using r2(3) step1 sound.frame_trans by (auto simp: run2)
    show ?thesis
    proof (cases y)
      case (Inl e)
      with step2 x show ?thesis by (auto simp: verifyWith_def run run2 r2(1) dest: failed_cases)
    next
      case (Inr w)
      with att sel vs(2) res r2(2) have "response_sound ext req rv P Q (VerificationSucceeded r2 [])"
        by (auto simp: response_sound_def VerificationSucceeded_def run2)
      with step2 Inr x show ?thesis by (simp add: verifyWith_def run run2 r2(1))
    qed
  qed
qed

text \<open>The request verifier a request starts with.\<close>

definition start_request :: "('n, 'h) ext \<Rightarrow> VerificationRequest \<Rightarrow> ('n, 'h, 'r) verifier \<Rightarrow> 'n \<Rightarrow> keychain
    \<Rightarrow> 'h gcrOption list \<Rightarrow> string gomap \<Rightarrow> ('n, 'h, 'r) requestVerifier" where
  "start_request ext req v nv kc opts pc =
     \<lparr> rv_verifier = v, notationVerifier = nv, rv_trustPolicy = getTrustPolicy (getenv ext) req,
       rv_keychain = kc, rv_remoteOpts = opts, rv_pluginConfig = pc \<rparr>"

lemma start_request_fields [simp]:
  "rv_verifier (start_request ext req v nv kc opts pc) = v"
  "notationVerifier (start_request ext req v nv kc opts pc) = nv"
  "rv_trustPolicy (start_request ext req v nv kc opts pc) = getTrustPolicy (getenv ext) req"
  "rv_remoteOpts (start_request ext req v nv kc opts pc) = opts"
  by (simp_all add: start_request_def)

text \<open>Every error that ends a request carries a text; a panic has no response.\<close>

fun has_text :: "gerr \<Rightarrow> bool" where
  "has_text (Err m) = (m \<noteq> [])"
| "has_text (Panic p) = True"

lemma has_text_wrap [simp]: "has_text (wrap m e)"
  by (cases e) auto

lemma getPluginConfig_text: "getPluginConfig ext v = Inl e \<Longrightarrow> has_text e"
  by (auto simp: getPluginConfig_def Let_def nil_dereference_def split: if_splits option.splits sum.splits)

lemma verifyImagesAndAttestations_cases:
  obtains (failed) e where "verifyImagesAndAttestations ext req v = (failed NewResponse e, v)" "has_text e"
  | (run) nv kc opts pc where "GetVerifier (getenv ext) (notationVerifierFactory v) req = Inr nv"
      "verifyImagesAndAttestations ext req v =
         map_prod id rv_verifier (verifyWith ext req (start_request ext req v nv kc opts pc))"
proof (cases "GetVerifier (getenv ext) (notationVerifierFactory v) req")
  case (Inl e)
  with failed show ?thesis by (auto simp: verifyImagesAndAttestations_def)
next
  case nv: (Inr nv)
  show ?thesis
  proof (cases "\<exists>kc opts pc. getKeychain ext v = Inr kc \<and> getRemoteOpts ext kc = Inr opts \<and> getPluginConfig ext v = Inr pc")
    case True
    then obtain kc opts pc where "getKeychain ext v = Inr kc" "getRemoteOpts ext kc = Inr opts" "getPluginConfig ext v = Inr pc"
      by blast
    then have "verifyImagesAndAttestations ext req v =
        map_prod id rv_verifier (verifyWith ext req (start_request ext req v nv kc opts pc))"
      by (simp add: verifyImagesAndAttestations_def nv start_request_def split: prod.splits)
    with nv run show ?thesis by blast
  next
    case False
    then have "\<exists>e. verifyImagesAndAttestations ext req v = (failed NewResponse e, v) \<and> has_text e"
      by (auto simp: verifyImagesAndAttestations_def nv split: sum.splits intro: has_text_wrap dest: getPluginConfig_text)
    with failed show ?thesis by blast
  qed
qed

lemma verify_keeps_cache_inv:
  assumes "cache_inv P Q (v_cache v)" and "admissible ext req" and "range_order (order ext)" and "wf_images (Images req)"
    and "\<And>nv opts. GetVerifier (getenv ext) (notationVerifierFactory v) req = Inr nv \<Longrightarrow>
           covers ext opts nv (getTrustPolicy (getenv ext) req) P Q"
  shows "cache_inv P Q (v_cache (snd (verifyImagesAndAttestations ext req v)))"
proof (cases rule: verifyImagesAndAttestations_cases [of ext req v])
  case (failed e)
  with assms(1) show ?thesis by simp
next
  case (run nv kc opts pc)
  let ?rv = "start_request ext req v nv kc opts pc"
  have "sound_step P Q ?rv (snd (verifyWith ext req ?rv))"
    using verifyWith_sound [of ext ?rv P Q req] assms run(1) by simp
  with assms(1) show ?thesis
    by (simp add: run(2) sound_step_def)
qed

lemma getTrustPolicy_verifier:
  "GetVerifier (getenv ext) f req = Inr nv \<Longrightarrow>
     getTrustPolicy (getenv ext) req \<noteq> [] \<and> map_of (verifiers f) (getTrustPolicy (getenv ext) req) = Some nv"
  by (auto simp: GetVerifier_ok_iff getTrustPolicy_def Let_def split: if_splits)

text \<open>What the verdicts of one request may be: found in the cache the request started with, or
  established by the request itself.\<close>

definition image_known :: "('n, 'h) ext \<Rightarrow> 'h gcrOption list \<Rightarrow> 'n \<Rightarrow> string \<Rightarrow> 'r cache \<Rightarrow> image_verdicts" where
  "image_known ext opts nv tp c k img \<longleftrightarrow>
     GetImage c (fst k) (snd k) = Some img
     \<or> (fst k = tp \<and> verified_as ext opts nv (snd k) (img_Digest img)
         \<and> (\<exists>i d. image_String ext i = snd k \<and> img = i\<lparr> img_Digest := d \<rparr>))"

definition attestation_known :: "('n, 'h) ext \<Rightarrow> 'h gcrOption list \<Rightarrow> 'n \<Rightarrow> string \<Rightarrow> 'r cache \<Rightarrow> attestation_verdicts" where
  "attestation_known ext opts nv tp c k u \<longleftrightarrow>
     att_lookup c k = Some u
     \<or> (\<exists>img ty cs. k = (tp, img, ty, cs) \<and> attestation_verified ext opts nv img ty cs)"

lemma known_covers: "covers ext opts nv tp (image_known ext opts nv tp c) (attestation_known ext opts nv tp c)"
  by (auto simp: covers_def image_known_def attestation_known_def)

lemma known_cache_inv:
  "cache_ok c \<Longrightarrow> cache_inv (image_known ext opts nv tp c) (attestation_known ext opts nv tp c) c"
  by (auto simp: cache_inv_def justified_def image_known_def attestation_known_def image_lookup_def)

section \<open>Properties\<close>

lemma verified_response_earned:
  assumes "cache_ok (v_cache v)" and "admissible ext req" and "range_order (order ext)" and "wf_images (Images req)"
    and "verifyImagesAndAttestations ext req v = (Inr resp, v')" and "Verified resp"
  shows "\<exists>nv opts vs.
      getTrustPolicy (getenv ext) req \<noteq> []
      \<and> map_of (verifiers (notationVerifierFactory v)) (getTrustPolicy (getenv ext) req) = Some nv
      \<and> fst ` set vs = selects ext req
      \<and> Results resp = patches ext vs
      \<and> (\<forall>(info, img) \<in> set vs.
           GetImage (v_cache v) (getTrustPolicy (getenv ext) req) (image_String ext (info_Image info)) = Some img
           \<or> verified_as ext opts nv (image_String ext (info_Image info)) (img_Digest img))
      \<and> (\<forall>(info, img) \<in> set vs. img_Digest img \<noteq> [] \<longrightarrow>
           (\<forall>ty cs. required (required_types (wildcard_Match ext) (Attestations req) (image_String ext (info_Image info))) ty = Some cs \<longrightarrow>
              GetAttestation (v_cache v) (getTrustPolicy (getenv ext) req) (image_String ext (info_Image info)) ty cs
              \<or> attestation_verified ext opts nv (image_String ext (info_Image info)) ty cs
              \<or> attestation_skipped ext opts nv (image_String ext (info_Image info)) ty))"
proof (cases rule: verifyImagesAndAttestations_cases [of ext req v])
  case (failed e)
  with assms(5,6) show ?thesis by (auto dest: failed_cases)
next
  case (run nv kc opts pc)
  let ?tp = "getTrustPolicy (getenv ext) req"
  let ?rv = "start_request ext req v nv kc opts pc"
  let ?P = "image_known ext opts nv ?tp (v_cache v)" and ?Q = "attestation_known ext opts nv ?tp (v_cache v)"
  have "fst (verifyWith ext req ?rv) = Inr resp"
    using run(2) assms(5) by (cases "verifyWith ext req ?rv") simp
  with verifyWith_sound [of ext ?rv ?P ?Q req] assms
  have "response_sound ext req ?rv ?P ?Q resp" by (simp add: known_covers known_cache_inv)
  then obtain vs where vs: "fst ` set vs = selects ext req" "good_verdicts ext ?tp ?P vs" "Results resp = patches ext vs"
    and att: "\<forall>img \<in> pinned ext vs. \<forall>ty cs.
      required (required_types (wildcard_Match ext) (Attestations req) img) ty = Some cs \<longrightarrow> attested ext ?rv ?Q img ty cs"
    by (auto simp: response_sound_def)
  have imgs: "\<forall>(info, img) \<in> set vs. GetImage (v_cache v) ?tp (image_String ext (info_Image info)) = Some img
      \<or> verified_as ext opts nv (image_String ext (info_Image info)) (img_Digest img)"
    using vs(2) by (fastforce simp: good_verdicts_def image_known_def)
  have pin: "image_String ext (info_Image info) \<in> pinned ext vs" if "(info, img) \<in> set vs" "img_Digest img \<noteq> []" for info img
    using that by (force simp: pinned_def)
  have "GetAttestation (v_cache v) ?tp img ty cs \<or> attestation_verified ext opts nv img ty cs \<or> attestation_skipped ext opts nv img ty"
    if "attested ext ?rv ?Q img ty cs" for img ty cs
    using that by (auto simp: attested_def attestation_known_def split: if_splits)
  with att pin vs(1,3) imgs getTrustPolicy_verifier [OF run(1)] show ?thesis
    by (intro exI [of _ nv] exI [of _ opts] exI [of _ vs]) (simp, blast)
qed

text \<open>
  C2. A positive response is earned: if a request is answered as verified, there is a verifier for
  its trust policy, and every image the request selects was judged, once per container, either
  by an entry of the cache for this trust policy and this reference or by a successful notation
  verification with this verifier during the request. The patches of the response are exactly
  the verified images pinned to the digests of those verdicts (images the trust policy skips get
  none), and each pinned image carries every attestation the policy requires of it, under all
  its conditions: cached for the same trust policy, reference, type and conditions, or present
  as a referrer that notation verified and whose payload satisfies the conditions (or whose
  verification the trust policy skips).
\<close>

theorem verified_response_sound:
  assumes "cache_ok (v_cache v)" and "admissible ext req" and "range_order (order ext)" and "wf_images (Images req)"
    and "verifyImagesAndAttestations ext req v = (Inr resp, v')" and "Verified resp"
  shows "\<exists>nv opts vs.
      getTrustPolicy (getenv ext) req \<noteq> []
      \<and> map_of (verifiers (notationVerifierFactory v)) (getTrustPolicy (getenv ext) req) = Some nv
      \<and> fst ` set vs = selects ext req
      \<and> Results resp = patches ext vs
      \<and> (\<forall>(info, img) \<in> set vs.
           GetImage (v_cache v) (getTrustPolicy (getenv ext) req) (image_String ext (info_Image info)) = Some img
           \<or> verified_as ext opts nv (image_String ext (info_Image info)) (img_Digest img))
      \<and> (\<forall>(info, img) \<in> set vs. img_Digest img \<noteq> [] \<longrightarrow>
           (\<forall>ty cs. required (required_types (wildcard_Match ext) (Attestations req) (image_String ext (info_Image info))) ty = Some cs \<longrightarrow>
              GetAttestation (v_cache v) (getTrustPolicy (getenv ext) req) (image_String ext (info_Image info)) ty cs
              \<or> attestation_verified ext opts nv (image_String ext (info_Image info)) ty cs
              \<or> attestation_skipped ext opts nv (image_String ext (info_Image info)) ty))"
  using verified_response_earned [OF assms] .

definition demo_info :: ImageInfo where
  "demo_info = \<lparr> info_Image = demo_image\<lparr> img_Digest := [] \<rparr>, info_Pointer = ''/spec/containers/0/image'' \<rparr>"

definition demo_request :: "AttestationsInfo list \<Rightarrow> VerificationRequest" where
  "demo_request atts =
     \<lparr> ImageReferences = [''*''], Images = \<lparr> InitContainers = [], Containers = [(''main'', demo_info)], EphemeralContainers = [] \<rparr>,
       TrustPolicy = ''tp'', Attestations = atts, Insecure = False \<rparr>"

lemmas demo_request_eval = demo_eval verifyImagesAndAttestations_def verifyWith_def groups_def failed.simps
  verifyImageInfo_def verifyAttestations_def verifyAttestation_def verifyReferrer_def verifyConditions_def
  fetchAndExtractPayload_def checkAllAttestationsForImage_def matchAttestations_def referrer_types_def
  range_map_def in_order_def GetVerifier_def getKeychain_def getRemoteOpts_def getPluginConfig_def getTrustPolicy_def
  matchImageReferences_iff demo_request_def demo_info_def demo_image_def demo_String_def Let_def
  NewResponse_def AddImage_response_def patch_of_def addAttestations_def GetImageList_def map_set_def
  VerificationSucceeded_def VerificationFailed_def getReference_def demo_repo_def set_cache_def
  demo_attestations_def demo_cache_def cache_defs list_store_def

lemma demo_run:
  "\<exists>resp v'. verifyImagesAndAttestations demo_ext (demo_request demo_attestations) (demo_verifier [(''tp'', ''good'')]) = (Inr resp, v')
     \<and> Verified resp \<and> map op_Value (Results resp) = [''r/app@sha256:1'']"
  by (simp add: demo_request_eval)

lemma demo_admissible: "admissible demo_ext (demo_request demo_attestations)" "wf_images (Images (demo_request atts))"
    "range_order (order demo_ext)"
  by (simp_all add: admissible_def no_sep_def wf_images_def wf_map_def all_images_def demo_attestations_def
      demo_request_def getTrustPolicy_def demo_info_def demo_image_def demo_ext_def demo_String_def)

theorem verified_response_sound_witness:
  "\<exists>resp v' nv opts vs.
     verifyImagesAndAttestations demo_ext (demo_request demo_attestations) (demo_verifier [(''tp'', ''good'')]) = (Inr resp, v')
     \<and> Verified resp \<and> map op_Value (Results resp) = [''r/app@sha256:1'']
     \<and> map_of [(''tp'', ''good'')] ''tp'' = Some nv \<and> Results resp = patches demo_ext vs
     \<and> (\<forall>(info, img) \<in> set vs. verified_as demo_ext opts nv (image_String demo_ext (info_Image info)) (img_Digest img))"
proof -
  let ?v = "demo_verifier [(''tp'', ''good'')]"
  obtain resp v' where run: "verifyImagesAndAttestations demo_ext (demo_request demo_attestations) ?v = (Inr resp, v')"
      "Verified resp" "map op_Value (Results resp) = [''r/app@sha256:1'']"
    using demo_run by (elim exE conjE) (rule that)
  have c: "cache_ok (v_cache ?v)" "\<And>tp ref. GetImage (v_cache ?v) tp ref = None"
    by (simp_all add: demo_verifier_def, simp add: GetImage_def demo_cache_def list_store_def)
  have tp: "getTrustPolicy (getenv demo_ext) (demo_request demo_attestations) = ''tp''"
      "verifiers (notationVerifierFactory ?v) = [(''tp'', ''good'')]"
    by (simp_all add: getTrustPolicy_def demo_request_def demo_verifier_def)
  from verified_response_sound [OF c(1) demo_admissible(1) demo_admissible(3) demo_admissible(2) run(1,2)]
  obtain nv opts vs where "map_of [(''tp'', ''good'')] ''tp'' = Some nv" "Results resp = patches demo_ext vs"
    "\<forall>(info, img) \<in> set vs. None = Some img \<or> verified_as demo_ext opts nv (image_String demo_ext (info_Image info)) (img_Digest img)"
    unfolding tp c(2) by (elim exE conjE) (rule that)
  with run show ?thesis by (intro exI conjI) simp_all
qed

section \<open>Failures\<close>

lemma same_request_verifyReferences [simp]: "same_request rv (snd (verifyReferences ext img rv))"
  using quietD [OF quiet_verifyReferences] by blast

lemma same_request_verifyImageInfo [simp]: "same_request rv (snd (verifyImageInfo ext info rv))"
  by (auto simp: verifyImageInfo_def Let_def intro!: request.frame_andThen split: option.splits)

lemma same_request_verifyReferrer [simp]: "same_request rv (snd (verifyReferrer ext img ref r cs rv))"
proof -
  have "same_request rv (snd (verifyConditions ext ref r cs rv))" for rv :: "('a, 'b, 'c) requestVerifier"
    using quietD [OF quiet_verifyConditions] by blast
  then show ?thesis
    by (auto simp: verifyReferrer_def intro!: request.frame_andThen)
qed

lemma same_request_verifyReferrers [simp]: "same_request rv (snd (verifyReferrers ext img ref atts rs rv))"
  by (induction rs arbitrary: rv) (auto intro!: request.frame_andThen split: option.splits)

lemma same_request_verifyAttestation [simp]: "same_request rv (snd (verifyAttestation ext img atts rv))"
  by (auto simp: verifyAttestation_def intro!: request.frame_andThen split: sum.splits)

lemma same_request_verifyAttestations [simp]: "same_request rv (snd (verifyAttestations ext r rv))"
proof -
  have "same_request rv (snd (verifyAttestationsLoop ext ls rv))" for ls and rv :: "('a, 'b, 'c) requestVerifier"
    by (induction ls arbitrary: rv) (auto intro!: request.frame_andThen)
  then show ?thesis by (simp add: verifyAttestations_def)
qed

lemma verifyGroup_response:
  "(case verifyGroup ext refs kind infos s of (x, r, rv) \<Rightarrow>
      Verified (responseData r) = Verified (responseData (fst s)) \<and> same_request (snd s) rv
      \<and> (\<forall>e. x = Inl e \<longrightarrow> has_text e))"
proof (induction infos arbitrary: s)
  case Nil
  then show ?case by (cases s) simp
next
  case (Cons info infos)
  obtain r rv where s: "s = (r, rv)" by (cases s)
  obtain x rv1 where m: "verifyImageInfo ext info rv = (x, rv1)" by fastforce
  have "same_request rv (snd (verifyImageInfo ext info rv))" by simp
  then have q: "same_request rv rv1" by (simp add: m)
  show ?case
    using Cons.IH [of "(r, rv)"] Cons.IH [of "(r, rv1)"] q same_request_trans [OF q]
      Cons.IH [of "(AddImage_response (image_String ext) r (image_String ext (info_Image info)) (projr x), rv1)"]
    by (cases x) (auto simp: s m AddImage_response_def split: prod.splits)
qed

lemma verifyGroups_response:
  "(case verifyGroups ext refs gs s of (x, r, rv) \<Rightarrow>
      Verified (responseData r) = Verified (responseData (fst s)) \<and> same_request (snd s) rv
      \<and> (\<forall>e. x = Inl e \<longrightarrow> has_text e))"
proof (induction gs arbitrary: s)
  case Nil
  then show ?case by (cases s) simp
next
  case (Cons g gs)
  obtain kind infos where g: "g = (kind, infos)" by (cases g)
  obtain x r rv where m: "verifyGroup ext refs kind infos s = (x, r, rv)" by (metis prod_cases3)
  have "Verified (responseData r) = Verified (responseData (fst s)) \<and> same_request (snd s) rv \<and> (\<forall>e. x = Inl e \<longrightarrow> has_text e)"
    using verifyGroup_response [where s = s and ext = ext and refs = refs and kind = kind and infos = infos] by (simp add: m)
  then show ?case
    using Cons.IH [of "(r, rv)"] same_request_trans [of "snd s" rv]
    by (cases x) (auto simp: g m split: prod.splits)
qed

lemma buildTypes_response: "buildTypes img ts r = Inr r' \<Longrightarrow> responseData r' = responseData r"
  by (induction ts arbitrary: r)
    (fastforce simp: addAttestations_def Let_def split: sum.splits option.splits)+

lemma buildImages_response: "buildImages wm a imgs r = Inr r' \<Longrightarrow> responseData r' = responseData r"
  by (induction imgs arbitrary: r) (fastforce split: sum.splits if_splits dest: buildTypes_response)+

lemma BuildAttestationList_response:
  "BuildAttestationList wm ord as r = Inr r' \<Longrightarrow> responseData r' = responseData r"
  by (induction as arbitrary: r) (fastforce split: sum.splits dest: buildImages_response)+

text \<open>What one answered request may look like.\<close>

definition conclusive :: "ResponseData \<Rightarrow> bool" where
  "conclusive resp \<longleftrightarrow>
     (if Verified resp then ErrorMessage resp = [] else Results resp = [] \<and> ErrorMessage resp \<noteq> [])"

lemma conclusive_failed: "has_text e \<Longrightarrow> failed r e = Inr resp \<Longrightarrow> conclusive resp"
  by (cases e) (auto simp: conclusive_def VerificationFailed_def)

lemma verifyWith_response:
  "same_request rv (snd (verifyWith ext req rv)) \<and> (\<forall>resp. fst (verifyWith ext req rv) = Inr resp \<longrightarrow> conclusive resp)
     \<and> (\<forall>e. fst (verifyWith ext req rv) = Inl e \<longrightarrow> is_panic e)"
proof -
  obtain x r1 rv1 where run: "verifyGroups ext (ImageReferences req) (groups (order ext) (Images req)) (NewResponse, rv) = (x, r1, rv1)"
    by (metis prod_cases3)
  have r1: "Verified (responseData r1)" "same_request rv rv1" "\<And>e. x = Inl e \<Longrightarrow> has_text e"
    using verifyGroups_response [where ext = ext and refs = "ImageReferences req" and gs = "groups (order ext) (Images req)" and s = "(NewResponse, rv)"]
    unfolding run by (auto simp: NewResponse_def)
  have panic: "is_panic e" if "failed r e0 = Inl e" for r e0 e using that by (cases e0) auto
  show ?thesis
  proof (cases x)
    case (Inl e)
    with r1 show ?thesis by (auto simp: verifyWith_def run dest: conclusive_failed panic)
  next
    case x: (Inr u)
    show ?thesis
    proof (cases "BuildAttestationList (wildcard_Match ext) (order ext) (Attestations req) r1")
      case (Inl e)
      with x r1(2) show ?thesis by (auto simp: verifyWith_def run dest: conclusive_failed [OF has_text_wrap] panic)
    next
      case r2: (Inr r2)
      then have "responseData r2 = responseData r1" by (rule BuildAttestationList_response)
      with r1(1) have "conclusive (VerificationSucceeded r2 [])"
        by (simp add: conclusive_def VerificationSucceeded_def)
      moreover obtain y rv2 where "verifyAttestations ext r2 rv1 = (y, rv2)" by fastforce
      moreover from this same_request_verifyAttestations [of rv1 ext r2] same_request_trans [OF r1(2)]
      have "same_request rv rv2" by simp
      ultimately show ?thesis using x r2
        by (cases y) (auto simp: verifyWith_def run dest: conclusive_failed [OF has_text_wrap] panic)
    qed
  qed
qed

text \<open>
  C5. A request is answered all or nothing and disturbs nothing else: a response is either
  positive with no error message, or negative with an error message and without a single patch.
  Nothing but the verdict cache and the credential cache of the verifier is changed, and only a
  panic leaves a request without a response.
\<close>

theorem response_all_or_nothing:
  "case verifyImagesAndAttestations ext req v of (r, v') \<Rightarrow>
     (case r of Inr resp \<Rightarrow> if Verified resp then ErrorMessage resp = []
                            else Results resp = [] \<and> ErrorMessage resp \<noteq> []
              | Inl e \<Rightarrow> is_panic e)
     \<and> (\<exists>c k. v' = v\<lparr> v_cache := c, providerKeychain := k \<rparr>)"
proof -
  have same: "\<exists>c k. v = v\<lparr> v_cache := c, providerKeychain := k \<rparr>"
    by (intro exI [of _ "v_cache v"] exI [of _ "providerKeychain v"]) simp
  show ?thesis
  proof (cases rule: verifyImagesAndAttestations_cases [of ext req v])
    case (failed e)
    then show ?thesis
      unfolding failed(1) prod.case by (intro conjI same) (cases e; simp add: VerificationFailed_def)
  next
    case (run nv kc opts pc)
    obtain r rv' where w: "verifyWith ext req (start_request ext req v nv kc opts pc) = (r, rv')" by fastforce
    have ok: "same_request (start_request ext req v nv kc opts pc) rv'"
        "\<And>resp. r = Inr resp \<Longrightarrow> conclusive resp" "\<And>e. r = Inl e \<Longrightarrow> is_panic e"
      using verifyWith_response [of "start_request ext req v nv kc opts pc" ext req] unfolding w by auto
    from ok(1) have frame: "\<exists>c k. rv_verifier rv' = v\<lparr> v_cache := c, providerKeychain := k \<rparr>"
      unfolding same_request_iff by (elim exE) (simp add: set_cache_def set_provider_def, blast)
    have "verifyImagesAndAttestations ext req v = (r, rv_verifier rv')"
      by (simp add: run(2) w)
    moreover have "case r of Inr resp \<Rightarrow> if Verified resp then ErrorMessage resp = []
        else Results resp = [] \<and> ErrorMessage resp \<noteq> [] | Inl e \<Rightarrow> is_panic e"
      using ok(2,3) by (cases r) (simp_all add: conclusive_def)
    ultimately show ?thesis using frame by (simp only: prod.case simp_thms)
  qed
qed

section \<open>Two limits of the verdict cache\<close>

definition verdict_of :: "(ResponseData, 's) call \<Rightarrow> (bool \<times> string list) option" where
  "verdict_of m = (case fst m of Inl e \<Rightarrow> None | Inr resp \<Rightarrow> Some (Verified resp, map op_Value (Results resp)))"

lemma verifyReferrer_success:
  assumes "verifyReferrer ext img ref r cs rv = (Inr u, rv1)"
  shows "\<exists>d rv0. verifyReferences ext (getReference (desc_Digest r) ref) rv = (Inr d, rv0)
    \<and> (if d = [] then rv_cache rv1 = rv_cache rv
       else fst (AddAttestation (rv_cache rv) (rv_trustPolicy rv) img (desc_ArtifactType r) cs) = Inr ()
         \<and> rv_cache rv1 = snd (AddAttestation (rv_cache rv) (rv_trustPolicy rv) img (desc_ArtifactType r) cs))"
proof -
  let ?conds = "\<lambda>rv1. if length cs \<noteq> 0
      then wrapErr (''failed to verify conditions '' @ ref_String ref @ '' '' @ desc_Digest r) (verifyConditions ext ref r cs rv1)
      else (Inr (), rv1)"
  from assms obtain d rv0 where v: "verifyReferences ext (getReference (desc_Digest r) ref) rv = (Inr d, rv0)"
    by (auto simp: verifyReferrer_def andThen_ok_iff)
  then have q0: "quiet rv rv0" using quiet_verifyReferences [of rv ext "getReference (desc_Digest r) ref"] by simp
  show ?thesis
  proof (cases "d = []")
    case True
    with assms v have "rv1 = rv0" by (simp add: verifyReferrer_def)
    with True v quietD [OF q0] show ?thesis by auto
  next
    case False
    with assms v obtain rv2 where c: "?conds rv0 = (Inr (), rv2)"
      and a: "(case AddAttestation (rv_cache rv2) (rv_trustPolicy rv2) img (desc_ArtifactType r) cs of
                  (Inl e, c) \<Rightarrow>
                    (Inl (wrap (''failed to add attestation to the cache image='' @ ref_String ref
                            @ '', digest='' @ desc_Digest r) e), set_cache rv2 c)
                | (Inr _, c) \<Rightarrow> (Inr (), set_cache rv2 c)) = (Inr u, rv1)"
      unfolding verifyReferrer_def by (auto simp: andThen_ok_iff)
    have "quiet rv0 rv2"
      using c by (auto split: if_splits dest: verifyConditions_quiet)
    with quietD [OF q0] have "rv_cache rv2 = rv_cache rv" "rv_trustPolicy rv2 = rv_trustPolicy rv"
      by (auto dest: quietD)
    with a have "fst (AddAttestation (rv_cache rv) (rv_trustPolicy rv) img (desc_ArtifactType r) cs) = Inr ()
         \<and> rv_cache rv1 = snd (AddAttestation (rv_cache rv) (rv_trustPolicy rv) img (desc_ArtifactType r) cs)"
      by (auto split: prod.splits sum.splits)
    with False v show ?thesis by auto
  qed
qed

text \<open>Once an attestation of some type is cached, further referrers of this type are passed over.\<close>

lemma verifyReferrers_pass_over:
  assumes "keeps_entries (cache_ops (rv_cache rv))" and "map_of atts ty = Some cs"
    and "GetAttestation (rv_cache rv) (rv_trustPolicy rv) img ty cs"
  shows "verifyReferrers ext img ref atts rs rv
    = verifyReferrers ext img ref atts (filter (\<lambda>x. desc_ArtifactType x \<noteq> ty) rs) rv"
  using assms(1,3)
proof (induction rs arbitrary: rv)
  case (Cons r rs)
  show ?case
  proof (cases "desc_ArtifactType r = ty \<or> map_of atts (desc_ArtifactType r) = None")
    case True
    with Cons assms(2) show ?thesis by auto
  next
    case False
    then obtain cs' where cs': "map_of atts (desc_ArtifactType r) = Some cs'" by auto
    obtain x rv1 where run: "verifyReferrer ext img ref r cs' rv = (x, rv1)" by fastforce
    have "verifyReferrers ext img ref atts rs rv1 = verifyReferrers ext img ref atts (filter (\<lambda>x. desc_ArtifactType x \<noteq> ty) rs) rv1"
      if "x = Inr u" for u
    proof -
      have "rv_trustPolicy rv1 = rv_trustPolicy rv"
        using same_request_verifyReferrer [of rv ext img ref r cs'] by (simp add: run same_request_fields)
      moreover have "rv_cache rv1 = rv_cache rv
          \<or> rv_cache rv1 = snd (AddAttestation (rv_cache rv) (rv_trustPolicy rv) img (desc_ArtifactType r) cs')"
        using verifyReferrer_success [OF run [unfolded that]] by (auto split: if_splits)
      ultimately show ?thesis
        using Cons.prems GetAttestation_kept [OF Cons.prems] by (intro Cons.IH) auto
    qed
    with Cons False cs' run show ?thesis by (cases x) auto
  qed
qed simp

text \<open>A disabled cache passes over nothing.\<close>

lemma verifyReferrers_all:
  assumes "verifyReferrers ext img ref atts rs rv = (Inr u, rv')" and "\<not> useCache (rv_cache rv)"
    and "r \<in> set rs" and "map_of atts (desc_ArtifactType r) = Some cs"
  shows "\<exists>rv1 rv2. same_request rv rv1 \<and> verifyReferrer ext img ref r cs rv1 = (Inr (), rv2)"
  using assms(1-3)
proof (induction rs arbitrary: rv)
  case (Cons x rs)
  show ?case
  proof (cases "map_of atts (desc_ArtifactType x)")
    case None
    with Cons assms(4) show ?thesis by (intro Cons.IH) auto
  next
    case (Some cs')
    have "\<not> GetAttestation (rv_cache rv) (rv_trustPolicy rv) img (desc_ArtifactType x) cs'"
      using Cons.prems(2) by (simp add: GetAttestation_def)
    with Some Cons.prems(1) obtain rv1 where run: "verifyReferrer ext img ref x cs' rv = (Inr (), rv1)"
      and rest: "verifyReferrers ext img ref atts rs rv1 = (Inr u, rv')"
      by (auto simp: andThen_ok_iff)
    show ?thesis
    proof (cases "r = x")
      case True
      with run Some assms(4) show ?thesis by (intro exI [of _ rv] exI [of _ rv1]) simp
    next
      case False
      have same: "same_request rv rv1"
        using same_request_verifyReferrer [of rv ext img ref x cs'] by (simp add: run)
      have "rv_cache rv1 = rv_cache rv"
        using verifyReferrer_success [OF run] Cons.prems(2) by (auto simp: AddAttestation_def split: if_splits)
      with Cons.IH [OF rest] Cons.prems False same show ?thesis by (auto intro: same_request_trans)
    qed
  qed
qed simp

text \<open>The image has two referrers of type \<^verbatim>\<open>sbom\<close>; notation accepts the first and rejects the second.\<close>

definition two_referrers :: "(string, string) ext" where
  "two_referrers = demo_ext
     \<lparr> gcr_Referrers := (\<lambda>opts r k. (Inr (Inr [\<lparr> desc_ArtifactType = ''sbom'', desc_Digest = ''sha256:2'' \<rparr>,
                                                \<lparr> desc_ArtifactType = ''sbom'', desc_Digest = ''sha256:6'' \<rparr>]), k)),
       notation_Verify := (\<lambda>dbg n repo opts.
          if ArtifactReference opts = ''r/app@sha256:6'' then Inl (Err ''signature'')
          else Inr (after_at (ArtifactReference opts), [])) \<rparr>"



text \<open>The registry with other referrers: other answers about heads, referrers and layers. Images are verified
  without asking for any of them.\<close>

definition with_referrers ::
    "('n, 'h) ext \<Rightarrow> ('h gcrOption list \<Rightarrow> name_Reference \<Rightarrow> v1_Descriptor remote_call)
     \<Rightarrow> ('h gcrOption list \<Rightarrow> name_Reference \<Rightarrow> v1_Descriptor list result remote_call)
     \<Rightarrow> ('h gcrOption list \<Rightarrow> name_Reference \<Rightarrow> string result remote_call) \<Rightarrow> ('n, 'h) ext" where
  "with_referrers ext head refs layer = ext\<lparr> gcr_Head := head, gcr_Referrers := refs, gcr_Layer := layer \<rparr>"

lemma with_referrers_fields [simp]:
  "order (with_referrers ext h f l) = order ext" "wildcard_Match (with_referrers ext h f l) = wildcard_Match ext"
  "image_String (with_referrers ext h f l) = image_String ext" "gcr_Get (with_referrers ext h f l) = gcr_Get ext"
  "name_ParseReference (with_referrers ext h f l) = name_ParseReference ext" "oras_String (with_referrers ext h f l) = oras_String ext"
  "registry_ParseReference (with_referrers ext h f l) = registry_ParseReference ext" "NewRepository (with_referrers ext h f l) = NewRepository ext"
  "notation_Verify (with_referrers ext h f l) = notation_Verify ext"
  by (simp_all add: with_referrers_def)

lemma getAuthClient_with_referrers [simp]: "getAuthClient (with_referrers ext h f l) ref rv = getAuthClient ext ref rv"
proof -
  have "getAuthConfigFromKeychain (with_referrers ext h f l) = getAuthConfigFromKeychain ext"
    by (intro ext) (simp add: getAuthConfigFromKeychain_def imageResource_def cong del: sum.case_cong_weak)
  then show ?thesis by (simp add: getAuthClient_def)
qed

lemma getDigest_with_referrers [simp]: "getDigest (with_referrers ext h f l) s rv = getDigest ext s rv"
  by (simp add: getDigest_def cong del: sum.case_cong_weak)

lemma verifyReferences_with_referrers [simp]: "verifyReferences (with_referrers ext h f l) img rv = verifyReferences ext img rv"
  by (simp add: verifyReferences_def parseReferenceAndResolveDigest_def resolveDigest_def Let_def
      cong del: sum.case_cong_weak if_weak_cong)

lemma verifyImageInfo_with_referrers [simp]: "verifyImageInfo (with_referrers ext h f l) info rv = verifyImageInfo ext info rv"
  by (simp add: verifyImageInfo_def cong del: option.case_cong_weak)

lemma verifyGroup_with_referrers [simp]: "verifyGroup (with_referrers ext h f l) refs kind infos s = verifyGroup ext refs kind infos s"
  by (induction ext refs kind infos s rule: verifyGroup.induct) (auto split: prod.split sum.split)

lemma verifyGroups_with_referrers [simp]: "verifyGroups (with_referrers ext h f l) refs gs = verifyGroups ext refs gs"
proof (induction gs)
  case (Cons g gs)
  then show ?case by (cases g) (intro HOL.ext, simp)
qed (intro HOL.ext, simp)

lemma verifyAttestationsLoop_cached:
  "\<forall>(img, lst) \<in> set xs. \<forall>(ty, cs) \<in> set (range_map (order ext) AtCheckAll lst). GetAttestation (rv_cache rv) (rv_trustPolicy rv) img ty cs \<Longrightarrow>
     verifyAttestationsLoop ext xs rv = (Inr (), rv)"
  by (induction xs) (auto simp: verifyAttestation_def checkAllAttestationsForImage_def list_all_iff)

text \<open>The tag has moved to the digest \<^verbatim>\<open>sha256:9\<close>, which has no referrers.\<close>

definition moved_tag :: "(string, string) ext" where
  "moved_tag = demo_ext
     \<lparr> gcr_Get := (\<lambda>opts r k. (Inr \<lparr> gcr_Digest = ''sha256:9'', gcr_Manifest = [] \<rparr>, k)),
       gcr_Head := (\<lambda>opts r k. (Inr \<lparr> desc_ArtifactType = [], desc_Digest = ''sha256:9'' \<rparr>, k)),
       gcr_Referrers := (\<lambda>opts r k. (Inr (Inr []), k)) \<rparr>"


text \<open>The attestation of \<^verbatim>\<open>sha256:1\<close> is cached for the tag; the tag now has the digest \<^verbatim>\<open>sha256:9\<close>.\<close>

definition attested_rv :: "(string, string, (string \<times> cache_entry) list) requestVerifier" where
  "attested_rv = set_cache (demo_rv ''good'') (snd (AddAttestation (demo_cache True) ''tp'' ''r/app:v1'' ''sbom'' []))"


text \<open>
  The insecure flag of a request has no effect at all: with and without it the response and
  the verifier afterwards are the same.
\<close>

theorem Insecure_ignored:
  "verifyImagesAndAttestations ext (req\<lparr> Insecure := b \<rparr>) v = verifyImagesAndAttestations ext req v"
proof -
  have "GetVerifier g f (req\<lparr> Insecure := b \<rparr>) = GetVerifier g f req"
    for g and f :: "'a notationverifierfactory"
    by (simp add: GetVerifier_def)
  moreover have "getTrustPolicy g (req\<lparr> Insecure := b \<rparr>) = getTrustPolicy g req" for g
    by (simp add: getTrustPolicy_def)
  moreover have "verifyWith ext (req\<lparr> Insecure := b \<rparr>) rv = verifyWith ext req rv"
    for rv :: "('a, 'b, 'c) requestVerifier"
    by (simp add: verifyWith_def cong del: prod.case_cong_weak sum.case_cong_weak)
  ultimately show ?thesis
    by (simp only: verifyImagesAndAttestations_def cong del: prod.case_cong_weak sum.case_cong_weak)
qed

end
