(* ===== verification/Handler.thy ===== *)
theory Handler
  imports Verify
begin

text \<open>
  The HTTP endpoint (\<^verbatim>\<open>internal/verifier/client.go\<close>) and the construction of the verifier
  (\<^verbatim>\<open>newVerifier\<close> in \<^verbatim>\<open>verify.go\<close>). \<open>http_ext\<close> holds what the handler calls outside the repository: the
  API server's token review, the JSON decoder and encoder of the request and response, and the
  \<^verbatim>\<open>%+v\<close> rendering of a request part. A handler returns a response, or panics, in which case
  \<^verbatim>\<open>net/http\<close> drops the connection without a response.
\<close>

section \<open>Requests and responses\<close>

record httpRequest =
  Method :: string
  AuthorizationHeader :: string
  Body :: string

record httpResponse =
  Status :: nat
  ContentType :: string
  ResponseBody :: string

record TokenReviewStatus =
  Authenticated :: bool
  tr_Username :: string
  tr_Error :: string

text \<open>
  What a reader delivers: its bytes, and how it ends (\<open>None\<close> for end of file, otherwise the error
  that follows the bytes). \<^verbatim>\<open>http.MaxBytesReader\<close> ends a longer body with an error.
\<close>

type_synonym reader = "string \<times> gerr option"

definition MaxBytesReader :: "string \<Rightarrow> nat \<Rightarrow> reader" where
  "MaxBytesReader body n =
     (if length body \<le> n then (body, None) else (take n body, Some (Err ''http: request body too large'')))"

definition maxRequestBodyBytes :: nat where
  "maxRequestBodyBytes = 4 * 2 ^ 20"

record http_ext =
  TokenReviews_Create :: "string \<Rightarrow> string list \<Rightarrow> TokenReviewStatus result"
  decode_RequestData :: "reader \<Rightarrow> RequestData result"
  fmt_attestation :: "AttestationsInfo \<Rightarrow> string"
  marshal_ResponseData :: "ResponseData \<Rightarrow> string result"

definition http_Error :: "string \<Rightarrow> nat \<Rightarrow> httpResponse" where
  "http_Error msg code =
     \<lparr> Status = code, ContentType = ''text/plain; charset=utf-8'', ResponseBody = msg @ [CHR 0x0A] \<rparr>"

section \<open>Authentication\<close>

text \<open>Log lines: a message with its key-value pairs.\<close>

record log_line =
  log_msg :: string
  log_fields :: "(string \<times> string) list"

fun gerr_text :: "gerr \<Rightarrow> string" where
  "gerr_text (Err e) = e"
| "gerr_text (Panic p) = p"

definition isAllowed :: "string list \<Rightarrow> string \<Rightarrow> bool" where
  "isAllowed users username = list_ex (\<lambda>u. u = username) users"

text \<open>The second half of \<^verbatim>\<open>authenticate\<close>, from the token on; \<open>Inl\<close> is a panic of the API client.\<close>

definition reviewOutcome ::
    "http_ext \<Rightarrow> ('n, 'h, 'r) verifier \<Rightarrow> string \<Rightarrow> (nat \<times> string) result \<times> log_line list" where
  "reviewOutcome hx v token =
     (case TokenReviews_Create hx token (tokenReviewAudiences v) of
        Inl (Panic p) \<Rightarrow> (Inl (Panic p), [])
      | Inl (Err e) \<Rightarrow>
          (Inr (500, ''failed to review auth token''),
           [\<lparr> log_msg = ''failed to review auth token: '' @ e, log_fields = [] \<rparr>])
      | Inr st \<Rightarrow>
          if \<not> Authenticated st
          then (Inr (401, ''Token is not authenticated''),
                [\<lparr> log_msg = ''token is not authenticated'', log_fields = [(''error'', tr_Error st)] \<rparr>])
          else if \<not> isAllowed (allowedUsers v) (tr_Username st)
          then (Inr (403, ''Token is not authorized''),
                [\<lparr> log_msg = ''token is not authorized'', log_fields = [(''username'', tr_Username st)] \<rparr>])
          else (Inr (200, []),
                [\<lparr> log_msg = ''token is authorized'', log_fields = [(''username'', tr_Username st)] \<rparr>]))"

definition authenticate ::
    "http_ext \<Rightarrow> ('n, 'h, 'r) verifier \<Rightarrow> string \<Rightarrow> (nat \<times> string) result \<times> log_line list" where
  "authenticate hx v header =
     (if header = [] then (Inr (401, ''Authorization header not supplied''), [])
      else (case CutPrefix header ''Bearer '' of
              (rest, ok) \<Rightarrow>
                (let token = TrimSpace rest
                 in if \<not> ok \<or> token = []
                    then (Inr (401, ''Authorization header must be of the form \"Bearer <token>\"''), [])
                    else reviewOutcome hx v token)))"

section \<open>The handler\<close>

text \<open>From the decoded request to the response.\<close>

definition respond ::
    "http_ext \<Rightarrow> ('n, 'h) ext \<Rightarrow> RequestData \<Rightarrow> ('n, 'h, 'r) verifier
       \<Rightarrow> (httpResponse, ('n, 'h, 'r) verifier) call" where
  "respond hx ext requestData v =
     (case processRequestData (fmt_attestation hx) requestData of
        Inl e \<Rightarrow> (Inr (http_Error (gerr_text e) 406), v)
      | Inr verificationPayload \<Rightarrow>
          (case verifyImagesAndAttestations ext verificationPayload v of
             (Inl (Panic p), v1) \<Rightarrow> (Inl (Panic p), v1)
           | (Inl (Err e), v1) \<Rightarrow> (Inr (http_Error e 500), v1)
           | (Inr respData, v1) \<Rightarrow>
               if \<not> Verified respData then (Inr (http_Error (ErrorMessage respData) 406), v1)
               else (case marshal_ResponseData hx respData of
                       Inl (Panic p) \<Rightarrow> (Inl (Panic p), v1)
                     | Inl (Err e) \<Rightarrow> (Inr (http_Error e 500), v1)
                     | Inr data \<Rightarrow>
                         (Inr \<lparr> Status = 200, ContentType = ''application/json'', ResponseBody = data \<rparr>, v1))))"

definition HandleCheckImages ::
    "http_ext \<Rightarrow> ('n, 'h) ext \<Rightarrow> httpRequest \<Rightarrow> ('n, 'h, 'r) verifier
       \<Rightarrow> (httpResponse, ('n, 'h, 'r) verifier) call" where
  "HandleCheckImages hx ext r v =
     (if Method r \<noteq> ''POST'' then (Inr (http_Error ''Method Not Allowed'' 405), v)
      else (case (if reviewToken v then fst (authenticate hx v (AuthorizationHeader r)) else Inr (200, [])) of
              Inl e \<Rightarrow> (Inl e, v)
            | Inr (status, msg) \<Rightarrow>
                if status \<noteq> 200 then (Inr (http_Error msg status), v)
                else (case decode_RequestData hx (MaxBytesReader (Body r) maxRequestBodyBytes) of
                        Inl (Panic p) \<Rightarrow> (Inl (Panic p), v)
                      | Inl (Err e) \<Rightarrow> (Inr (http_Error (''failed to decode request body: '' @ e) 406), v)
                      | Inr requestData \<Rightarrow> respond hx ext requestData v)))"

section \<open>Refresh and shutdown\<close>

definition UpdateNotationVerifier ::
    "('d, 'n) notation_lib \<Rightarrow> os_env \<Rightarrow> os \<Rightarrow> path \<Rightarrow> ('n, 'h, 'r) verifier
       \<Rightarrow> gerr option \<times> ('n, 'h, 'r) verifier" where
  "UpdateNotationVerifier lib env s notationPath v =
     (case RefreshVerifiers lib env s notationPath (notationVerifierFactory v) of
        (Some e, f) \<Rightarrow> (Some e, v\<lparr> notationVerifierFactory := f \<rparr>)
      | (None, f) \<Rightarrow> (None, v\<lparr> notationVerifierFactory := f, v_cache := Clear (v_cache v) \<rparr>))"

text \<open>
  \<^verbatim>\<open>informerFactory.Shutdown\<close> of client-go blocks until the informers have ended. It is a parameter: \<open>waits\<close> says
  whether the call returns, given whether the channel the informers were started with is closed.
  What client-go documents, that it returns once the channel is closed, is \<open>waits True\<close>; nothing says
  that it returns otherwise. A call of \<open>Stop\<close> that never returns is \<open>None\<close>. Closing a closed channel is a
  panic.
\<close>

definition close_stopCh :: "('n, 'h, 'r) verifier \<Rightarrow> (unit, ('n, 'h, 'r) verifier) call" where
  "close_stopCh v =
     (if stopCh_closed v then (Inl (Panic ''close of closed channel''), v) else (Inr (), v\<lparr> stopCh_closed := True \<rparr>))"

definition Stop :: "(bool \<Rightarrow> bool) \<Rightarrow> ('n, 'h, 'r) verifier \<Rightarrow> (unit, ('n, 'h, 'r) verifier) call option" where
  "Stop waits v =
     (case close_stopCh v of
        (Inl e, v1) \<Rightarrow> Some (Inl e, v1)
      | (Inr _, v1) \<Rightarrow>
          if \<not> waits (stopCh_closed v1) then None
          else Some (Inr (), v1\<lparr> v_cache := Close (v_cache v1) \<rparr>))"

lemma Stop_simps [simp]:
  "\<not> stopCh_closed v \<Longrightarrow> Stop waits v =
     (if waits True then Some (Inr (), v\<lparr> stopCh_closed := True, v_cache := Close (v_cache v) \<rparr>) else None)"
  "stopCh_closed v \<Longrightarrow> Stop waits v = Some (Inl (Panic ''close of closed channel''), v)"
  by (simp_all add: Stop_def close_stopCh_def)

section \<open>What the handler lets through\<close>

text \<open>The token an authorization header carries.\<close>

definition bearer :: "string \<Rightarrow> string option" where
  "bearer header =
     (case CutPrefix header ''Bearer '' of
        (rest, ok) \<Rightarrow> if ok \<and> TrimSpace rest \<noteq> [] then Some (TrimSpace rest) else None)"

definition authorized :: "http_ext \<Rightarrow> ('n, 'h, 'r) verifier \<Rightarrow> string \<Rightarrow> bool" where
  "authorized hx v header \<longleftrightarrow>
     (\<exists>token st. bearer header = Some token \<and> TokenReviews_Create hx token (tokenReviewAudiences v) = Inr st
        \<and> Authenticated st \<and> tr_Username st \<in> set (allowedUsers v))"

lemma bearer_Nil [simp]: "bearer [] = None"
  by (simp add: bearer_def CutPrefix_def)

lemma authenticate_Some: "bearer header = Some token \<Longrightarrow> authenticate hx v header = reviewOutcome hx v token"
  by (auto simp: authenticate_def bearer_def Let_def CutPrefix_def split: prod.splits if_splits)

lemma authenticate_None:
  "bearer header = None \<Longrightarrow> \<exists>msg. authenticate hx v header = (Inr (401, msg), [])"
  by (auto simp: authenticate_def bearer_def Let_def split: prod.splits if_splits)

lemma authenticate_ok_iff: "fst (authenticate hx v header) = Inr (200, msg) \<longleftrightarrow> authorized hx v header \<and> msg = []"
proof (cases "bearer header")
  case None
  then show ?thesis
    using authenticate_None [OF None, of hx v] by (auto simp: authorized_def)
next
  case (Some token)
  then show ?thesis
    by (auto simp: authenticate_Some authorized_def reviewOutcome_def isAllowed_def list_ex_iff
        split: sum.splits gerr.splits if_splits)
qed

lemma authenticate_status: "fst (authenticate hx v header) = Inr (status, msg) \<Longrightarrow> status \<in> {200, 401, 403, 500}"
  by (auto simp: authenticate_def reviewOutcome_def Let_def split: sum.splits gerr.splits if_splits prod.splits)

lemma respond_cases:
  assumes "respond hx ext rd v = (Inr resp, v')"
  shows "(\<exists>vr rdata. processRequestData (fmt_attestation hx) rd = Inr vr
        \<and> verifyImagesAndAttestations ext vr v = (Inr rdata, v') \<and> Verified rdata
        \<and> marshal_ResponseData hx rdata = Inr (ResponseBody resp)
        \<and> Status resp = 200 \<and> ContentType resp = ''application/json'')
    \<or> (\<exists>msg. resp = http_Error msg 406 \<or> resp = http_Error msg 500)"
  using assms
  by (auto simp: respond_def split: sum.splits prod.splits gerr.splits if_splits)

lemma handle_authorized:
  assumes "HandleCheckImages hx ext r v = (x, v')"
  shows "(Method r = ''POST'' \<and> (reviewToken v \<longrightarrow> authorized hx v (AuthorizationHeader r))
        \<and> (\<exists>rd. decode_RequestData hx (MaxBytesReader (Body r) maxRequestBodyBytes) = Inr rd
             \<and> respond hx ext rd v = (x, v')))
    \<or> (v' = v \<and> (\<forall>resp. x = Inr resp \<longrightarrow> Status resp \<in> {401, 403, 405, 406, 500} \<and> ContentType resp = ''text/plain; charset=utf-8''))"
proof (cases "Method r = ''POST''")
  case False
  with assms show ?thesis by (auto simp: HandleCheckImages_def http_Error_def)
next
  case post: True
  let ?auth = "if reviewToken v then fst (authenticate hx v (AuthorizationHeader r)) else Inr (200, [])"
  let ?dec = "decode_RequestData hx (MaxBytesReader (Body r) maxRequestBodyBytes)"
  show ?thesis
  proof (cases ?auth)
    case (Inl e)
    with assms post show ?thesis by (auto simp: HandleCheckImages_def)
  next
    case (Inr sm)
    obtain status msg where sm: "sm = (status, msg)" by (cases sm)
    show ?thesis
    proof (cases "status = 200")
      case False
      with Inr sm have "status \<in> {401, 403, 500}"
        using authenticate_status [of hx v "AuthorizationHeader r" status msg] by (auto split: if_splits)
      with False assms post Inr sm show ?thesis by (auto simp: HandleCheckImages_def http_Error_def)
    next
      case True
      with Inr sm have auth: "reviewToken v \<longrightarrow> authorized hx v (AuthorizationHeader r)"
        using authenticate_ok_iff [of hx v "AuthorizationHeader r" msg] by (auto split: if_splits)
      from assms post Inr sm True
      have "(case ?dec of Inl (Panic p) \<Rightarrow> (Inl (Panic p), v)
            | Inl (Err e) \<Rightarrow> (Inr (http_Error (''failed to decode request body: '' @ e) 406), v)
            | Inr rd \<Rightarrow> respond hx ext rd v) = (x, v')"
        by (simp add: HandleCheckImages_def)
      with auth post show ?thesis
        by (cases ?dec) (auto simp: http_Error_def split: gerr.splits)
    qed
  qed
qed

section \<open>Properties\<close>

text \<open>
  End to end, only verified images are admitted: the endpoint answers 200 only to a POST
  request whose bearer token (unless token review is switched off) the API server reviewed as
  authenticated for the configured audiences and whose user is on the allow list, whose body
  decodes to a valid request, and for which every image the request selects is judged by the
  cache under the request's trust policy or by a successful notation verification with the
  verifier of that policy; the body is then the encoding of a response that patches each of
  these images to the digest of its verdict (unless the trust policy skips it) and nothing else.
\<close>

theorem admitted_only_if_verified:
  assumes "HandleCheckImages hx ext r v = (Inr resp, v')" and "Status resp = 200"
    and "cache_ok (v_cache v)" and "range_order (order ext)"
    and "\<forall>rd. decode_RequestData hx (MaxBytesReader (Body r) maxRequestBodyBytes) = Inr rd \<longrightarrow>
           wf_images (rd_Images rd) \<and> (\<forall>vr. processRequestData (fmt_attestation hx) rd = Inr vr \<longrightarrow> admissible ext vr)"
  shows "Method r = ''POST'' \<and> (reviewToken v \<longrightarrow> authorized hx v (AuthorizationHeader r))
    \<and> (\<exists>rd vr rdata nv opts vs.
         decode_RequestData hx (MaxBytesReader (Body r) maxRequestBodyBytes) = Inr rd \<and> valid_request rd
         \<and> processRequestData (fmt_attestation hx) rd = Inr vr
         \<and> marshal_ResponseData hx rdata = Inr (ResponseBody resp)
         \<and> map_of (verifiers (notationVerifierFactory v)) (getTrustPolicy (getenv ext) vr) = Some nv
         \<and> fst ` set vs = selects ext vr \<and> Results rdata = patches ext vs
         \<and> (\<forall>(info, img) \<in> set vs.
              GetImage (v_cache v) (getTrustPolicy (getenv ext) vr) (image_String ext (info_Image info)) = Some img
              \<or> verified_as ext opts nv (image_String ext (info_Image info)) (img_Digest img)))"
proof -
  from handle_authorized [OF assms(1)] assms(2) obtain rd where auth: "Method r = ''POST''"
      "reviewToken v \<longrightarrow> authorized hx v (AuthorizationHeader r)"
    and rd: "decode_RequestData hx (MaxBytesReader (Body r) maxRequestBodyBytes) = Inr rd"
    and run: "respond hx ext rd v = (Inr resp, v')"
    by auto
  from respond_cases [OF run] assms(2) obtain vr rdata where
    vr: "processRequestData (fmt_attestation hx) rd = Inr vr" "verifyImagesAndAttestations ext vr v = (Inr rdata, v')"
      "Verified rdata" "marshal_ResponseData hx rdata = Inr (ResponseBody resp)"
    by (auto simp: http_Error_def)
  have "valid_request rd"
    using processRequestData_ok_iff [of "fmt_attestation hx" rd] vr(1) by simp
  moreover have "wf_images (Images vr)" "admissible ext vr"
    using assms(5) rd vr(1) processRequestData_fields(2) [OF vr(1)] by auto
  from verified_response_earned [OF assms(3) this(2) assms(4) this(1) vr(2,3)]
  obtain nv opts vs where "map_of (verifiers (notationVerifierFactory v)) (getTrustPolicy (getenv ext) vr) = Some nv"
    "fst ` set vs = selects ext vr" "Results rdata = patches ext vs"
    "\<forall>(info, img) \<in> set vs. GetImage (v_cache v) (getTrustPolicy (getenv ext) vr) (image_String ext (info_Image info)) = Some img
       \<or> verified_as ext opts nv (image_String ext (info_Image info)) (img_Digest img)"
    by (elim exE conjE) (rule that)
  ultimately show ?thesis
    using auth rd vr(1,4) by (intro conjI exI) assumption+
qed

definition demo_rd :: RequestData where
  "demo_rd = \<lparr> rd_ImageReferences = [''*''], rd_Images = Images (demo_request []), rd_TrustPolicy = ''tp'',
     rd_Attestations = [], rd_Metadata = [], rd_Insecure = False \<rparr>"

text \<open>A concrete environment of the handler: the token \<^verbatim>\<open>t\<close> is the user \<^verbatim>\<open>kyverno\<close>, the body \<^verbatim>\<open>{}\<close> decodes
  to a request, and a response is encoded as the image of its first patch.\<close>

definition demo_hx :: http_ext where
  "demo_hx =
     \<lparr> TokenReviews_Create = (\<lambda>t auds. if t = ''t'' then Inr \<lparr> Authenticated = True, tr_Username = ''kyverno'', tr_Error = [] \<rparr>
         else Inr \<lparr> Authenticated = False, tr_Username = [], tr_Error = ''invalid'' \<rparr>),
       decode_RequestData = (\<lambda>(bytes, e). if bytes = ''{}'' then Inr demo_rd else Inl (Err ''EOF'')),
       fmt_attestation = (\<lambda>a. []),
       marshal_ResponseData = (\<lambda>rdata. Inr (concat (map op_Value (Results rdata)))) \<rparr>"

definition demo_http :: "string \<Rightarrow> httpRequest" where
  "demo_http header = \<lparr> Method = ''POST'', AuthorizationHeader = header, Body = ''{}'' \<rparr>"

lemma demo_handled:
  "\<exists>v'. HandleCheckImages demo_hx demo_ext (demo_http ''Bearer t'') (demo_verifier [(''tp'', ''good'')])
     = (Inr \<lparr> Status = 200, ContentType = ''application/json'', ResponseBody = ''r/app@sha256:1'' \<rparr>, v')"
proof -
  have trim: "TrimSpace ''t'' = ''t''" by (simp add: trim_eval)
  have auth: "fst (authenticate demo_hx (demo_verifier [(''tp'', ''good'')]) ''Bearer t'') = Inr (200, [])"
    by (simp add: authenticate_def reviewOutcome_def CutPrefix_def trim demo_hx_def isAllowed_def demo_verifier_def)
  have lim: "MaxBytesReader ''{}'' maxRequestBodyBytes = (''{}'', None)"
    by (simp add: MaxBytesReader_def maxRequestBodyBytes_def)
  have dec: "decode_RequestData demo_hx (''{}'', None) = Inr demo_rd"
    by (simp add: demo_hx_def)
  have run: "\<exists>v'. respond demo_hx demo_ext demo_rd (demo_verifier [(''tp'', ''good'')])
     = (Inr \<lparr> Status = 200, ContentType = ''application/json'', ResponseBody = ''r/app@sha256:1'' \<rparr>, v')"
    by (simp add: respond_def processRequestData_def demo_rd_def demo_hx_def demo_request_eval)
  show ?thesis
    using run by (simp add: HandleCheckImages_def demo_http_def auth lim dec)
qed

lemma demo_rd_ok:
  "\<forall>rd. decode_RequestData demo_hx (MaxBytesReader (Body (demo_http h)) maxRequestBodyBytes) = Inr rd \<longrightarrow>
     wf_images (rd_Images rd) \<and> (\<forall>vr. processRequestData (fmt_attestation demo_hx) rd = Inr vr \<longrightarrow> admissible demo_ext vr)"
proof -
  have "admissible demo_ext vr" if "processRequestData (fmt_attestation demo_hx) demo_rd = Inr vr" for vr
    using processRequestData_fields [OF that]
    by (simp add: admissible_def no_sep_def demo_rd_def demo_request_def all_images_def getTrustPolicy_def
        demo_info_def demo_image_def demo_ext_def demo_String_def)
  moreover have "wf_images (rd_Images demo_rd)"
    by (simp add: demo_rd_def demo_admissible)
  ultimately show ?thesis
    by (auto simp: demo_hx_def split: prod.splits if_splits)
qed

lemma demo_reviews [simp]: "reviewToken (demo_verifier vs)"
  by (simp add: demo_verifier_def)

theorem admitted_only_if_verified_witness:
  "\<exists>resp v'. HandleCheckImages demo_hx demo_ext (demo_http ''Bearer t'') (demo_verifier [(''tp'', ''good'')]) = (Inr resp, v')
     \<and> Status resp = 200 \<and> authorized demo_hx (demo_verifier [(''tp'', ''good'')]) ''Bearer t''"
proof -
  let ?v = "demo_verifier [(''tp'', ''good'')]"
  from demo_handled obtain v' where run: "HandleCheckImages demo_hx demo_ext (demo_http ''Bearer t'') ?v
     = (Inr \<lparr> Status = 200, ContentType = ''application/json'', ResponseBody = ''r/app@sha256:1'' \<rparr>, v')"
    by (elim exE) (rule that)
  have "cache_ok (v_cache ?v)" by (simp add: demo_verifier_def)
  from admitted_only_if_verified [OF run _ this demo_admissible(3) demo_rd_ok]
  have "authorized demo_hx ?v ''Bearer t''" by (simp add: demo_http_def)
  with run show ?thesis by (metis httpResponse.select_convs(1))
qed

text \<open>What decides about a request before its body is looked at.\<close>

lemma handle_not_post:
  "Method r \<noteq> ''POST'' \<Longrightarrow> HandleCheckImages hx ext r v = (Inr (http_Error ''Method Not Allowed'' 405), v)"
  by (simp add: HandleCheckImages_def)

lemma handle_unauthorized:
  assumes "Method r = ''POST''" and "reviewToken v" and "\<not> authorized hx v (AuthorizationHeader r)"
  shows "HandleCheckImages hx ext r v =
    (case fst (authenticate hx v (AuthorizationHeader r)) of Inl e \<Rightarrow> Inl e | Inr (status, msg) \<Rightarrow> Inr (http_Error msg status), v)"
proof (cases "fst (authenticate hx v (AuthorizationHeader r))")
  case (Inl e)
  with assms show ?thesis by (simp add: HandleCheckImages_def)
next
  case (Inr sm)
  obtain status msg where sm: "sm = (status, msg)" by fastforce
  with Inr assms(3) authenticate_ok_iff [of hx v "AuthorizationHeader r" msg] have "status \<noteq> 200" by auto
  with assms Inr sm show ?thesis by (simp add: HandleCheckImages_def)
qed

lemma authenticate_cong:
  "(\<And>token. bearer header = Some token \<Longrightarrow>
       TokenReviews_Create hx' token (tokenReviewAudiences v) = TokenReviews_Create hx token (tokenReviewAudiences v)) \<Longrightarrow>
     authenticate hx' v header = authenticate hx v header"
  by (cases "bearer header") (auto simp: authenticate_Some reviewOutcome_def, auto simp: authenticate_def bearer_def Let_def split: prod.splits if_splits)

lemma authorized_cong:
  "(\<And>token. bearer header = Some token \<Longrightarrow>
       TokenReviews_Create hx' token (tokenReviewAudiences v) = TokenReviews_Create hx token (tokenReviewAudiences v)) \<Longrightarrow>
     authorized hx' v header \<longleftrightarrow> authorized hx v header"
  unfolding authorized_def by (cases "bearer header") simp_all

lemma handle_unauthorized_cong:
  assumes "Method r = ''POST''" and "reviewToken v" and "\<not> authorized hx v (AuthorizationHeader r)"
    and "Method r' = ''POST''" and "AuthorizationHeader r' = AuthorizationHeader r"
    and eq: "\<And>token. bearer (AuthorizationHeader r) = Some token \<Longrightarrow>
       TokenReviews_Create hx' token (tokenReviewAudiences v) = TokenReviews_Create hx token (tokenReviewAudiences v)"
  shows "HandleCheckImages hx' ext' r' v = HandleCheckImages hx ext r v"
proof -
  have "authenticate hx' v (AuthorizationHeader r) = authenticate hx v (AuthorizationHeader r)"
    and "authorized hx' v (AuthorizationHeader r) \<longleftrightarrow> authorized hx v (AuthorizationHeader r)"
    using authenticate_cong authorized_cong eq by metis+
  with assms(1-5) handle_unauthorized [of r' v hx' ext'] handle_unauthorized [of r v hx ext] show ?thesis by simp
qed

text \<open>
  C25. Refusals change nothing, say so and come in order. Every response other than 200 is a
  plain-text error with one of the statuses 401, 403, 405, 406 and 500. A request that is not a
  POST, is not authorized, does not decode or is not valid leaves the verifier exactly as it was,
  and its answer depends on nothing the registry or notation would say. What is not a POST is
  answered 405 before its header or body are looked at; without an allowed bearer token the answer
  depends neither on the body nor on the decoder, so that no body is decoded before its sender is
  authenticated; and a request without a bearer token is refused without asking the API server.
\<close>

theorem refused_changes_nothing:
  assumes "HandleCheckImages hx ext r v = (x, v')"
  shows "(\<forall>resp. x = Inr resp \<longrightarrow> Status resp = 200 \<or>
            Status resp \<in> {401, 403, 405, 406, 500} \<and> ContentType resp = ''text/plain; charset=utf-8'')
    \<and> (Method r \<noteq> ''POST'' \<or> (reviewToken v \<and> \<not> authorized hx v (AuthorizationHeader r))
        \<or> \<not> (\<exists>rd. decode_RequestData hx (MaxBytesReader (Body r) maxRequestBodyBytes) = Inr rd \<and> valid_request rd)
        \<longrightarrow> v' = v \<and> (\<forall>ext'. HandleCheckImages hx ext' r v = (x, v)))
    \<and> (Method r \<noteq> ''POST'' \<longrightarrow> x = Inr (http_Error ''Method Not Allowed'' 405)
        \<and> (\<forall>hx' header body. HandleCheckImages hx' ext (r\<lparr> AuthorizationHeader := header, Body := body \<rparr>) v = (x, v)))
    \<and> (Method r = ''POST'' \<and> reviewToken v \<and> \<not> authorized hx v (AuthorizationHeader r) \<longrightarrow>
        (\<forall>decoder body. HandleCheckImages (hx\<lparr> decode_RequestData := decoder \<rparr>) ext (r\<lparr> Body := body \<rparr>) v = (x, v)))
    \<and> (Method r = ''POST'' \<and> reviewToken v \<and> bearer (AuthorizationHeader r) = None \<longrightarrow>
        (\<exists>resp. x = Inr resp \<and> Status resp = 401)
        \<and> (\<forall>api. HandleCheckImages (hx\<lparr> TokenReviews_Create := api \<rparr>) ext r v = (x, v)))"
    (is "?A \<and> (?refused \<longrightarrow> ?B) \<and> (?other \<longrightarrow> ?C) \<and> (?na \<longrightarrow> ?D) \<and> (?none \<longrightarrow> ?E)")
proof -
  have resp: "Status resp = 200 \<or> Status resp \<in> {406, 500} \<and> ContentType resp = ''text/plain; charset=utf-8''"
    if "respond hx ext rd v = (Inr resp, v')" for rd resp
    using respond_cases [OF that] by (auto simp: http_Error_def)
  then have A: ?A using handle_authorized [OF assms] by fastforce
  have invalid: "v' = v \<and> (\<forall>ext'. HandleCheckImages hx ext' r v = (x, v))"
    if "Method r = ''POST''" and "reviewToken v \<longrightarrow> authorized hx v (AuthorizationHeader r)"
      and no: "\<not> (\<exists>rd. decode_RequestData hx (MaxBytesReader (Body r) maxRequestBodyBytes) = Inr rd \<and> valid_request rd)"
  proof -
    have "respond hx e rd v = (Inr (http_Error (gerr_text (projl (processRequestData (fmt_attestation hx) rd))) 406), v)"
      if "\<not> valid_request rd" for e rd
      using that processRequestData_ok_iff [of "fmt_attestation hx" rd] by (auto simp: respond_def split: sum.splits)
    then have "HandleCheckImages hx e r v = (case decode_RequestData hx (MaxBytesReader (Body r) maxRequestBodyBytes) of
        Inl (Panic p) \<Rightarrow> (Inl (Panic p), v)
      | Inl (Err t) \<Rightarrow> (Inr (http_Error (''failed to decode request body: '' @ t) 406), v)
      | Inr rd \<Rightarrow> (Inr (http_Error (gerr_text (projl (processRequestData (fmt_attestation hx) rd))) 406), v))" for e
      using that authenticate_ok_iff [of hx v "AuthorizationHeader r" "[]"]
      by (auto simp: HandleCheckImages_def split: sum.split gerr.split)
    with assms show ?thesis by (auto split: sum.split_asm gerr.split_asm)
  qed
  have keeps: "v' = v" if "?other \<or> ?na" using that assms handle_not_post [of r hx ext v] handle_unauthorized [of r v hx ext] by auto
  have other: ?C if ?other using that assms by (simp add: handle_not_post)
  have na: "HandleCheckImages hx' ext' (r\<lparr> Body := body \<rparr>) v = (x, v)"
    if ?na and "\<And>token. bearer (AuthorizationHeader r) = Some token \<Longrightarrow>
       TokenReviews_Create hx' token (tokenReviewAudiences v) = TokenReviews_Create hx token (tokenReviewAudiences v)" for ext' hx' body
    using that assms keeps handle_unauthorized_cong [of r v hx "r\<lparr> Body := body \<rparr>" hx' ext' ext] by simp
  have "v' = v \<and> (\<forall>ext'. HandleCheckImages hx ext' r v = (x, v))" if ?refused
  proof (cases "?other \<or> ?na")
    case True
    have "HandleCheckImages hx ext' r v = HandleCheckImages hx ext r v" for ext'
      by (cases "Method r = ''POST''") (use True handle_unauthorized_cong [of r v hx r hx ext' ext] in \<open>auto simp: handle_not_post\<close>)
    then have "HandleCheckImages hx ext' r v = (x, v')" for ext' using assms by (rule trans)
    with keeps [OF True] show ?thesis by simp
  qed (use that invalid in blast)
  moreover have ?D if ?na using that by (intro allI na) simp_all
  moreover have ?E if none: ?none
  proof -
    obtain msg where msg: "authenticate hx v (AuthorizationHeader r) = (Inr (401, msg), [])"
      using authenticate_None [of "AuthorizationHeader r" hx v] none by auto
    have "\<not> authorized hx v (AuthorizationHeader r)" using none by (simp add: authorized_def)
    with none have n: ?na by simp
    then have "x = Inr (http_Error msg 401)" using assms msg handle_unauthorized [of r v hx ext] by simp
    moreover have "HandleCheckImages (hx\<lparr> TokenReviews_Create := api \<rparr>) ext r v = (x, v)" for api
      using na [OF n, of "hx\<lparr> TokenReviews_Create := api \<rparr>" ext "Body r"] none by simp
    ultimately show ?thesis by (simp add: http_Error_def)
  qed
  ultimately show ?thesis using A other by blast
qed

theorem refused_changes_nothing_witness:
  "\<exists>resp. HandleCheckImages demo_hx demo_ext (demo_http ''Bearer x'') (demo_verifier [(''tp'', ''good'')])
      = (Inr resp, demo_verifier [(''tp'', ''good'')]) \<and> Status resp = 401"
proof -
  let ?v = "demo_verifier [(''tp'', ''good'')]"
  have trim: "TrimSpace ''x'' = ''x''" by (simp add: trim_eval)
  have auth: "fst (authenticate demo_hx ?v ''Bearer x'') = Inr (401, ''Token is not authenticated'')"
    by (simp add: authenticate_def reviewOutcome_def CutPrefix_def trim demo_hx_def)
  then have na: "\<not> authorized demo_hx ?v ''Bearer x''"
    using authenticate_ok_iff [of demo_hx ?v "''Bearer x''" "[]"] by simp
  obtain y v' where run: "HandleCheckImages demo_hx demo_ext (demo_http ''Bearer x'') ?v = (y, v')" by fastforce
  have "v' = ?v"
    using refused_changes_nothing [OF run] na by (simp add: demo_http_def)
  moreover have "y = Inr (http_Error ''Token is not authenticated'' 401)"
    using run by (simp add: HandleCheckImages_def demo_http_def auth)
  ultimately show ?thesis using run by (simp add: http_Error_def)
qed

text \<open>
  Nothing the caller writes into the metadata of a request influences it: two requests that
  decode to the same data apart from the metadata (which carries the verify-images annotation)
  get the same response and leave the same verifier. In particular no annotation can skip the
  verification of an image.
\<close>

theorem metadata_ignored:
  assumes "decode_RequestData hx (MaxBytesReader (Body r) maxRequestBodyBytes) = Inr rd"
    and "decode_RequestData hx (MaxBytesReader body maxRequestBodyBytes) = Inr (rd\<lparr> rd_Metadata := m \<rparr>)"
  shows "HandleCheckImages hx ext (r\<lparr> Body := body \<rparr>) v = HandleCheckImages hx ext r v"
proof -
  have "processRequestData f (rd\<lparr> rd_Metadata := m \<rparr>) = processRequestData f rd" for f
    by (simp add: processRequestData_def split: option.splits)
  then have "respond hx ext (rd\<lparr> rd_Metadata := m \<rparr>) v = respond hx ext rd v"
    by (simp add: respond_def)
  then show ?thesis
    by (simp add: HandleCheckImages_def assms cong del: sum.case_cong_weak prod.case_cong_weak if_weak_cong)
qed

theorem metadata_ignored_witness:
  "HandleCheckImages (demo_hx\<lparr> decode_RequestData := (\<lambda>(bytes, e). Inr (demo_rd\<lparr> rd_Metadata := bytes \<rparr>)) \<rparr>) demo_ext
      ((demo_http ''Bearer t'')\<lparr> Body := ''skip'' \<rparr>) (demo_verifier [])
   = HandleCheckImages (demo_hx\<lparr> decode_RequestData := (\<lambda>(bytes, e). Inr (demo_rd\<lparr> rd_Metadata := bytes \<rparr>)) \<rparr>) demo_ext
      (demo_http ''Bearer t'') (demo_verifier [])"
  by (rule metadata_ignored [where rd = "demo_rd\<lparr> rd_Metadata := ''{}'' \<rparr>" and m = "''skip''"])
    (simp_all add: MaxBytesReader_def maxRequestBodyBytes_def demo_http_def demo_rd_def)

text \<open>
  The bearer token is never disclosed: what the endpoint answers and logs about a well-formed
  token depends only on what the API server said about it, so two tokens with the same review
  cannot be told apart from the response or from the log.
\<close>

theorem token_not_disclosed:
  assumes "bearer header = Some token" and "bearer header' = Some token'"
    and "TokenReviews_Create hx token (tokenReviewAudiences v) = TokenReviews_Create hx token' (tokenReviewAudiences v)"
  shows "authenticate hx v header = authenticate hx v header'"
  by (simp add: authenticate_Some [OF assms(1)] authenticate_Some [OF assms(2)] reviewOutcome_def assms(3))

theorem token_not_disclosed_witness:
  "authenticate demo_hx (demo_verifier []) ''Bearer x'' = authenticate demo_hx (demo_verifier []) ''Bearer y''"
proof (rule token_not_disclosed)
  have "TrimSpace ''x'' = ''x''" "TrimSpace ''y'' = ''y''" by (simp_all add: trim_eval)
  then show "bearer ''Bearer x'' = Some ''x''" "bearer ''Bearer y'' = Some ''y''"
    by (simp_all add: bearer_def CutPrefix_def)
qed (simp add: demo_hx_def)

text \<open>
  The body is bounded: of a body of more than four mebibytes only the first four mebibytes are
  read, so no later byte can have any effect, and the decoder is told that the body is too large.
\<close>

theorem body_bounded:
  assumes "4194304 < length (Body r)" and "4194304 < length body" and "take 4194304 body = take 4194304 (Body r)"
  shows "HandleCheckImages hx ext (r\<lparr> Body := body \<rparr>) v = HandleCheckImages hx ext r v
    \<and> MaxBytesReader body maxRequestBodyBytes = (take 4194304 body, Some (Err ''http: request body too large''))"
proof -
  have "maxRequestBodyBytes = 4194304" by (simp add: maxRequestBodyBytes_def)
  then have "MaxBytesReader body maxRequestBodyBytes = (take 4194304 body, Some (Err ''http: request body too large''))"
    and "MaxBytesReader (Body r) maxRequestBodyBytes = (take 4194304 body, Some (Err ''http: request body too large''))"
    using assms by (simp_all add: MaxBytesReader_def)
  then show ?thesis
    by (simp add: HandleCheckImages_def cong del: sum.case_cong_weak prod.case_cong_weak if_weak_cong)
qed

theorem body_bounded_witness:
  "HandleCheckImages demo_hx demo_ext ((demo_http ''Bearer t'')\<lparr> Body := replicate 4194304 CHR ''x'' @ ''y'' \<rparr>) (demo_verifier [])
   = HandleCheckImages demo_hx demo_ext ((demo_http ''Bearer t'')\<lparr> Body := replicate 4194304 CHR ''x'' @ ''zz'' \<rparr>) (demo_verifier [])"
proof -
  have "HandleCheckImages demo_hx demo_ext
      (((demo_http ''Bearer t'')\<lparr> Body := replicate 4194304 CHR ''x'' @ ''zz'' \<rparr>)\<lparr> Body := replicate 4194304 CHR ''x'' @ ''y'' \<rparr>) (demo_verifier [])
    = HandleCheckImages demo_hx demo_ext ((demo_http ''Bearer t'')\<lparr> Body := replicate 4194304 CHR ''x'' @ ''zz'' \<rparr>) (demo_verifier [])"
    by (rule body_bounded [THEN conjunct1]) simp_all
  then show ?thesis by simp
qed

end
