(* ===== verification/Construct.thy ===== *)
theory Construct
  imports Handler
begin

text \<open>
  Construction, refresh and shutdown of the verifier: the options and \<^verbatim>\<open>NewVerifier\<close> of
  \<^verbatim>\<open>internal/verifier/client.go\<close>, \<^verbatim>\<open>newVerifier\<close> of \<^verbatim>\<open>verify.go\<close>. \<open>boot\<close> holds what construction needs from
  outside: the Kubernetes configuration and client, the listers of the informer factory per
  namespace, the cache library and the environment. \<^verbatim>\<open>backoff.Retry\<close> is a parameter that gets the
  operation as a function of the attempt number.
\<close>

section \<open>Options\<close>

record verifier_setup = verifier_conf +
  rawKeychain :: "(int \<Rightarrow> resource \<Rightarrow> authenticator result) option"

type_synonym Option = "verifier_setup \<Rightarrow> verifier_setup"

definition zero_setup :: verifier_setup where
  "zero_setup =
     \<lparr> imagePullSecrets = [], insecureRegistry = False, pluginConfigMap = [], maxSignatureAttempts = 0,
       maxCacheSize = 0, v_useCache = False, reviewToken = False, tokenReviewAudiences = [], maxCacheTTL = 0,
       debug = False, allowedUsers = [], rawKeychain = None \<rparr>"

definition WithImagePullSecrets :: "string \<Rightarrow> Option" where
  "WithImagePullSecrets secrets v = v\<lparr> imagePullSecrets := secrets \<rparr>"

definition WithInsecureRegistry :: "bool \<Rightarrow> Option" where
  "WithInsecureRegistry b v = v\<lparr> insecureRegistry := b \<rparr>"

definition WithPluginConfig :: "string \<Rightarrow> Option" where
  "WithPluginConfig cm v = v\<lparr> pluginConfigMap := cm \<rparr>"

definition WithMaxSignatureAttempts :: "int \<Rightarrow> Option" where
  "WithMaxSignatureAttempts n v = v\<lparr> maxSignatureAttempts := n \<rparr>"

definition WithMaxCacheSize :: "int \<Rightarrow> Option" where
  "WithMaxCacheSize n v = v\<lparr> maxCacheSize := n \<rparr>"

definition WithMaxCacheTTL :: "int \<Rightarrow> Option" where
  "WithMaxCacheTTL t v = v\<lparr> maxCacheTTL := t \<rparr>"

definition WithCacheEnabled :: "bool \<Rightarrow> Option" where
  "WithCacheEnabled b v = v\<lparr> v_useCache := b \<rparr>"

definition WithTokenReviewEnabled :: "bool \<Rightarrow> Option" where
  "WithTokenReviewEnabled b v = v\<lparr> reviewToken := b \<rparr>"

definition WithTokenReviewAudiences :: "string list \<Rightarrow> Option" where
  "WithTokenReviewAudiences audiences v = v\<lparr> tokenReviewAudiences := audiences \<rparr>"

definition WithEnableDebug :: "bool \<Rightarrow> Option" where
  "WithEnableDebug b v = v\<lparr> debug := b \<rparr>"

definition WithAllowedUsers :: "string list \<Rightarrow> Option" where
  "WithAllowedUsers users v = v\<lparr> allowedUsers := users \<rparr>"

definition WithProviderKeychain :: "(int \<Rightarrow> resource \<Rightarrow> authenticator result) \<Rightarrow> Option" where
  "WithProviderKeychain kc v = v\<lparr> rawKeychain := Some kc \<rparr>"

definition applyAll :: "Option list \<Rightarrow> verifier_setup \<Rightarrow> verifier_setup" where
  "applyAll opts v = fold (\<lambda>o1 v. o1 v) opts v"

section \<open>Construction\<close>

record ('h, 'r) boot =
  ctrl_GetConfig :: "'h result"
  kubernetes_NewForConfig :: "'h \<Rightarrow> 'h result"
  boot_getenv :: "string \<Rightarrow> string"
  Secrets_Lister :: "string \<Rightarrow> string \<Rightarrow> 'h result"
  ConfigMaps_Lister :: "string \<Rightarrow> string \<Rightarrow> string gomap result"
  boot_FromConfig :: "AuthConfig \<Rightarrow> authenticator"
  boot_ristretto :: "'r ristretto_ops"

definition newVerifier ::
    "('h, 'r) boot \<Rightarrow> ('d, 'n) notation_lib \<Rightarrow> os_env \<Rightarrow> os \<Rightarrow> path \<Rightarrow> Option list
       \<Rightarrow> ('n, 'h, 'r) verifier result" where
  "newVerifier b lib env s notationPath opts =
     (let v = applyAll opts zero_setup
      in (case ctrl_GetConfig b of
            Inl e \<Rightarrow> Inl (wrap ''failed to get Kubernetes config'' e)
          | Inr cfg \<Rightarrow>
              (case kubernetes_NewForConfig b cfg of
                 Inl e \<Rightarrow> Inl (wrap ''failed to create Kubernetes client'' e)
               | Inr kubeClient \<Rightarrow>
                   (case RefreshVerifiers lib env s notationPath NewNotationVerifierFactory of
                      (Some e, f) \<Rightarrow> Inl (wrap ''failed to create notation verifiers'' e)
                    | (None, f) \<Rightarrow>
                        (let pk = map_option (\<lambda>kc. newCachingKeychain kc (boot_FromConfig b) providerCredentialsTTL)
                               (rawKeychain v)
                         in (case New_cache (boot_ristretto b)
                                   [WithCacheEnabled_cache (v_useCache v), WithMaxSize (maxCacheSize v),
                                    WithTTLDuration (maxCacheTTL v)] of
                               Inl e \<Rightarrow> Inl (wrap ''failed to create cache client'' e)
                             | Inr c \<Rightarrow>
                                 (let ns = boot_getenv b ''POD_NAMESPACE''
                                  in Inr (verifier_conf.extend (verifier_conf.truncate v)
                                       \<lparr> notationVerifierFactory = f,
                                         secretLister = (if imagePullSecrets v \<noteq> [] then Some (Secrets_Lister b ns) else None),
                                         configMapLister = (if pluginConfigMap v \<noteq> [] then Some (ConfigMaps_Lister b ns) else None),
                                         providerKeychain = pk, v_cache = c, stopCh_closed = False \<rparr>))))))))"

definition NewVerifier ::
    "((nat \<Rightarrow> ('n, 'h, 'r) verifier result) \<Rightarrow> ('n, 'h, 'r) verifier result)
       \<Rightarrow> (nat \<Rightarrow> ('h, 'r) boot \<times> os_env \<times> os) \<Rightarrow> ('d, 'n) notation_lib \<Rightarrow> path \<Rightarrow> Option list
       \<Rightarrow> ('n, 'h, 'r) verifier result" where
  "NewVerifier Retry attempt lib notationPath opts =
     Retry (\<lambda>i. case attempt i of (b, env, s) \<Rightarrow> newVerifier b lib env s notationPath opts)"

section \<open>Lemmas\<close>

text \<open>A freshly constructed verifier on the policy files of disk \<open>s\<close>.\<close>

definition ready ::
    "('h, 'r) boot \<Rightarrow> ('d, 'n) notation_lib \<Rightarrow> os \<Rightarrow> path \<Rightarrow> Option list \<Rightarrow> ('n, 'h, 'r) verifier \<Rightarrow> bool" where
  "ready b lib s notationPath opts v \<longleftrightarrow>
     listers_ready v
     \<and> (\<forall>tp. map_of (verifiers (notationVerifierFactory v)) tp = policy_verifier lib (disk s) notationPath tp)
     \<and> verifier_conf.truncate v = verifier_conf.truncate (applyAll opts zero_setup)
     \<and> 0 < maxSize (v_cache v) \<and> 0 < ttl (v_cache v) \<and> useCache (v_cache v) = v_useCache v
     \<and> cache_ops (v_cache v) = boot_ristretto b
     \<and> (\<forall>kc. providerKeychain v = Some kc \<longrightarrow> entries kc = [] \<and> kc_ttl kc = providerCredentialsTTL)
     \<and> \<not> stopCh_closed v"

lemma New_cache_useCache:
  "New_cache ops [WithCacheEnabled_cache u, WithMaxSize n, WithTTLDuration t] = Inr c \<Longrightarrow>
     useCache c = u \<and> 0 < maxSize c \<and> 0 < ttl c \<and> cache_ops c = ops"
  by (auto simp: New_cache_def Let_def cache_conf.extend_def WithCacheEnabled_cache_def WithMaxSize_def
      WithTTLDuration_def defaultMaxSize_def defaultTTL_def split: sum.splits if_splits)

lemma newVerifier_ready:
  assumes "newVerifier b lib env s notationPath opts = Inr v" and "wf_names (disk s)"
  shows "ready b lib s notationPath opts v"
proof -
  let ?v = "applyAll opts zero_setup"
  from assms(1) obtain cfg kube f c where
    f: "RefreshVerifiers lib env s notationPath NewNotationVerifierFactory = (None, f)"
    and c: "New_cache (boot_ristretto b)
              [WithCacheEnabled_cache (v_useCache ?v), WithMaxSize (maxCacheSize ?v), WithTTLDuration (maxCacheTTL ?v)] = Inr c"
    and v: "v = verifier_conf.extend (verifier_conf.truncate ?v)
       \<lparr> notationVerifierFactory = f,
         secretLister = (if imagePullSecrets ?v \<noteq> [] then Some (Secrets_Lister b (boot_getenv b ''POD_NAMESPACE'')) else None),
         configMapLister = (if pluginConfigMap ?v \<noteq> [] then Some (ConfigMaps_Lister b (boot_getenv b ''POD_NAMESPACE'')) else None),
         providerKeychain = map_option (\<lambda>kc. newCachingKeychain kc (boot_FromConfig b) providerCredentialsTTL) (rawKeychain ?v),
         v_cache = c, stopCh_closed = False \<rparr>"
    by (auto simp: newVerifier_def Let_def split: sum.splits prod.splits option.splits)
  show ?thesis
    using RefreshVerifiers_ok [OF f assms(2)] New_cache_useCache [OF c]
    by (auto simp: ready_def v verifier_conf.defs listers_ready_def newCachingKeychain_def)
qed

text \<open>What \<^verbatim>\<open>backoff.Retry\<close> documents: it repeats the operation while it fails, and returns the result
  of its last attempt.\<close>

definition retries :: "((nat \<Rightarrow> 'a result) \<Rightarrow> 'a result) \<Rightarrow> bool" where
  "retries Retry \<longleftrightarrow> (\<forall>f. \<exists>n. Retry f = f n \<and> (\<forall>i < n. \<not> is_ok (f i)))"

section \<open>Properties\<close>

text \<open>
  C24. A constructed verifier is ready to serve: it has a verifier for exactly the policy files of
  the last attempt, the configuration its options describe, a lister for every configured source
  (so the request path never meets a nil lister), a cache of positive size and lifetime that is
  enabled exactly when configured, an empty credential cache, and it has not been stopped. If no
  attempt succeeds the error of the last one is returned.
\<close>

theorem NewVerifier_ready:
  assumes "retries Retry" and "\<forall>i. wf_names (disk (snd (snd (attempt i))))"
  shows "\<exists>n. (\<forall>i < n. \<exists>e. newVerifier (fst (attempt i)) lib (fst (snd (attempt i))) (snd (snd (attempt i))) notationPath opts = Inl e)
    \<and> (case NewVerifier Retry attempt lib notationPath opts of
         Inr v \<Rightarrow> ready (fst (attempt n)) lib (snd (snd (attempt n))) notationPath opts v
       | Inl e \<Rightarrow> newVerifier (fst (attempt n)) lib (fst (snd (attempt n))) (snd (snd (attempt n))) notationPath opts = Inl e)"
proof -
  let ?trial = "\<lambda>i. case attempt i of (b, env, s) \<Rightarrow> newVerifier b lib env s notationPath opts"
  have try_eq: "?trial i = newVerifier (fst (attempt i)) lib (fst (snd (attempt i))) (snd (snd (attempt i))) notationPath opts" for i
    by (simp add: split_beta)
  from assms(1) obtain n where n: "Retry ?trial = ?trial n" "\<forall>i < n. \<not> is_ok (?trial i)"
    unfolding retries_def by blast
  have "\<forall>i < n. \<exists>e. newVerifier (fst (attempt i)) lib (fst (snd (attempt i))) (snd (snd (attempt i))) notationPath opts = Inl e"
    using n(2) unfolding try_eq is_ok_iff by (metis sum.exhaust)
  moreover have eq: "NewVerifier Retry attempt lib notationPath opts =
      newVerifier (fst (attempt n)) lib (fst (snd (attempt n))) (snd (snd (attempt n))) notationPath opts"
    using n(1) by (simp add: NewVerifier_def split_beta)
  have "case NewVerifier Retry attempt lib notationPath opts of
       Inr v \<Rightarrow> ready (fst (attempt n)) lib (snd (snd (attempt n))) notationPath opts v
     | Inl e \<Rightarrow> newVerifier (fst (attempt n)) lib (fst (snd (attempt n))) (snd (snd (attempt n))) notationPath opts = Inl e"
    unfolding eq using assms(2) by (auto split: sum.splits intro: newVerifier_ready)
  ultimately show ?thesis by blast
qed

definition demo_boot :: "(string, (string \<times> cache_entry) list) boot" where
  "demo_boot =
     \<lparr> ctrl_GetConfig = Inr ''cfg'', kubernetes_NewForConfig = Inr, boot_getenv = (\<lambda>n. ''ns''),
       Secrets_Lister = (\<lambda>ns n. Inr n), ConfigMaps_Lister = (\<lambda>ns n. Inr []),
       boot_FromConfig = demo_from, boot_ristretto = list_store \<rparr>"

text \<open>The first attempt meets an API server that is not there, the second one succeeds.\<close>

definition demo_attempt :: "nat \<Rightarrow> (string, (string \<times> cache_entry) list) boot \<times> os_env \<times> os" where
  "demo_attempt i =
     (if i = 0 then demo_boot\<lparr> ctrl_GetConfig := Inl (Err ''no config'') \<rparr> else demo_boot, calm, demo_os)"

definition retry_once :: "(nat \<Rightarrow> 'a result) \<Rightarrow> 'a result" where
  "retry_once f = (if is_ok (f 0) then f 0 else f 1)"

lemma retries_retry_once: "retries retry_once"
  unfolding retries_def retry_once_def by (metis less_one not_less_zero)

theorem NewVerifier_ready_witness:
  "\<exists>v. NewVerifier retry_once demo_attempt demo_lib [''n''] [WithImagePullSecrets ''regcred''] = Inr v
     \<and> listers_ready v \<and> map_of (verifiers (notationVerifierFactory v)) ''tp'' = Some ''old''"
proof -
  have wf: "\<forall>i. wf_names (disk (snd (snd (demo_attempt i))))"
    by (simp add: demo_attempt_def wf_names_demo)
  have disk: "disk (snd (snd (demo_attempt i))) = disk demo_os" for i
    by (simp add: demo_attempt_def)
  have "is_ok (NewVerifier retry_once demo_attempt demo_lib [''n''] [WithImagePullSecrets ''regcred''])"
  proof -
    obtain f where f: "RefreshVerifiers demo_lib calm demo_os [''n''] NewNotationVerifierFactory = (None, f)"
      by (metis demo_refreshes)
    show ?thesis
      by (simp add: NewVerifier_def retry_once_def demo_attempt_def newVerifier_def demo_boot_def f New_cache_def
          WithCacheEnabled_cache_def WithMaxSize_def WithTTLDuration_def list_store_def Let_def)
  qed
  then obtain v where v: "NewVerifier retry_once demo_attempt demo_lib [''n''] [WithImagePullSecrets ''regcred''] = Inr v"
    unfolding is_ok_iff by blast
  from NewVerifier_ready [OF retries_retry_once wf, of demo_lib "[''n'']" "[WithImagePullSecrets ''regcred'']"]
  obtain n where "ready (fst (demo_attempt n)) demo_lib (snd (snd (demo_attempt n))) [''n''] [WithImagePullSecrets ''regcred''] v"
    unfolding v sum.case by blast
  then have "listers_ready v \<and> map_of (verifiers (notationVerifierFactory v)) ''tp'' = policy_verifier demo_lib (disk demo_os) [''n''] ''tp''"
    unfolding ready_def disk by blast
  moreover have "policy_verifier demo_lib (disk demo_os) [''n''] ''tp'' = Some ''old''"
    by (simp add: policy_verifier_def demo_os_def demo_lib_def)
  ultimately show ?thesis using v by (intro exI [of _ v]) simp
qed

text \<open>
  C23. A refresh takes effect as a whole or not at all: if it fails, verifiers and caches stay as
  they were; if it succeeds, the verifiers are those of the policy files on disk and the verdict
  cache is empty, so no verdict of an earlier policy survives it. Configuration, listers and
  credentials are never touched.
\<close>

theorem UpdateNotationVerifier_whole:
  assumes "wf_names (disk s)" and "cache_ok (v_cache v)"
  shows "case UpdateNotationVerifier lib env s dir v of
      (Some e, v') \<Rightarrow> v' = v
    | (None, v') \<Rightarrow>
        (\<forall>tp. map_of (verifiers (notationVerifierFactory v')) tp = policy_verifier lib (disk s) dir tp)
        \<and> (\<forall>tp ref ty cs. GetImage (v_cache v') tp ref = None \<and> \<not> GetAttestation (v_cache v') tp ref ty cs)
        \<and> (\<exists>f c. v' = v\<lparr> notationVerifierFactory := f, v_cache := c \<rparr>)"
proof -
  obtain e f where r: "RefreshVerifiers lib env s dir (notationVerifierFactory v) = (e, f)" by fastforce
  show ?thesis
  proof (cases e)
    case None
    with r RefreshVerifiers_ok [OF r [unfolded None] assms(1)] show ?thesis
      by (auto simp: UpdateNotationVerifier_def GetImage_Clear GetAttestation_Clear assms(2))
  next
    case (Some x)
    with r RefreshVerifiers_err [of lib env s dir "notationVerifierFactory v" x f] show ?thesis
      by (simp add: UpdateNotationVerifier_def)
  qed
qed

theorem UpdateNotationVerifier_whole_witness:
  "\<exists>v'. UpdateNotationVerifier demo_lib calm demo_os [''n'']
      ((demo_verifier [])\<lparr> v_cache := snd (AddImage (demo_cache True) ''tp'' ''r/app:v1'' demo_image) \<rparr>) = (None, v')
     \<and> map_of (verifiers (notationVerifierFactory v')) ''tp'' = Some ''old'' \<and> GetImage (v_cache v') ''tp'' ''r/app:v1'' = None"
proof -
  let ?v = "(demo_verifier [])\<lparr> v_cache := snd (AddImage (demo_cache True) ''tp'' ''r/app:v1'' demo_image) \<rparr>"
  have ok: "cache_ok (v_cache ?v)" by (simp add: cache_ok_def, simp add: demo_cache_def)
  obtain f where "RefreshVerifiers demo_lib calm demo_os [''n''] (notationVerifierFactory ?v) = (None, f)"
    by (metis demo_refreshes)
  then obtain v' where v': "UpdateNotationVerifier demo_lib calm demo_os [''n''] ?v = (None, v')"
    by (simp add: UpdateNotationVerifier_def)
  have "policy_verifier demo_lib (disk demo_os) [''n''] ''tp'' = Some ''old''"
    by (simp add: policy_verifier_def demo_os_def demo_lib_def)
  with UpdateNotationVerifier_whole [OF wf_names_demo ok, where lib = demo_lib and env = calm and dir = "[''n'']"]
  show ?thesis unfolding v' prod.case option.case by auto
qed

text \<open>
  Stopping is a one-time operation: the first call closes the channel, gets past the informers and
  closes the cache, any further call panics on the closed channel and changes nothing.
\<close>

theorem Stop_once:
  "case Stop waits v of
     Some (Inr _, v') \<Rightarrow> \<not> stopCh_closed v \<and> stopCh_closed v' \<and> Stop waits v' = Some (Inl (Panic ''close of closed channel''), v')
   | Some (Inl e, v') \<Rightarrow> stopCh_closed v \<and> is_panic e \<and> v' = v
   | None \<Rightarrow> \<not> stopCh_closed v \<and> \<not> waits True"
  by (cases "stopCh_closed v") simp_all

end
