(* ===== verification/Config.thy ===== *)
theory Config
  imports Construct
begin

text \<open>
  Configuration of the process: the helpers of \<^verbatim>\<open>utils.go\<close> and the options of \<^verbatim>\<open>main.go\<close>. \<^verbatim>\<open>quote\<close> stands for
  the verb \<^verbatim>\<open>%q\<close>, which only shows in error messages.
\<close>

section \<open>Helpers\<close>

definition getEnvWithFallback :: "(string \<Rightarrow> string) \<Rightarrow> string \<Rightarrow> string \<Rightarrow> string" where
  "getEnvWithFallback Getenv name fallback = (if Getenv name \<noteq> [] then Getenv name else fallback)"

text \<open>
  \<^verbatim>\<open>strings.ToLower\<close>, as far as a comparison with an ASCII word can tell: ASCII letters, and the only
  two other code points whose lower case is ASCII (U+0130 and U+212A); the rest stays non-ASCII.
\<close>

fun ToLower :: "string \<Rightarrow> string" where
  "ToLower [] = []"
| "ToLower (c # cs) =
     (if c = CHR 0xC4 \<and> take 1 cs = [CHR 0xB0] then CHR ''i'' # ToLower (drop 1 cs)
      else if c = CHR 0xE2 \<and> take 2 cs = [CHR 0x84, CHR 0xAA] then CHR ''k'' # ToLower (drop 2 cs)
      else if 65 \<le> (of_char c :: nat) \<and> (of_char c :: nat) \<le> 90 then char_of (of_char c + 32 :: nat) # ToLower cs
      else c # ToLower cs)"

definition parseLevel :: "(string \<Rightarrow> string) \<Rightarrow> string \<Rightarrow> int result" where
  "parseLevel quote s =
     (let l = ToLower s
      in if l = ''trace'' then Inr (-2)
         else if l = ''debug'' then Inr (-1)
         else if l = ''info'' then Inr 0
         else if l = ''warn'' \<or> l = ''warning'' then Inr 1
         else if l = ''error'' then Inr 2
         else Inl (Err (''invalid log level '' @ quote s @ '': must be one of trace, debug, info, warn, error'')))"

datatype encoder = JSONEncoder | ConsoleEncoder

record zap_config =
  Encoding :: encoder
  zc_Level :: int
  Development :: bool
  Sampling :: bool

text \<open>The configuration that \<^verbatim>\<open>newLogger\<close> builds; \<^verbatim>\<open>zap\<close>'s production and development presets differ in what
  is overwritten here and in the encoder.\<close>

definition newLogger :: "(string \<Rightarrow> string) \<Rightarrow> string \<Rightarrow> string \<Rightarrow> zap_config result" where
  "newLogger quote format level =
     (case parseLevel quote level of
        Inl e \<Rightarrow> Inl e
      | Inr lvl \<Rightarrow>
          (let f = ToLower format
           in if f = ''json'' then Inr \<lparr> Encoding = JSONEncoder, zc_Level = lvl, Development = False, Sampling = False \<rparr>
              else if f = ''text'' then Inr \<lparr> Encoding = ConsoleEncoder, zc_Level = lvl, Development = False, Sampling = False \<rparr>
              else Inl (Err (''invalid log format '' @ quote format @ '': must be one of text, json''))))"

fun splitItems :: "string list \<Rightarrow> string list \<Rightarrow> string list" where
  "splitItems [] out = out"
| "splitItems (item # rest) out =
     (let item = TrimSpace item in splitItems rest (if item \<noteq> [] then out @ [item] else out))"

definition splitList :: "string \<Rightarrow> string list" where
  "splitList s = splitItems (Split s (CHR '','')) []"

section \<open>Options\<close>

record options =
  o_local :: bool
  o_noTLS :: bool
  o_imagePullSecrets :: string
  o_allowInsecureRegistry :: bool
  o_pluginConfigMap :: string
  o_debug :: bool
  o_maxSignatureAttempts :: int
  o_metricsAddr :: string
  o_probeAddr :: string
  o_leaderElect :: bool
  o_cacheEnabled :: bool
  o_cacheMaxSize :: int
  o_cacheTTLSeconds :: int
  o_allowedUsers :: string
  o_reviewKyvernoToken :: bool
  o_tokenReviewAudiences :: string
  o_logLevel :: string
  o_logLevelSet :: bool
  o_logFormat :: string
  o_showVersion :: bool

definition effectiveLogLevel :: "options \<Rightarrow> string" where
  "effectiveLogLevel opts = (if o_debug opts \<and> \<not> o_logLevelSet opts then ''debug'' else o_logLevel opts)"

definition time_Second :: int where
  "time_Second = 1000000000"

definition cacheTTL :: "(int \<Rightarrow> string) \<Rightarrow> options \<Rightarrow> int result" where
  "cacheTTL itoa opts =
     (if o_cacheTTLSeconds opts \<le> 0 \<or> o_cacheTTLSeconds opts > (2 ^ 63 - 1) div time_Second
      then Inl (Err (''invalid --cacheTTLDurationSeconds '' @ itoa (o_cacheTTLSeconds opts)))
      else Inr (int64 (o_cacheTTLSeconds opts * time_Second)))"

text \<open>The options \<^verbatim>\<open>run\<close> passes to \<^verbatim>\<open>NewVerifier\<close>.\<close>

definition verifierOptions :: "options \<Rightarrow> int \<Rightarrow> (int \<Rightarrow> resource \<Rightarrow> authenticator result) \<Rightarrow> Option list" where
  "verifierOptions opts life ecr =
     [WithImagePullSecrets (o_imagePullSecrets opts), WithInsecureRegistry (o_allowInsecureRegistry opts),
      WithPluginConfig (o_pluginConfigMap opts), WithMaxSignatureAttempts (o_maxSignatureAttempts opts),
      WithEnableDebug (o_debug opts), WithProviderKeychain ecr,
      WithTokenReviewEnabled (o_reviewKyvernoToken opts),
      WithTokenReviewAudiences (splitList (o_tokenReviewAudiences opts)),
      WithCacheEnabled (o_cacheEnabled opts), WithMaxCacheSize (o_cacheMaxSize opts), WithMaxCacheTTL life,
      WithAllowedUsers (splitList (o_allowedUsers opts))]"

section \<open>Lemmas\<close>

lemma splitItems_eq: "splitItems xs out = out @ filter (\<lambda>x. x \<noteq> []) (map TrimSpace xs)"
  by (induction xs arbitrary: out) (auto simp: Let_def)

lemma splitList_eq: "splitList s = filter (\<lambda>x. x \<noteq> []) (map TrimSpace (Split s (CHR '','')))"
  by (simp add: splitList_def splitItems_eq)

fun comma_join :: "string list \<Rightarrow> string" where
  "comma_join [] = []"
| "comma_join [x] = x"
| "comma_join (x # xs) = x @ CHR '','' # comma_join xs"

lemma Split_comma_join:
  "xs \<noteq> [] \<Longrightarrow> \<forall>x \<in> set xs. CHR '','' \<notin> set x \<Longrightarrow> Split (comma_join xs) (CHR '','') = xs"
  by (induction xs rule: comma_join.induct) (auto simp: Split_absent Split_append_sep)

lemma splitList_comma_join:
  assumes "\<forall>x \<in> set xs. x \<noteq> [] \<and> TrimSpace x = x \<and> CHR '','' \<notin> set x"
  shows "splitList (comma_join xs) = xs"
proof (cases "xs = []")
  case True
  then show ?thesis by (simp add: splitList_def trim_eval)
next
  case False
  with assms have "Split (comma_join xs) (CHR '','') = xs" by (simp add: Split_comma_join)
  moreover have "map TrimSpace xs = xs" using assms by (simp add: map_idI)
  ultimately show ?thesis using assms by (simp add: splitList_eq)
qed

lemma verifierOptions_setup:
  "verifier_conf.truncate (applyAll (verifierOptions opts life ecr) zero_setup) =
     \<lparr> imagePullSecrets = o_imagePullSecrets opts, insecureRegistry = o_allowInsecureRegistry opts,
       pluginConfigMap = o_pluginConfigMap opts, maxSignatureAttempts = o_maxSignatureAttempts opts,
       maxCacheSize = o_cacheMaxSize opts, v_useCache = o_cacheEnabled opts, reviewToken = o_reviewKyvernoToken opts,
       tokenReviewAudiences = splitList (o_tokenReviewAudiences opts), maxCacheTTL = life, debug = o_debug opts,
       allowedUsers = splitList (o_allowedUsers opts) \<rparr>"
  by (simp add: applyAll_def verifierOptions_def zero_setup_def verifier_conf.truncate_def
      WithImagePullSecrets_def WithInsecureRegistry_def WithPluginConfig_def WithMaxSignatureAttempts_def
      WithEnableDebug_def WithProviderKeychain_def WithTokenReviewEnabled_def WithTokenReviewAudiences_def
      WithCacheEnabled_def WithMaxCacheSize_def WithMaxCacheTTL_def WithAllowedUsers_def)

lemma cacheTTL_exact:
  assumes "- (2 ^ 63) \<le> o_cacheTTLSeconds opts" and "o_cacheTTLSeconds opts < 2 ^ 63"
  shows "case cacheTTL itoa opts of
       Inr d \<Rightarrow> d = o_cacheTTLSeconds opts * time_Second \<and> 0 < d \<and> d < 2 ^ 63
     | Inl e \<Rightarrow> o_cacheTTLSeconds opts \<le> 0 \<or> 2 ^ 63 \<le> o_cacheTTLSeconds opts * time_Second"
proof (cases "o_cacheTTLSeconds opts \<le> 0 \<or> o_cacheTTLSeconds opts > (2 ^ 63 - 1) div time_Second")
  case True
  then show ?thesis by (auto simp: cacheTTL_def time_Second_def)
next
  case False
  then have "0 < o_cacheTTLSeconds opts * time_Second" "o_cacheTTLSeconds opts * time_Second < 2 ^ 63"
    by (auto simp: time_Second_def)
  with False show ?thesis by (simp add: cacheTTL_def int64_id)
qed

lemma splitList_items:
  "set (splitList s) = {TrimSpace x |x. x \<in> set (Split s (CHR '','')) \<and> TrimSpace x \<noteq> []}"
  by (auto simp: splitList_eq)

lemma New_cache_ttl:
  "New_cache ops [WithCacheEnabled_cache u, WithMaxSize n, WithTTLDuration t] = Inr c \<Longrightarrow> 0 < t \<Longrightarrow> ttl c = t"
  by (auto simp: New_cache_def Let_def cache_conf.extend_def WithCacheEnabled_cache_def WithMaxSize_def
      WithTTLDuration_def split: sum.splits if_splits)

lemma newVerifier_cache:
  assumes "newVerifier b lib env s notationPath opts = Inr v"
  shows "New_cache (boot_ristretto b) [WithCacheEnabled_cache (v_useCache (applyAll opts zero_setup)),
      WithMaxSize (maxCacheSize (applyAll opts zero_setup)), WithTTLDuration (maxCacheTTL (applyAll opts zero_setup))]
      = Inr (v_cache v)"
  using assms by (auto simp: newVerifier_def Let_def verifier_conf.defs split: sum.splits prod.splits option.splits)

section \<open>Properties\<close>

text \<open>
  Comma-separated flag values and lists correspond: a list of trimmed non-empty items without
  commas survives being joined and split, and in every value the items are exactly the non-empty
  trimmed pieces between commas, so a blank flag means no item at all (no allowed user, the
  default audience).
\<close>

theorem splitList_roundtrip:
  "((\<forall>x \<in> set xs. x \<noteq> [] \<and> TrimSpace x = x \<and> CHR '','' \<notin> set x) \<longrightarrow> splitList (comma_join xs) = xs)
   \<and> set (splitList s) = {TrimSpace x |x. x \<in> set (Split s (CHR '','')) \<and> TrimSpace x \<noteq> []}
   \<and> splitList [] = []"
proof -
  have "splitList [] = []" using splitList_comma_join [of "[]"] by simp
  then show ?thesis using splitList_comma_join splitList_items by blast
qed

theorem splitList_roundtrip_witness:
  "splitList ''a,b'' = [''a'', ''b'']"
proof -
  have "TrimSpace ''a'' = ''a''" "TrimSpace ''b'' = ''b''" by (simp_all add: trim_eval)
  then have "splitList (comma_join [''a'', ''b'']) = [''a'', ''b'']"
    using splitList_roundtrip [of "[''a'', ''b'']"] by simp
  then show ?thesis by simp
qed

text \<open>
  C26. The command line reaches the verifier: with the lifetime that \<^verbatim>\<open>cacheTTL\<close> accepted, which is the
  requested number of seconds without overflow, a constructed verifier reviews tokens exactly when
  asked to, lets in exactly the listed users, caches exactly when asked to, and its cache entries
  live exactly that long. A lifetime that is not positive or does not fit 64 bits is refused.
\<close>

theorem flags_reach_verifier:
  assumes "- (2 ^ 63) \<le> o_cacheTTLSeconds opts" and "o_cacheTTLSeconds opts < 2 ^ 63" and "wf_names (disk s)"
  shows "case cacheTTL itoa opts of
       Inl e \<Rightarrow> o_cacheTTLSeconds opts \<le> 0 \<or> 2 ^ 63 \<le> o_cacheTTLSeconds opts * 1000000000
     | Inr life \<Rightarrow> life = o_cacheTTLSeconds opts * 1000000000 \<and> 0 < life \<and> life < 2 ^ 63
         \<and> (\<forall>v. newVerifier b lib env s notationPath (verifierOptions opts life ecr) = Inr v \<longrightarrow>
              reviewToken v = o_reviewKyvernoToken opts
              \<and> (\<forall>user. isAllowed (allowedUsers v) user \<longleftrightarrow> user \<in> set (splitList (o_allowedUsers opts)))
              \<and> useCache (v_cache v) = o_cacheEnabled opts \<and> ttl (v_cache v) = life)"
proof (cases "cacheTTL itoa opts")
  case (Inl e)
  with cacheTTL_exact [OF assms(1,2), of itoa] show ?thesis by (simp add: time_Second_def)
next
  case (Inr life)
  then have life: "life = o_cacheTTLSeconds opts * 1000000000" "0 < life" "life < 2 ^ 63"
    using cacheTTL_exact [OF assms(1,2), of itoa] by (simp_all add: time_Second_def)
  let ?v0 = "applyAll (verifierOptions opts life ecr) zero_setup"
  have conf: "maxCacheTTL ?v0 = life \<and> v_useCache ?v0 = o_cacheEnabled opts \<and> reviewToken ?v0 = o_reviewKyvernoToken opts
      \<and> allowedUsers ?v0 = splitList (o_allowedUsers opts)"
    using arg_cong [OF verifierOptions_setup [of opts life ecr], of maxCacheTTL]
      arg_cong [OF verifierOptions_setup [of opts life ecr], of v_useCache]
      arg_cong [OF verifierOptions_setup [of opts life ecr], of reviewToken]
      arg_cong [OF verifierOptions_setup [of opts life ecr], of allowedUsers]
    by (simp add: verifier_conf.truncate_def)
  have "reviewToken v = o_reviewKyvernoToken opts
      \<and> (\<forall>user. isAllowed (allowedUsers v) user \<longleftrightarrow> user \<in> set (splitList (o_allowedUsers opts)))
      \<and> useCache (v_cache v) = o_cacheEnabled opts \<and> ttl (v_cache v) = life"
    if run: "newVerifier b lib env s notationPath (verifierOptions opts life ecr) = Inr v" for v
  proof -
    have "ttl (v_cache v) = life" using New_cache_ttl [OF newVerifier_cache [OF run]] life conf by simp
    moreover have "verifier_conf.truncate v = verifier_conf.truncate ?v0" and "useCache (v_cache v) = v_useCache v"
      using newVerifier_ready [OF run assms(3)] by (auto simp: ready_def)
    moreover from this(1) have "reviewToken v = reviewToken ?v0" "allowedUsers v = allowedUsers ?v0" "v_useCache v = v_useCache ?v0"
      by (simp_all add: verifier_conf.truncate_def)
    ultimately show ?thesis using conf by (auto simp: isAllowed_def list_ex_iff)
  qed
  with Inr life show ?thesis by simp
qed

definition demo_options :: options where
  "demo_options = \<lparr> o_local = False, o_noTLS = False, o_imagePullSecrets = [], o_allowInsecureRegistry = False,
     o_pluginConfigMap = [], o_debug = False, o_maxSignatureAttempts = 30, o_metricsAddr = '':8080'', o_probeAddr = '':8081'',
     o_leaderElect = False, o_cacheEnabled = True, o_cacheMaxSize = 1000, o_cacheTTLSeconds = 3600,
     o_allowedUsers = ''a,b'', o_reviewKyvernoToken = True, o_tokenReviewAudiences = [], o_logLevel = ''info'',
     o_logLevelSet = False, o_logFormat = ''text'', o_showVersion = False \<rparr>"

theorem flags_reach_verifier_witness:
  "cacheTTL (\<lambda>i. []) demo_options = Inr 3600000000000
   \<and> (\<exists>v. newVerifier demo_boot demo_lib calm demo_os [''n''] (verifierOptions demo_options 3600000000000 (\<lambda>i r. Inl (Err [])))
          = Inr v \<and> reviewToken v \<and> ttl (v_cache v) = 3600000000000)"
proof -
  let ?new = "newVerifier demo_boot demo_lib calm demo_os [''n''] (verifierOptions demo_options 3600000000000 (\<lambda>i r. Inl (Err [])))"
  have life: "cacheTTL (\<lambda>i. []) demo_options = Inr 3600000000000"
    by (simp add: cacheTTL_def demo_options_def time_Second_def int64_def)
  obtain f where "RefreshVerifiers demo_lib calm demo_os [''n''] NewNotationVerifierFactory = (None, f)"
    by (metis demo_refreshes)
  then have "is_ok ?new"
    by (simp add: newVerifier_def demo_boot_def New_cache_def WithCacheEnabled_cache_def WithMaxSize_def
        WithTTLDuration_def list_store_def Let_def)
  then obtain v where v: "?new = Inr v" unfolding is_ok_iff by blast
  have "- (2 ^ 63) \<le> o_cacheTTLSeconds demo_options" "o_cacheTTLSeconds demo_options < 2 ^ 63"
    by (simp_all add: demo_options_def)
  from flags_reach_verifier [OF this wf_names_demo, where itoa = "\<lambda>i. []" and b = demo_boot and lib = demo_lib
      and env = calm and notationPath = "[''n'']" and ecr = "\<lambda>i r. Inl (Err [])"] life v
  have "reviewToken v = o_reviewKyvernoToken demo_options \<and> ttl (v_cache v) = 3600000000000" by simp
  with life v show ?thesis by (simp add: demo_options_def)
qed

end
