(* ===== verification/Directory.thy ===== *)
theory Directory
  imports Files
begin

text \<open>
  What the system calls of the two directory syncs do to the disk when they succeed, and the
  disks on which the syncs run: names that are single path elements.
\<close>

section \<open>One system call at a time\<close>

lemma mkdir_each_ok:
  assumes "mkdir_each env ps s = (e, s')"
  shows "(\<forall>q. map_of (disk s') q = map_of (disk s) q
        \<or> q \<in> set ps \<and> map_of (disk s) q = None \<and> map_of (disk s') q = Some Dir)
    \<and> (e = None \<longrightarrow> (\<forall>p \<in> set ps. is_dir (disk s') p))
    \<and> ((\<forall>p \<in> set ps. is_dir (disk s) p) \<longrightarrow> e = None \<and> s' = s)"
  using assms
proof (induction ps arbitrary: s)
  case Nil
  then show ?case by simp
next
  case (Cons p ps)
  show ?case
  proof (cases "is_dir (disk s) p")
    case True
    with Cons.prems have run: "mkdir_each env ps s = (e, s')" by simp
    have "is_dir (disk s') p"
      using True Cons.IH [OF run] unfolding is_dir_def by (metis option.distinct(1))
    with Cons.IH [OF run] True show ?thesis by (metis list.set_intros(2) set_ConsD)
  next
    case False
    show ?thesis
    proof (cases "map_of (disk s) p = None \<and> fault env (MkdirOp p) = None")
      case True
      let ?s1 = "commit s (AList.update p Dir (disk s))"
      from True False Cons.prems have run: "mkdir_each env ps ?s1 = (e, s')" by simp
      note IH = Cons.IH [OF run]
      have p: "map_of (disk s') p = Some Dir"
        using spec [OF conjunct1 [OF IH], of p] by (auto simp: update_conv')
      have "map_of (disk s') q = map_of (disk s) q
          \<or> q \<in> set (p # ps) \<and> map_of (disk s) q = None \<and> map_of (disk s') q = Some Dir" for q
        using spec [OF conjunct1 [OF IH], of q] p True by (cases "q = p") (auto simp: update_conv')
      moreover have "e = None \<longrightarrow> (\<forall>x \<in> set (p # ps). is_dir (disk s') x)"
        using IH p by (simp add: is_dir_def)
      ultimately show ?thesis using False by auto
    next
      case bad: False
      with False Cons.prems have "s' = s" "e \<noteq> None" by (auto split: option.splits)
      with False show ?thesis by auto
    qed
  qed
qed

text \<open>\<open>dirs_above dir d\<close>: the path \<open>dir\<close> and everything above it are directories.\<close>

definition dirs_above :: "path \<Rightarrow> disk \<Rightarrow> bool" where
  "dirs_above dir d \<longleftrightarrow> (\<forall>k \<le> length dir. is_dir d (take k dir))"

lemma dirs_above_is_dir: "dirs_above dir d \<Longrightarrow> is_dir d dir"
  unfolding dirs_above_def by (metis order_refl take_all)

lemma dirs_above_prefixes:
  "dirs_above dir d \<longleftrightarrow> (\<forall>p \<in> set (map (\<lambda>n. take (Suc n) dir) [0..<length dir]). is_dir d p)"
proof
  assume R: "\<forall>p \<in> set (map (\<lambda>n. take (Suc n) dir) [0..<length dir]). is_dir d p"
  show "dirs_above dir d"
    unfolding dirs_above_def
  proof (intro allI impI)
    fix k assume "k \<le> length dir"
    with R show "is_dir d (take k dir)" by (cases k) (auto simp: is_dir_def)
  qed
qed (auto simp: dirs_above_def)

lemma os_MkdirAll_ok:
  assumes "os_MkdirAll env s dir = (e, s')"
  shows "map_of (disk s') q = map_of (disk s) q
        \<or> length q \<le> length dir \<and> map_of (disk s) q = None \<and> map_of (disk s') q = Some Dir \<and> prefix q dir"
    and "e = None \<Longrightarrow> dirs_above dir (disk s')"
    and "dirs_above dir (disk s) \<Longrightarrow> e = None \<and> s' = s"
proof -
  let ?ps = "map (\<lambda>n. take (Suc n) dir) [0..<length dir]"
  note M = mkdir_each_ok [OF assms [unfolded os_MkdirAll_def]]
  have "q \<in> set ?ps \<Longrightarrow> length q \<le> length dir \<and> prefix q dir" by (auto simp: take_is_prefix)
  with M show "map_of (disk s') q = map_of (disk s) q
        \<or> length q \<le> length dir \<and> map_of (disk s) q = None \<and> map_of (disk s') q = Some Dir \<and> prefix q dir"
    by blast
  show "e = None \<Longrightarrow> dirs_above dir (disk s')" and "dirs_above dir (disk s) \<Longrightarrow> e = None \<and> s' = s"
    using M unfolding dirs_above_prefixes by blast+
qed

lemma dirs_above_keep:
  assumes "dirs_above dir d" and "\<And>q. length q \<le> length dir \<Longrightarrow> map_of d q = Some Dir \<Longrightarrow> map_of d' q = Some Dir"
  shows "dirs_above dir d'"
  using assms unfolding dirs_above_def is_dir_def by (metis length_take min.cobounded1)

text \<open>A successful \<^verbatim>\<open>writeFileIfChanged\<close> changes its target and nothing else.\<close>

lemma writeFileIfChanged_ok:
  assumes "writeFileIfChanged env s p tmpDir data = ((written, None), s')" and "\<forall>n. p \<noteq> temp_path tmpDir n"
    and "\<And>t. map_of (disk s) p \<noteq> Some (Symlink t)"
  shows "(\<forall>q. q \<noteq> p \<longrightarrow> map_of (disk s') q = map_of (disk s) q)
    \<and> (\<exists>m. map_of (disk s') p = Some (File data m)) \<and> (\<not> written \<longrightarrow> s' = s)
    \<and> map_of (disk s) p \<noteq> Some Dir"
proof -
  have "map_of (disk s) p \<noteq> Some Dir"
  proof
    assume "map_of (disk s) p = Some Dir"
    then obtain e where "read_node (disk s) p = Inl e" and "\<not> is_not_exist e" using read_node_Dir by blast
    with assms(1) show False by (auto simp: writeFileIfChanged_def os_ReadFile_def split: option.splits)
  qed
  moreover have "(\<forall>q. q \<noteq> p \<longrightarrow> map_of (disk s') q = map_of (disk s) q)
    \<and> (\<exists>m. map_of (disk s') p = Some (File data m)) \<and> (\<not> written \<longrightarrow> s' = s)"
  proof -
    note R = writeFileIfChanged_result [OF assms(1,2)]
    show ?thesis
    proof (cases written)
      case False
      with R have s': "s' = s" and r: "read_node (disk s) p = Inr data" by auto
      from assms(3) have "follow 41 (disk s) p = Some p"
        by (simp add: numeral_eq_Suc split: option.splits node.splits)
      with r have "\<exists>m. map_of (disk s) p = Some (File data m)"
        by (auto simp: read_node_def split: option.splits node.splits if_splits)
      with s' False show ?thesis by simp
    next
      case True
      with R obtain n where n: "map_of (disk s) (temp_path tmpDir n) = None \<or> s' = s"
        "grows (\<lambda>d. agree_off {temp_path tmpDir n, p} (disk s) d \<and> old_or_new (disk s) p data d) s s'"
        "map_of (disk s') (temp_path tmpDir n) = None" by auto
      have off: "agree_off {temp_path tmpDir n, p} (disk s) (disk s')"
        using grows_disk [OF n(2)] by (simp add: old_or_new_def)
      have "map_of (disk s') p = Some (File data perm600)" using R True by blast
      moreover have "map_of (disk s') q = map_of (disk s) q" if "q \<noteq> p" for q
        using that off n(1,3) by (cases "q = temp_path tmpDir n") (auto simp: agree_off_def)
      ultimately show ?thesis using True by blast
    qed
  qed
  ultimately show ?thesis by blast
qed

lemma os_Remove_ok:
  assumes "os_Remove env s p = (e, s')" and "e = None \<or> (\<exists>x. e = Some x \<and> is_not_exist x)"
  shows "map_of (disk s') p = None \<and> (\<forall>q. q \<noteq> p \<longrightarrow> map_of (disk s') q = map_of (disk s) q)
    \<and> (map_of (disk s) p \<noteq> None \<longrightarrow> s' \<noteq> s)"
  using assms
  by (auto simp: os_Remove_def delete_conv' commit_def split: option.splits if_splits
      dest!: arg_cong [of _ s hist])

lemma os_ReadDir_entries:
  assumes "os_ReadDir env s dir = Inr es"
  shows "(n, b) \<in> set es \<longleftrightarrow> map_of (disk s) (dir @ [n]) \<noteq> None \<and> b = (map_of (disk s) (dir @ [n]) = Some Dir)"
proof -
  have "es = map (\<lambda>n. (n, map_of (disk s) (dir @ [n]) = Some Dir)) (sort (children (disk s) dir))"
    using assms by (auto simp: os_ReadDir_def split: option.splits if_splits)
  then show ?thesis using children_iff [of n "disk s" dir] by (auto simp: image_iff)
qed

text \<open>A successful \<^verbatim>\<open>os.RemoveAll\<close> removes a path and everything below it, and nothing else.\<close>

lemma remove_each_ok:
  assumes "remove_each env ps s = (None, s')"
  shows "map_of (disk s') q = (if q \<in> set ps then None else map_of (disk s) q)"
  using assms
proof (induction ps arbitrary: s)
  case Nil
  then show ?case by simp
next
  case (Cons p ps)
  obtain e s1 where rm: "os_Remove env s p = (e, s1)" by fastforce
  obtain es s2 where re: "remove_each env ps s1 = (es, s2)" by fastforce
  from Cons.prems rm re have e: "e = None" and run: "remove_each env ps s1 = (None, s')"
    by (auto split: option.splits)
  have "e = None \<or> (\<exists>x. e = Some x \<and> is_not_exist x)" using e by simp
  from os_Remove_ok [OF rm this] Cons.IH [OF run] show ?case by auto
qed

lemma set_below: "q \<in> set (below d p) \<longleftrightarrow> map_of d q \<noteq> None \<and> prefix p q"
  by (auto simp: below_def map_of_eq_None_iff prefix_def) (metis append_take_drop_id)

lemma os_RemoveAll_ok:
  assumes "os_RemoveAll env s p = (None, s')"
  shows "map_of (disk s') q = (if prefix p q then None else map_of (disk s) q)"
  using remove_each_ok [OF assms [unfolded os_RemoveAll_def], of q]
  by (cases "map_of (disk s) q") (auto simp: set_below)

section \<open>What they touch when they fail\<close>

text \<open>\<open>within A s s'\<close>: every version of the disk from \<open>s\<close> to \<open>s'\<close> agrees with \<open>s\<close> outside \<open>A\<close>.\<close>

definition within :: "path set \<Rightarrow> os \<Rightarrow> os \<Rightarrow> bool" where
  "within A s s' \<longleftrightarrow> grows (agree_off A (disk s)) s s'"

lemma agree_off_mono: "agree_off A d d' \<Longrightarrow> A \<subseteq> B \<Longrightarrow> agree_off B d d'"
  by (auto simp: agree_off_def)

lemma within_refl [simp]: "within A s s"
  by (simp add: within_def)

lemma within_disk: "within A s s' \<Longrightarrow> agree_off A (disk s) (disk s')"
  unfolding within_def by (rule grows_disk) auto

lemma within_trans:
  assumes "within A s s'" and "within A s' s''"
  shows "within A s s''"
proof -
  have "agree_off A (disk s) (disk s')" using assms(1) by (rule within_disk)
  then have "grows (agree_off A (disk s)) s' s''"
    using assms(2) unfolding within_def by (elim grows_mono) (simp add: agree_off_def)
  with assms(1) show ?thesis unfolding within_def by (rule grows_trans)
qed

lemma within_commit: "agree_off A (disk s) d \<Longrightarrow> within A s (commit s d)"
  unfolding within_def by (rule grows_commit)

lemma within_mono: "within A s s' \<Longrightarrow> A \<subseteq> B \<Longrightarrow> within B s s'"
  unfolding within_def by (erule grows_mono) (auto simp: agree_off_def)

lemma os_Remove_within: "p \<in> A \<Longrightarrow> os_Remove env s p = (e, s') \<Longrightarrow> within A s s'"
  by (auto simp: os_Remove_def agree_off_delete intro: within_commit split: option.splits if_splits)

lemma mkdir_each_within: "set ps \<subseteq> A \<Longrightarrow> mkdir_each env ps s = (e, s') \<Longrightarrow> within A s s'"
proof (induction ps arbitrary: s)
  case Nil
  then show ?case by simp
next
  case (Cons p ps)
  let ?s1 = "commit s (AList.update p Dir (disk s))"
  have "within A s ?s1" using Cons.prems(1) by (intro within_commit) (auto simp: agree_off_update)
  with Cons show ?case by (auto split: if_splits option.splits intro: within_trans)
qed

lemma os_MkdirAll_within: "{q. prefix q dir} \<subseteq> A \<Longrightarrow> os_MkdirAll env s dir = (e, s') \<Longrightarrow> within A s s'"
  unfolding os_MkdirAll_def by (erule mkdir_each_within [rotated]) (auto simp: take_is_prefix)

lemma writeFileIfChanged_within:
  assumes "writeFileIfChanged env s p tmpDir data = (r, s')" and "\<forall>n. p \<noteq> temp_path tmpDir n"
    and "p \<in> A" and "range (temp_path tmpDir) \<subseteq> A"
  shows "within A s s'"
proof -
  obtain c e where r: "r = (c, e)" by fastforce
  obtain n where "grows (\<lambda>d. agree_off {temp_path tmpDir n, p} (disk s) d \<and> old_or_new (disk s) p data d) s s'"
    using writeFileIfChanged_result [OF assms(1) [unfolded r] assms(2)] by blast
  moreover have "{temp_path tmpDir n, p} \<subseteq> A" using assms(3,4) by auto
  ultimately show ?thesis
    unfolding within_def by (auto elim!: grows_mono agree_off_mono)
qed

lemma remove_each_within: "set ps \<subseteq> A \<Longrightarrow> remove_each env ps s = (e, s') \<Longrightarrow> within A s s'"
proof (induction ps arbitrary: s e)
  case Nil
  then show ?case by simp
next
  case (Cons p ps)
  obtain e1 s1 where rm: "os_Remove env s p = (e1, s1)" by fastforce
  obtain es s2 where re: "remove_each env ps s1 = (es, s2)" by fastforce
  from Cons.prems(2) rm re have "s' = s2" by (simp split: option.splits)
  with re have "remove_each env ps s1 = (es, s')" by simp
  with Cons.IH Cons.prems(1) have "within A s1 s'" by simp
  moreover have "within A s s1" using Cons.prems(1) rm by (intro os_Remove_within) auto
  ultimately show ?case by (rule within_trans [rotated])
qed

lemma os_RemoveAll_within:
  assumes "{q. prefix p q} \<subseteq> A" and "os_RemoveAll env s p = (e, s')"
  shows "within A s s'"
  using assms(2) unfolding os_RemoveAll_def
  by (rule remove_each_within [rotated]) (use assms(1) in \<open>auto simp: set_below\<close>)

interpretation within: frame "within A" for A
  by unfold_locales (auto intro: within_trans)

section \<open>When they succeed\<close>

text \<open>No file or link stands where a directory is needed.\<close>

definition can_be_dir :: "path \<Rightarrow> disk \<Rightarrow> bool" where
  "can_be_dir dir d \<longleftrightarrow> (\<forall>k \<le> length dir. map_of d (take k dir) = None \<or> map_of d (take k dir) = Some Dir)"

lemma mkdir_each_succeeds:
  assumes "no_faults env"
  shows "\<forall>p \<in> set ps. map_of (disk s) p = None \<or> map_of (disk s) p = Some Dir \<Longrightarrow> fst (mkdir_each env ps s) = None"
proof (induction ps arbitrary: s)
  case (Cons p ps)
  let ?s1 = "commit s (AList.update p Dir (disk s))"
  have "\<forall>q \<in> set ps. map_of (disk ?s1) q = None \<or> map_of (disk ?s1) q = Some Dir"
    using Cons.prems by (auto simp: update_conv')
  with Cons assms show ?case by (auto simp: no_faults_def is_dir_def)
qed simp

lemma os_MkdirAll_succeeds:
  assumes "no_faults env" and "can_be_dir dir (disk s)"
  obtains s' where "os_MkdirAll env s dir = (None, s')"
proof -
  have "fst (os_MkdirAll env s dir) = None"
    unfolding os_MkdirAll_def using assms(1)
    by (rule mkdir_each_succeeds) (use assms(2) in \<open>auto simp: can_be_dir_def\<close>)
  then show ?thesis by (metis prod.collapse that)
qed

lemma missing_below:
  assumes "can_be_dir dir d"
  shows "is_not_exist (missing d (dir @ [x]))"
proof -
  have n: "map_of d (take n dir) \<noteq> Some (File c m)" for n c m
    using assms unfolding can_be_dir_def
    by (cases "n \<le> length dir") (auto dest: spec [of _ n] spec [of _ "length dir"])
  with n [of "length dir"] have "\<not> list_ex (\<lambda>n. n < length (dir @ [x])
      \<and> (case map_of d (take n (dir @ [x])) of Some (File _ _) \<Rightarrow> True | _ \<Rightarrow> False)) [0..<length (dir @ [x])]"
    by (auto simp: list_ex_iff less_Suc_eq_le split: option.splits node.splits)
  then show ?thesis unfolding missing_def by (simp only: if_False is_not_exist.simps)
qed

lemma replaceFile_succeeds:
  assumes env: "no_faults env" and "is_dir (disk s) base" and "is_dir (disk s) tmpDir"
    and "map_of (disk s) (base @ [x]) \<noteq> Some Dir" and ne: "\<forall>n. base @ [x] \<noteq> temp_path tmpDir n"
    and free: "\<exists>k \<in> set (temp_numbers env). map_of (disk s) (temp_path tmpDir k) = None"
  shows "fst (replaceFile env s (base @ [x]) tmpDir data) = (True, None)"
proof -
  obtain n where n: "find (\<lambda>n. map_of (disk s) (temp_path tmpDir n) = None) (temp_numbers env) = Some n"
    using free by (cases "find (\<lambda>n. map_of (disk s) (temp_path tmpDir n) = None) (temp_numbers env)")
      (auto simp: find_None_iff)
  then have fr: "map_of (disk s) (temp_path tmpDir n) = None" by (auto simp: find_Some_iff)
  have nb: "base \<noteq> [] \<Longrightarrow> base \<noteq> temp_path tmpDir n" using fr assms(2) by (auto simp: is_dir_def)
  show ?thesis
    using assms(2-4) ne n nb env
    by (auto simp: replaceFile_def os_CreateTemp_def fillAndRename_def os_Write_def set_content_def os_Chmod_def
        os_Close_def os_Rename_def no_faults_def update_conv' is_dir_def)
qed

lemma writeFileIfChanged_succeeds:
  assumes env: "no_faults env" and "dirs_above base (disk s)" and "can_be_dir base (disk s)" and "is_dir (disk s) tmpDir"
    and target: "map_of (disk s) (base @ [x]) = None \<or> (\<exists>c m. map_of (disk s) (base @ [x]) = Some (File c m))"
    and ne: "\<forall>n. base @ [x] \<noteq> temp_path tmpDir n"
    and free: "\<exists>k \<in> set (temp_numbers env). map_of (disk s) (temp_path tmpDir k) = None"
  obtains w s' where "writeFileIfChanged env s (base @ [x]) tmpDir data = ((w, None), s')"
proof -
  have R: "fst (replaceFile env s (base @ [x]) tmpDir data) = (True, None)"
    by (rule replaceFile_succeeds [OF env dirs_above_is_dir [OF assms(2)] assms(4) _ ne free]) (use target in auto)
  have "snd (fst (writeFileIfChanged env s (base @ [x]) tmpDir data)) = None"
    using target
  proof (elim disjE exE)
    assume "map_of (disk s) (base @ [x]) = None"
    then have "read_node (disk s) (base @ [x]) = Inl (missing (disk s) (base @ [x]))"
      by (simp add: read_node_def numeral_eq_Suc)
    with R env missing_below [OF assms(3)] show ?thesis
      by (simp add: writeFileIfChanged_def os_ReadFile_def no_faults_def)
  next
    fix c m assume "map_of (disk s) (base @ [x]) = Some (File c m)"
    with R env show ?thesis
      by (simp add: writeFileIfChanged_def os_ReadFile_def no_faults_def read_node_File)
  qed
  then show ?thesis by (metis prod.collapse that)
qed

lemma can_be_dir_keep:
  assumes "can_be_dir dir d" and "\<And>q. length q \<le> length dir \<Longrightarrow> map_of d' q = map_of d q"
  shows "can_be_dir dir d'"
  using assms unfolding can_be_dir_def by simp

lemma can_be_dir_above: "can_be_dir dir d \<Longrightarrow> os_MkdirAll env s dir = (e, s') \<Longrightarrow> d = disk s \<Longrightarrow> can_be_dir dir (disk s')"
  unfolding can_be_dir_def using os_MkdirAll_ok(1) by metis

lemma os_Remove_succeeds:
  assumes "no_faults env" and "can_be_dir dir (disk s)" and "map_of (disk s) (dir @ [n]) \<noteq> Some Dir"
  obtains e s' where "os_Remove env s (dir @ [n]) = (e, s')" and "e = None \<or> (\<exists>x. e = Some x \<and> is_not_exist x)"
proof -
  obtain e s' where r: "os_Remove env s (dir @ [n]) = (e, s')" by fastforce
  with assms(1,3) missing_below [OF assms(2), of n] have "e = None \<or> (\<exists>x. e = Some x \<and> is_not_exist x)"
    by (auto simp: os_Remove_def no_faults_def split: option.splits if_splits)
  with r show ?thesis by (rule that)
qed

end
