(* ===== verification/Json.thy ===== *)
theory Json
  imports Filesystem
begin

text \<open>
  The part of \<^verbatim>\<open>encoding/json\<close> that writes trust policy files: string literals with Go's escapes
  (HTML characters, control characters, the two line separators and invalid UTF-8 are escaped)
  and \<^verbatim>\<open>json.MarshalIndent\<close>. \<open>json_unquote\<close> reads a literal back.
\<close>

section \<open>UTF-8\<close>

abbreviation byte :: "char \<Rightarrow> nat" where
  "byte c \<equiv> of_char c"

definition cont :: "nat \<Rightarrow> nat \<Rightarrow> char \<Rightarrow> bool" where
  "cont lo hi c \<longleftrightarrow> lo \<le> byte c \<and> byte c \<le> hi"

text \<open>The number of bytes of the multi-byte rune at the front, 0 if there is none.\<close>

fun rune_len :: "string \<Rightarrow> nat" where
  "rune_len (a # b # s) =
     (if cont 0xC2 0xDF a \<and> cont 0x80 0xBF b then 2
      else (case s of
              c # s' \<Rightarrow>
                if ((cont 0xE0 0xE0 a \<and> cont 0xA0 0xBF b) \<or> (cont 0xE1 0xEC a \<and> cont 0x80 0xBF b)
                    \<or> (cont 0xED 0xED a \<and> cont 0x80 0x9F b) \<or> (cont 0xEE 0xEF a \<and> cont 0x80 0xBF b))
                   \<and> cont 0x80 0xBF c then 3
                else (case s' of
                        d # s'' \<Rightarrow>
                          if ((cont 0xF0 0xF0 a \<and> cont 0x90 0xBF b) \<or> (cont 0xF1 0xF3 a \<and> cont 0x80 0xBF b)
                              \<or> (cont 0xF4 0xF4 a \<and> cont 0x80 0x8F b))
                             \<and> cont 0x80 0xBF c \<and> cont 0x80 0xBF d then 4
                          else 0
                      | [] \<Rightarrow> 0)
            | [] \<Rightarrow> 0))"
| "rune_len s = 0"

lemma rune_len_bound: "rune_len s \<le> length s"
  by (cases s rule: rune_len.cases) (auto split: list.splits)

lemma rune_len_small: "rune_len s = 0 \<or> 2 \<le> rune_len s"
  by (cases s rule: rune_len.cases) (auto split: list.splits)

function valid_utf8 :: "string \<Rightarrow> bool" where
  "valid_utf8 [] = True"
| "valid_utf8 (c # cs) =
     (if byte c < 0x80 then valid_utf8 cs
      else if rune_len (c # cs) = 0 then False else valid_utf8 (drop (rune_len (c # cs)) (c # cs)))"
  by pat_completeness auto
termination
  by (relation "measure length") (use rune_len_small in \<open>auto simp del: rune_len.simps\<close>)

section \<open>Literals\<close>

definition hex_digit :: "nat \<Rightarrow> char" where
  "hex_digit n = ''0123456789abcdef'' ! n"

definition escape_ascii :: "char \<Rightarrow> string" where
  "escape_ascii c =
     (if c = CHR 0x22 then [CHR 0x5C, CHR 0x22]
      else if c = CHR 0x5C then [CHR 0x5C, CHR 0x5C]
      else if c = CHR 0x08 then [CHR 0x5C, CHR ''b'']
      else if c = CHR 0x0C then [CHR 0x5C, CHR ''f'']
      else if c = CHR 0x0A then [CHR 0x5C, CHR ''n'']
      else if c = CHR 0x0D then [CHR 0x5C, CHR ''r'']
      else if c = CHR 0x09 then [CHR 0x5C, CHR ''t'']
      else if byte c < 0x20 \<or> c = CHR ''<'' \<or> c = CHR ''>'' \<or> c = CHR ''&''
      then [CHR 0x5C, CHR ''u'', CHR ''0'', CHR ''0'', hex_digit (byte c div 16), hex_digit (byte c mod 16)]
      else [c])"

definition line_sep :: "string \<Rightarrow> string option" where
  "line_sep r =
     (if r = [CHR 0xE2, CHR 0x80, CHR 0xA8] then Some (CHR 0x5C # ''u2028'')
      else if r = [CHR 0xE2, CHR 0x80, CHR 0xA9] then Some (CHR 0x5C # ''u2029'')
      else None)"

function json_body :: "string \<Rightarrow> string" where
  "json_body [] = []"
| "json_body (c # cs) =
     (if byte c < 0x80 then escape_ascii c @ json_body cs
      else (let n = rune_len (c # cs)
            in if n = 0 then (CHR 0x5C # ''ufffd'') @ json_body cs
               else (case line_sep (take n (c # cs)) of Some e \<Rightarrow> e | None \<Rightarrow> take n (c # cs))
                    @ json_body (drop n (c # cs))))"
  by pat_completeness auto
termination
  by (relation "measure length") (use rune_len_small in \<open>auto simp del: rune_len.simps\<close>)

definition json_quote :: "string \<Rightarrow> string" where
  "json_quote s = CHR 0x22 # json_body s @ [CHR 0x22]"

section \<open>Values\<close>

datatype json = JNull | JStr string | JArr "json list" | JObj "(string \<times> json) list"

text \<open>\<^verbatim>\<open>json.MarshalIndent(v, prefix, indent)\<close>: every element on a line of its own, after the prefix
  and one indent per level; empty arrays and objects stay on their line.\<close>

definition newline :: "string \<Rightarrow> string \<Rightarrow> nat \<Rightarrow> string" where
  "newline pre indent depth = CHR 0x0A # pre @ concat (replicate depth indent)"

fun sep_by :: "string \<Rightarrow> string list \<Rightarrow> string" where
  "sep_by sep [] = []"
| "sep_by sep [x] = x"
| "sep_by sep (x # xs) = x @ sep @ sep_by sep xs"

fun pretty :: "string \<Rightarrow> string \<Rightarrow> nat \<Rightarrow> json \<Rightarrow> string" where
  "pretty p i d JNull = ''null''"
| "pretty p i d (JStr s) = json_quote s"
| "pretty p i d (JArr vs) =
     (if vs = [] then ''[]''
      else ''['' @ newline p i (Suc d) @ sep_by ('','' @ newline p i (Suc d)) (map (pretty p i (Suc d)) vs)
           @ newline p i d @ '']'')"
| "pretty p i d (JObj fs) =
     (if fs = [] then ''{}''
      else ''{'' @ newline p i (Suc d)
           @ sep_by ('','' @ newline p i (Suc d)) (map (\<lambda>(k, v). json_quote k @ '': '' @ pretty p i (Suc d) v) fs)
           @ newline p i d @ ''}'')"

definition MarshalIndent :: "json \<Rightarrow> string \<Rightarrow> string \<Rightarrow> string" where
  "MarshalIndent v pre indent = pretty pre indent 0 v"

section \<open>Reading literals back\<close>

definition hexval :: "char \<Rightarrow> nat option" where
  "hexval c = (if c \<in> set ''0123456789abcdef'' then Some (length (takeWhile (\<lambda>x. x \<noteq> c) ''0123456789abcdef'')) else None)"

definition hex4 :: "char \<Rightarrow> char \<Rightarrow> char \<Rightarrow> char \<Rightarrow> nat option" where
  "hex4 a b c d =
     (case (hexval a, hexval b, hexval c, hexval d) of
        (Some w, Some x, Some y, Some z) \<Rightarrow> Some (((w * 16 + x) * 16 + y) * 16 + z)
      | _ \<Rightarrow> None)"

definition utf8_encode :: "nat \<Rightarrow> string" where
  "utf8_encode n =
     (if n < 0x80 then [char_of n]
      else if n < 0x800 then [char_of (0xC0 + n div 64), char_of (0x80 + n mod 64)]
      else [char_of (0xE0 + n div 4096), char_of (0x80 + n div 64 mod 64), char_of (0x80 + n mod 64)])"

definition simple_escape :: "char \<Rightarrow> char option" where
  "simple_escape e =
     map_of [(CHR 0x22, CHR 0x22), (CHR 0x5C, CHR 0x5C), (CHR ''b'', CHR 0x08), (CHR ''f'', CHR 0x0C),
             (CHR ''n'', CHR 0x0A), (CHR ''r'', CHR 0x0D), (CHR ''t'', CHR 0x09)] e"

definition prepend :: "string \<Rightarrow> (string \<times> string) option \<Rightarrow> (string \<times> string) option" where
  "prepend xs r = map_option (\<lambda>(a, b). (xs @ a, b)) r"

fun json_unquote :: "string \<Rightarrow> (string \<times> string) option" where
  "json_unquote [] = None"
| "json_unquote (c # cs) =
     (if c = CHR 0x22 then Some ([], cs)
      else if c \<noteq> CHR 0x5C then prepend [c] (json_unquote cs)
      else (case cs of
              [] \<Rightarrow> None
            | e # r \<Rightarrow>
                if e = CHR ''u''
                then (case r of
                        w # x # y # z # r' \<Rightarrow>
                          (case hex4 w x y z of None \<Rightarrow> None | Some n \<Rightarrow> prepend (utf8_encode n) (json_unquote r'))
                      | _ \<Rightarrow> None)
                else (case simple_escape e of None \<Rightarrow> None | Some ch \<Rightarrow> prepend [ch] (json_unquote r))))"

lemma prepend_simps [simp]: "prepend xs (Some (a, b)) = Some (xs @ a, b)" "prepend xs (prepend ys r) = prepend (xs @ ys) r"
    "prepend [] r = r"
  by (cases r; auto simp: prepend_def)+

lemma hexval_digit:
  assumes "n < 16"
  shows "hexval (hex_digit n) = Some n"
proof -
  have "list_all (\<lambda>n. hexval (hex_digit n) = Some n) [0..<16]" by code_simp
  with assms show ?thesis by (simp add: list_all_iff)
qed

lemma unquote_hex:
  assumes "byte c < 0x80"
  shows "json_unquote (CHR 0x5C # CHR ''u'' # CHR ''0'' # CHR ''0'' # hex_digit (byte c div 16) # hex_digit (byte c mod 16) # t)
    = prepend [c] (json_unquote t)"
proof -
  have "hexval (hex_digit (byte c div 16)) = Some (byte c div 16)" "hexval (hex_digit (byte c mod 16)) = Some (byte c mod 16)"
    using assms by (auto intro: hexval_digit)
  moreover have "hexval (CHR ''0'') = Some 0" by (simp add: hexval_def)
  ultimately have "hex4 (CHR ''0'') (CHR ''0'') (hex_digit (byte c div 16)) (hex_digit (byte c mod 16)) = Some (byte c)"
    by (simp add: hex4_def)
  then show ?thesis using assms by (simp add: utf8_encode_def)
qed

lemma unquote_simple:
  "simple_escape e = Some ch \<Longrightarrow> e \<noteq> CHR ''u'' \<Longrightarrow> json_unquote (CHR 0x5C # e # t) = prepend [ch] (json_unquote t)"
  by simp

lemma unquote_plain: "c \<noteq> CHR 0x22 \<Longrightarrow> c \<noteq> CHR 0x5C \<Longrightarrow> json_unquote (c # t) = prepend [c] (json_unquote t)"
  by simp

lemma unquote_ascii:
  assumes "byte c < 0x80"
  shows "json_unquote (escape_ascii c @ t) = prepend [c] (json_unquote t)"
proof (cases "c \<in> {CHR 0x22, CHR 0x5C, CHR 0x08, CHR 0x0C, CHR 0x0A, CHR 0x0D, CHR 0x09}")
  case True
  then show ?thesis
    by (elim insertE emptyE; simp only: escape_ascii_def; simp del: json_unquote.simps; subst unquote_simple; simp add: simple_escape_def)
next
  case False
  then have "escape_ascii c = [c] \<or> escape_ascii c =
      [CHR 0x5C, CHR ''u'', CHR ''0'', CHR ''0'', hex_digit (byte c div 16), hex_digit (byte c mod 16)]"
    by (simp add: escape_ascii_def)
  then show ?thesis
    using False unquote_hex [OF assms, of t] unquote_plain [of c t] by (elim disjE) (simp_all del: json_unquote.simps)
qed

lemma unquote_raw: "\<forall>c \<in> set xs. 0x80 \<le> byte c \<Longrightarrow> json_unquote (xs @ t) = prepend xs (json_unquote t)"
proof (induction xs)
  case (Cons c xs)
  then have "c \<noteq> CHR 0x22" "c \<noteq> CHR 0x5C" by auto
  then have "json_unquote (c # xs @ t) = prepend [c] (json_unquote (xs @ t))" by (rule unquote_plain)
  with Cons show ?case by (simp del: json_unquote.simps)
qed simp

lemma cont_high: "cont lo hi c \<Longrightarrow> 0x80 \<le> lo \<Longrightarrow> 0x80 \<le> byte c"
  by (simp add: cont_def)

lemma rune_bytes: "\<forall>c \<in> set (take (rune_len s) s). 0x80 \<le> byte c"
proof (cases s rule: rune_len.cases)
  case (1 a b t)
  have high: "cont 0x80 0xBF x \<Longrightarrow> 0x80 \<le> byte x" "cont 0x80 0x9F x \<Longrightarrow> 0x80 \<le> byte x" "cont 0x80 0x8F x \<Longrightarrow> 0x80 \<le> byte x"
    "cont 0xA0 0xBF x \<Longrightarrow> 0x80 \<le> byte x" "cont 0x90 0xBF x \<Longrightarrow> 0x80 \<le> byte x" "cont 0xC2 0xDF x \<Longrightarrow> 0x80 \<le> byte x"
    "cont 0xE0 0xE0 x \<Longrightarrow> 0x80 \<le> byte x" "cont 0xE1 0xEC x \<Longrightarrow> 0x80 \<le> byte x" "cont 0xED 0xED x \<Longrightarrow> 0x80 \<le> byte x"
    "cont 0xEE 0xEF x \<Longrightarrow> 0x80 \<le> byte x" "cont 0xF0 0xF0 x \<Longrightarrow> 0x80 \<le> byte x" "cont 0xF1 0xF3 x \<Longrightarrow> 0x80 \<le> byte x"
    "cont 0xF4 0xF4 x \<Longrightarrow> 0x80 \<le> byte x" for x
    by (auto dest: cont_high)
  show ?thesis
    unfolding 1 by (auto split: list.splits if_splits dest: high)
qed simp_all

lemma unquote_line_sep:
  assumes "line_sep r = Some e"
  shows "json_unquote (e @ t) = prepend r (json_unquote t)"
proof -
  have h: "hexval (CHR ''2'') = Some 2" "hexval (CHR ''0'') = Some 0" "hexval (CHR ''8'') = Some 8" "hexval (CHR ''9'') = Some 9"
    by (simp_all add: hexval_def)
  have "char_of (226 :: nat) = CHR 0xE2" "char_of (128 :: nat) = CHR 0x80" "char_of (168 :: nat) = CHR 0xA8" "char_of (169 :: nat) = CHR 0xA9"
    by (simp_all add: char_of_def bit_Suc_0_iff)
  with assms show ?thesis
    by (auto simp: line_sep_def hex4_def h utf8_encode_def split: if_splits)
qed

text \<open>
  String literals can be read back: for every valid UTF-8 string, decoding the literal the
  encoder writes, followed by anything, gives back the string and leaves the rest. Two different
  names or scopes are therefore never written as the same literal.
\<close>

theorem json_literal_roundtrip:
  assumes "valid_utf8 s"
  shows "json_unquote (json_body s @ CHR 0x22 # rest) = Some (s, rest)"
  using assms
proof (induction s rule: json_body.induct)
  case 1
  then show ?case by simp
next
  case (2 c cs)
  show ?case
  proof (cases "byte c < 0x80")
    case True
    with 2 show ?thesis by (simp add: unquote_ascii)
  next
    case False
    let ?n = "rune_len (c # cs)"
    have n: "?n \<noteq> 0" and v: "valid_utf8 (drop ?n (c # cs))" using "2.prems" False by (auto split: if_splits)
    from "2.IH"(3) [OF False refl n v]
    have IH: "json_unquote (json_body (drop ?n (c # cs)) @ CHR 0x22 # rest) = Some (drop ?n (c # cs), rest)" .
    let ?piece = "case line_sep (take ?n (c # cs)) of Some e \<Rightarrow> e | None \<Rightarrow> take ?n (c # cs)"
    have piece: "json_unquote (?piece @ t) = prepend (take ?n (c # cs)) (json_unquote t)" for t
      using unquote_line_sep unquote_raw [OF rune_bytes] by (auto split: option.splits)
    have "json_body (c # cs) = ?piece @ json_body (drop ?n (c # cs))"
      using False n by (simp add: Let_def)
    then show ?thesis
      using piece IH by (simp only: append_assoc prepend_simps append_take_drop_id)
  qed
qed

theorem json_literal_roundtrip_witness:
  "valid_utf8 ''a<b'' \<and> json_body ''a<b'' = ''a'' @ [CHR 0x5C] @ ''u003cb''
   \<and> json_unquote (json_body ''a<b'' @ CHR 0x22 # ''x'') = Some (''a<b'', ''x'')"
proof -
  have "valid_utf8 ''a<b''" by simp
  with json_literal_roundtrip [OF this, of "''x''"] show ?thesis
    by (simp add: escape_ascii_def hex_digit_def)
qed

end
