(* ===== verification/Policies.thy ===== *)
theory Policies
  imports Directory Json Factory
begin

text \<open>
  Trust policies (\<^verbatim>\<open>internal/kubenotation/api/v1alpha1/trustpolicy_types.go\<close>) and the directory sync of
  their controller (\<^verbatim>\<open>controller/trustpolicy_controller.go\<close>, \<^verbatim>\<open>syncTrustPolicyFiles\<close>). A slice that may be
  nil and is not omitted when empty is an option; of the object metadata the program uses the
  name, whether a deletion timestamp is set, and the finalizers.
\<close>

section \<open>The custom resource\<close>

record ObjectMeta =
  om_Name :: string
  Deleting :: bool
  Finalizers :: "string list"

record SignatureVerification =
  VerificationLevel :: string
  Override :: "string gomap"

record TrustPolicyStatement =
  st_Name :: string
  RegistryScopes :: "string list option"
  st_SignatureVerification :: SignatureVerification
  TrustStores :: "string list"
  TrustedIdentities :: "string list"

record TrustDocument =
  Version :: string
  TrustPolicyName :: string
  TrustPolicies :: "TrustPolicyStatement list option"

record TrustPolicy = ObjectMeta +
  tp_Spec :: TrustDocument

section \<open>Its JSON form\<close>

definition json_strings :: "string list \<Rightarrow> json" where
  "json_strings ss = JArr (map JStr ss)"

text \<open>Maps are written with sorted keys.\<close>

definition sig_json :: "SignatureVerification \<Rightarrow> json" where
  "sig_json v =
     JObj ([(''level'', JStr (VerificationLevel v))]
       @ (if Override v = [] then []
          else [(''override'', JObj (map (\<lambda>k. (k, JStr (the (map_of (Override v) k)))) (sort (map fst (Override v)))))]))"

definition statement_json :: "TrustPolicyStatement \<Rightarrow> json" where
  "statement_json st =
     JObj ([(''name'', JStr (st_Name st)),
            (''registryScopes'', case RegistryScopes st of None \<Rightarrow> JNull | Some ss \<Rightarrow> json_strings ss),
            (''signatureVerification'', sig_json (st_SignatureVerification st))]
       @ (if TrustStores st = [] then [] else [(''trustStores'', json_strings (TrustStores st))])
       @ (if TrustedIdentities st = [] then [] else [(''trustedIdentities'', json_strings (TrustedIdentities st))]))"

definition document_json :: "TrustDocument \<Rightarrow> json" where
  "document_json d =
     JObj [(''version'', JStr (Version d)),
           (''trustPolicyName'', JStr (TrustPolicyName d)),
           (''trustPolicies'', case TrustPolicies d of None \<Rightarrow> JNull | Some ss \<Rightarrow> JArr (map statement_json ss))]"

text \<open>These values hold nothing \<^verbatim>\<open>encoding/json\<close> rejects, so the encoding never fails.\<close>

definition policy_file :: "TrustDocument \<Rightarrow> string result" where
  "policy_file d = Inr (MarshalIndent (document_json d) ''  '' '' '')"

section \<open>The files on disk\<close>

type_synonym sync_result = "(bool \<times> gerr option) \<times> os"

fun writePolicies :: "os_env \<Rightarrow> path \<Rightarrow> (string \<times> string) list \<Rightarrow> bool \<Rightarrow> os \<Rightarrow> sync_result" where
  "writePolicies env dir [] changed s = ((changed, None), s)"
| "writePolicies env dir ((name, data) # rest) changed s =
     (case writeFileIfChanged env s (filepath_Join dir name) dir data of
        ((written, Some e), s1) \<Rightarrow> ((changed, Some (wrap (''failed to write trust policy '' @ name) e)), s1)
      | ((written, None), s1) \<Rightarrow> writePolicies env dir rest (changed \<or> written) s1)"

fun removePolicies :: "os_env \<Rightarrow> path \<Rightarrow> string gomap \<Rightarrow> (string \<times> bool) list \<Rightarrow> bool \<Rightarrow> os \<Rightarrow> sync_result" where
  "removePolicies env dir desired [] changed s = ((changed, None), s)"
| "removePolicies env dir desired ((name, isDir) # rest) changed s =
     (if isDir \<or> Ext name \<noteq> ''.json'' then removePolicies env dir desired rest changed s
      else if map_of desired name \<noteq> None then removePolicies env dir desired rest changed s
      else (case os_Remove env s (filepath_Join dir name) of
              (Some e, s1) \<Rightarrow>
                if \<not> is_not_exist e
                then ((changed, Some (wrap (''failed to delete trust policy '' @ name) (io_err e))), s1)
                else removePolicies env dir desired rest True s1
            | (None, s1) \<Rightarrow> removePolicies env dir desired rest True s1))"

definition syncTrustPolicyFiles :: "os_env \<Rightarrow> orders \<Rightarrow> path \<Rightarrow> string gomap \<Rightarrow> os \<Rightarrow> sync_result" where
  "syncTrustPolicyFiles env ord dir desired s =
     (case os_MkdirAll env s dir of
        (Some e, s1) \<Rightarrow> ((False, Some (wrap (''failed to create '' @ path_text dir) (io_err e))), s1)
      | (None, s1) \<Rightarrow>
          (case writePolicies env dir (range_map ord AtDesired desired) False s1 of
             ((changed, Some e), s2) \<Rightarrow> ((changed, Some e), s2)
           | ((changed, None), s2) \<Rightarrow>
               (case os_ReadDir env s2 dir of
                  Inl e \<Rightarrow> ((changed, Some (io_err e)), s2)
                | Inr es \<Rightarrow> removePolicies env dir desired es changed s2)))"

section \<open>Writing the desired files\<close>

lemma child_image [simp]: "dir @ [n] \<in> (\<lambda>n. dir @ [n]) ` S \<longleftrightarrow> n \<in> S"
  by auto

definition json_name :: "string \<Rightarrow> bool" where
  "json_name n \<longleftrightarrow> (\<exists>tp. n = tp @ ''.json'' \<and> CHR ''/'' \<notin> set tp)"

lemma json_nameD:
  assumes "json_name n"
  shows "filepath_Join dir n = dir @ [n]" and "Ext n = ''.json''" and "\<forall>k. dir @ [n] \<noteq> temp_path tmpDir k"
proof -
  from assms obtain tp where n: "n = tp @ ''.json''" and "CHR ''/'' \<notin> set tp" by (auto simp: json_name_def)
  then show "filepath_Join dir n = dir @ [n]" and "Ext n = ''.json''"
    by (simp_all add: filepath_Join_plain plain_json Ext_json)
  show "\<forall>k. dir @ [n] \<noteq> temp_path tmpDir k"
    using temp_path_not_json n by metis
qed

lemma writePolicies_ok:
  assumes "writePolicies env dir xs c s = ((c', None), s')"
    and "\<forall>n \<in> fst ` set xs. json_name n \<and> (\<forall>t. map_of (disk s) (dir @ [n]) \<noteq> Some (Symlink t))"
    and "distinct (map fst xs)"
  shows "(\<forall>q. q \<notin> (\<lambda>n. dir @ [n]) ` fst ` set xs \<longrightarrow> map_of (disk s') q = map_of (disk s) q)
    \<and> (\<forall>(n, data) \<in> set xs. \<exists>m. map_of (disk s') (dir @ [n]) = Some (File data m))
    \<and> (\<not> c' \<longrightarrow> \<not> c \<and> s' = s)"
  using assms
proof (induction xs arbitrary: c s)
  case Nil
  then show ?case by simp
next
  case (Cons x xs)
  obtain n data where x: "x = (n, data)" by fastforce
  obtain w e s1 where wr: "writeFileIfChanged env s (dir @ [n]) dir data = ((w, e), s1)" by (metis prod_cases3 prod.exhaust)
  have jn: "json_name n" and ns: "\<And>t. map_of (disk s) (dir @ [n]) \<noteq> Some (Symlink t)"
    using Cons.prems(2) x by auto
  have e: "e = None" and run: "writePolicies env dir xs (c \<or> w) s1 = ((c', None), s')"
    using Cons.prems(1) x wr json_nameD(1) [OF jn] by (cases e; simp)+
  note W = writeFileIfChanged_ok [OF wr [unfolded e] json_nameD(3) [OF jn] ns]
  have fresh: "n \<notin> fst ` set xs" using Cons.prems(3) x by force
  have "\<forall>k \<in> fst ` set xs. json_name k \<and> (\<forall>t. map_of (disk s1) (dir @ [k]) \<noteq> Some (Symlink t))"
  proof
    fix k assume k: "k \<in> fst ` set xs"
    with fresh have "dir @ [k] \<noteq> dir @ [n]" by auto
    with W have "map_of (disk s1) (dir @ [k]) = map_of (disk s) (dir @ [k])" by simp
    with Cons.prems(2) k show "json_name k \<and> (\<forall>t. map_of (disk s1) (dir @ [k]) \<noteq> Some (Symlink t))" by auto
  qed
  note IH = Cons.IH [OF run this]
  have I: "\<forall>q. q \<notin> (\<lambda>n. dir @ [n]) ` fst ` set xs \<longrightarrow> map_of (disk s') q = map_of (disk s1) q"
    "\<forall>(n, data) \<in> set xs. \<exists>m. map_of (disk s') (dir @ [n]) = Some (File data m)"
    "\<not> c' \<longrightarrow> \<not> (c \<or> w) \<and> s' = s1"
    using IH Cons.prems(3) by auto
  have "dir @ [n] \<notin> (\<lambda>n. dir @ [n]) ` fst ` set xs" using fresh by auto
  then have "\<exists>m. map_of (disk s') (dir @ [n]) = Some (File data m)" using I(1) W by metis
  moreover have "map_of (disk s') q = map_of (disk s) q" if "q \<notin> (\<lambda>n. dir @ [n]) ` fst ` set (x # xs)" for q
    using that I(1) W x by auto
  ultimately show ?case using I(2,3) W x by auto
qed

section \<open>Removing the others\<close>

text \<open>The entries the sync may remove.\<close>

definition stale :: "string gomap \<Rightarrow> (string \<times> bool) list \<Rightarrow> string set" where
  "stale desired es = {n. (n, False) \<in> set es \<and> Ext n = ''.json'' \<and> map_of desired n = None}"

lemma removePolicies_ok:
  assumes "removePolicies env dir desired es c s = ((c', None), s')"
    and "\<forall>n \<in> fst ` set es. plain_element n"
  shows "(\<forall>n \<in> stale desired es. map_of (disk s') (dir @ [n]) = None)
    \<and> (\<forall>q. q \<notin> (\<lambda>n. dir @ [n]) ` stale desired es \<longrightarrow> map_of (disk s') q = map_of (disk s) q)
    \<and> (\<not> c' \<longrightarrow> \<not> c \<and> s' = s \<and> stale desired es = {})"
  using assms
proof (induction es arbitrary: c s)
  case Nil
  then show ?case by (simp add: stale_def)
next
  case (Cons x es)
  obtain n b where x: "x = (n, b)" by fastforce
  show ?case
  proof (cases "b \<or> Ext n \<noteq> ''.json'' \<or> map_of desired n \<noteq> None")
    case True
    then have "stale desired (x # es) = stale desired es" by (auto simp: stale_def x)
    moreover have "removePolicies env dir desired es c s = ((c', None), s')"
      using Cons.prems(1) True x by (auto split: if_splits)
    ultimately show ?thesis using Cons.IH [of c s] Cons.prems(2) by simp
  next
    case False
    then have st: "stale desired (x # es) = insert n (stale desired es)" by (auto simp: stale_def x)
    obtain e s1 where rm: "os_Remove env s (dir @ [n]) = (e, s1)" by fastforce
    have J: "filepath_Join dir n = dir @ [n]"
      using Cons.prems(2) x by (simp add: filepath_Join_plain)
    have ok: "e = None \<or> (\<exists>y. e = Some y \<and> is_not_exist y)"
      and run: "removePolicies env dir desired es True s1 = ((c', None), s')"
      using Cons.prems(1) False x rm J by (auto split: option.splits if_splits)
    have IH: "\<forall>n \<in> stale desired es. map_of (disk s') (dir @ [n]) = None"
      "\<forall>q. q \<notin> (\<lambda>n. dir @ [n]) ` stale desired es \<longrightarrow> map_of (disk s') q = map_of (disk s1) q" "c'"
      using Cons.IH [OF run] Cons.prems(2) by auto
    note R = os_Remove_ok [OF rm ok]
    have "map_of (disk s') (dir @ [n]) = None" using IH(1) spec [OF IH(2), of "dir @ [n]"] R by (cases "n \<in> stale desired es") auto
    with IH R st show ?thesis by auto
  qed
qed

section \<open>The sync as a whole\<close>

text \<open>
  Where the sync runs: the desired names are policy file names, the entries of the directory are
  single path elements, and no desired name is a symbolic link.
\<close>

definition policies_ready :: "path \<Rightarrow> string gomap \<Rightarrow> disk \<Rightarrow> bool" where
  "policies_ready dir desired d \<longleftrightarrow> wf_map desired
     \<and> (\<forall>n. map_of desired n \<noteq> None \<longrightarrow> json_name n \<and> (\<forall>t. map_of d (dir @ [n]) \<noteq> Some (Symlink t)))
     \<and> (\<forall>n. map_of d (dir @ [n]) \<noteq> None \<longrightarrow> plain_element n)"

text \<open>The directory holds the desired files and no other policy file.\<close>

definition policies_match :: "path \<Rightarrow> string gomap \<Rightarrow> disk \<Rightarrow> bool" where
  "policies_match dir desired d \<longleftrightarrow> dirs_above dir d
     \<and> (\<forall>n c. map_of desired n = Some c \<longrightarrow> (\<exists>m. map_of d (dir @ [n]) = Some (File c m)))
     \<and> (\<forall>n. map_of desired n = None \<longrightarrow> Ext n = ''.json'' \<longrightarrow> map_of d (dir @ [n]) \<in> {None, Some Dir})"

lemma desired_range:
  assumes "policies_ready dir desired d" and "range_order ord"
  shows "set (range_map ord AtDesired desired) = set desired"
    and "distinct (map fst (range_map ord AtDesired desired))"
    and "fst ` set (range_map ord AtDesired desired) = dom (map_of desired)"
  using assms by (simp_all add: policies_ready_def set_range_map distinct_range_map dom_map_of_conv_image_fst)

lemma json_name_plain: "json_name n \<Longrightarrow> plain_element n"
  by (auto simp: json_name_def plain_json)

lemma after_writes:
  assumes ready: "policies_ready dir desired (disk s)" and "range_order ord"
    and mk: "os_MkdirAll env s dir = (None, s1)"
    and wr: "writePolicies env dir (range_map ord AtDesired desired) False s1 = ((c, None), s2)"
  shows "\<And>q. q \<notin> (\<lambda>n. dir @ [n]) ` dom (map_of desired) \<Longrightarrow> map_of (disk s2) q = map_of (disk s1) q"
    and "\<And>n x. map_of desired n = Some x \<Longrightarrow> \<exists>m. map_of (disk s2) (dir @ [n]) = Some (File x m)"
    and "\<not> c \<Longrightarrow> s2 = s1"
    and "\<And>n. map_of (disk s2) (dir @ [n]) \<noteq> None \<Longrightarrow> plain_element n"
proof -
  have same: "map_of (disk s1) (dir @ [n]) = map_of (disk s) (dir @ [n])" for n
    using os_MkdirAll_ok(1) [OF mk, of "dir @ [n]"] by simp
  have "\<forall>n \<in> fst ` set (range_map ord AtDesired desired).
      json_name n \<and> (\<forall>t. map_of (disk s1) (dir @ [n]) \<noteq> Some (Symlink t))"
    using ready by (simp add: same desired_range(3) [OF ready assms(2)] policies_ready_def dom_def)
  note W = writePolicies_ok [OF wr this desired_range(2) [OF ready assms(2)],
      unfolded desired_range(1,3) [OF ready assms(2)]]
  show out: "map_of (disk s2) q = map_of (disk s1) q" if "q \<notin> (\<lambda>n. dir @ [n]) ` dom (map_of desired)" for q
    using spec [OF conjunct1 [OF W], of q] that by (simp add: dom_map_of_conv_image_fst)
  show "\<exists>m. map_of (disk s2) (dir @ [n]) = Some (File x m)" if "map_of desired n = Some x" for n x
    using bspec [OF conjunct1 [OF conjunct2 [OF W]] map_of_SomeD [OF that]] by simp
  show "s2 = s1" if "\<not> c" using W that by blast
  show "plain_element n" if "map_of (disk s2) (dir @ [n]) \<noteq> None" for n
  proof (cases "n \<in> dom (map_of desired)")
    case True
    with ready show ?thesis by (auto simp: policies_ready_def intro: json_name_plain)
  next
    case False
    then have "map_of (disk s2) (dir @ [n]) = map_of (disk s) (dir @ [n])" using out same by simp
    with that ready show ?thesis by (simp add: policies_ready_def)
  qed
qed

lemma syncTrustPolicyFiles_stages:
  assumes "syncTrustPolicyFiles env ord dir desired s = ((c, None), s')"
  obtains s1 c2 s2 es where "os_MkdirAll env s dir = (None, s1)"
    and "writePolicies env dir (range_map ord AtDesired desired) False s1 = ((c2, None), s2)"
    and "os_ReadDir env s2 dir = Inr es" and "removePolicies env dir desired es c2 s2 = ((c, None), s')"
  using assms unfolding syncTrustPolicyFiles_def
  by (auto split: prod.splits option.splits sum.splits)

lemma syncTrustPolicyFiles_ok:
  assumes run: "syncTrustPolicyFiles env ord dir desired s = ((c, None), s')"
    and ready: "policies_ready dir desired (disk s)" and ord: "range_order ord"
  shows "policies_match dir desired (disk s')"
    and "\<forall>n. q = dir @ [n] \<longrightarrow> Ext n \<noteq> ''.json'' \<or> map_of desired n = None \<and> map_of (disk s) q = Some Dir \<Longrightarrow>
       map_of (disk s') q = map_of (disk s) q \<or> map_of (disk s) q = None \<and> map_of (disk s') q = Some Dir \<and> prefix q dir"
    and "\<not> c \<Longrightarrow> length dir < length q \<Longrightarrow> map_of (disk s') q = map_of (disk s) q"
    and "\<not> c \<Longrightarrow> dirs_above dir (disk s) \<Longrightarrow> s' = s"
proof -
  from run obtain s1 c2 s2 es where mk: "os_MkdirAll env s dir = (None, s1)"
    and wr: "writePolicies env dir (range_map ord AtDesired desired) False s1 = ((c2, None), s2)"
    and rd: "os_ReadDir env s2 dir = Inr es" and rm: "removePolicies env dir desired es c2 s2 = ((c, None), s')"
    by (rule syncTrustPolicyFiles_stages)
  note A = after_writes [OF ready ord mk wr]
  have pl: "\<forall>n \<in> fst ` set es. plain_element n"
    using A(4) by (auto simp: os_ReadDir_entries [OF rd])
  have st: "stale desired es = {n. map_of (disk s2) (dir @ [n]) \<noteq> None \<and> map_of (disk s2) (dir @ [n]) \<noteq> Some Dir
      \<and> Ext n = ''.json'' \<and> map_of desired n = None}"
    by (auto simp: stale_def os_ReadDir_entries [OF rd])
  note R = removePolicies_ok [OF rm pl]
  have gone: "map_of (disk s') (dir @ [n]) = None" if "n \<in> stale desired es" for n using R that by blast
  have kept: "map_of (disk s') p = map_of (disk s2) p" if "p \<notin> (\<lambda>n. dir @ [n]) ` stale desired es" for p
    using conjunct1 [OF conjunct2 [OF R]] that by blast
  have short: "map_of (disk s') p = map_of (disk s1) p" if "length p \<le> length dir" for p
  proof -
    have "p \<notin> (\<lambda>n. dir @ [n]) ` S" for S using that by auto
    with kept A(1) show ?thesis by simp
  qed
  show "policies_match dir desired (disk s')"
    unfolding policies_match_def
  proof (intro conjI allI impI)
    show "dirs_above dir (disk s')"
      using os_MkdirAll_ok(2) [OF mk] by (rule dirs_above_keep) (auto simp: short)
    show "\<exists>m. map_of (disk s') (dir @ [n]) = Some (File x m)" if "map_of desired n = Some x" for n x
      using A(2) [OF that] kept [of "dir @ [n]"] that by (simp add: st)
    show "map_of (disk s') (dir @ [n]) \<in> {None, Some Dir}" if "map_of desired n = None" "Ext n = ''.json''" for n
      using gone [of n] kept [of "dir @ [n]"] that by (cases "n \<in> stale desired es") (auto simp: st)
  qed
  note M = os_MkdirAll_ok(1) [OF mk, of q]
  show "map_of (disk s') q = map_of (disk s) q \<or> map_of (disk s) q = None \<and> map_of (disk s') q = Some Dir \<and> prefix q dir"
    if "\<forall>n. q = dir @ [n] \<longrightarrow> Ext n \<noteq> ''.json'' \<or> map_of desired n = None \<and> map_of (disk s) q = Some Dir"
  proof -
    have s2: "map_of (disk s2) q = map_of (disk s1) q"
    proof (rule A(1), rule notI)
      assume "q \<in> (\<lambda>n. dir @ [n]) ` dom (map_of desired)"
      then obtain n where "q = dir @ [n]" and "map_of desired n \<noteq> None" by auto
      with ready that json_nameD(2) [of n] show False by (simp add: policies_ready_def)
    qed
    have "q \<notin> (\<lambda>n. dir @ [n]) ` stale desired es"
      using that M s2 by (auto simp: st)
    with kept s2 M show ?thesis by auto
  qed
  show "map_of (disk s') q = map_of (disk s) q" if "\<not> c" "length dir < length q"
    using R A(3) M that by auto
  show "s' = s" if "\<not> c" "dirs_above dir (disk s)"
    using R A(3) os_MkdirAll_ok(3) [OF mk] that by auto
qed

text \<open>A directory that matches is left alone.\<close>

lemma writePolicies_still:
  assumes "\<forall>(n, x) \<in> set xs. json_name n \<and> (\<exists>m. map_of (disk s) (dir @ [n]) = Some (File x m))" and "no_faults env"
  shows "writePolicies env dir xs c s = ((c, None), s)"
  using assms(1)
proof (induction xs)
  case (Cons p xs)
  obtain n x where p: "p = (n, x)" by fastforce
  with Cons.prems obtain m where "json_name n" and "map_of (disk s) (dir @ [n]) = Some (File x m)" by auto
  with assms(2) have "writeFileIfChanged env s (filepath_Join dir n) dir x = ((False, None), s)"
    by (simp add: json_nameD(1) writeFileIfChanged_def os_ReadFile_def no_faults_def read_node_File)
  with Cons p show ?case by simp
qed simp

lemma removePolicies_still:
  "stale desired es = {} \<Longrightarrow> removePolicies env dir desired es c s = ((c, None), s)"
proof (induction es)
  case (Cons p es)
  obtain n b where p: "p = (n, b)" by fastforce
  from Cons.prems have "stale desired es = {}" and "b \<or> Ext n \<noteq> ''.json'' \<or> map_of desired n \<noteq> None"
    by (auto simp: stale_def p)
  with Cons.IH p show ?case by auto
qed simp

lemma syncTrustPolicyFiles_still:
  assumes "policies_match dir desired (disk s)" and "no_faults env" and "range_order ord"
    and "wf_map desired" and "\<forall>n. map_of desired n \<noteq> None \<longrightarrow> json_name n"
  shows "syncTrustPolicyFiles env ord dir desired s = ((False, None), s)"
proof -
  have da: "dirs_above dir (disk s)" using assms(1) by (simp add: policies_match_def)
  obtain e s1 where mk: "os_MkdirAll env s dir = (e, s1)" by fastforce
  then have mk: "os_MkdirAll env s dir = (None, s)" using os_MkdirAll_ok(3) [OF mk da] by simp
  have "\<forall>(n, x) \<in> set (range_map ord AtDesired desired). json_name n \<and> (\<exists>m. map_of (disk s) (dir @ [n]) = Some (File x m))"
    using assms(1,4,5) by (auto simp: set_range_map [OF assms(3,4)] policies_match_def wf_map_def)
  then have wr: "writePolicies env dir (range_map ord AtDesired desired) False s = ((False, None), s)"
    using assms(2) by (rule writePolicies_still)
  obtain es where rd: "os_ReadDir env s dir = Inr es"
    using assms(2) dirs_above_is_dir [OF da] by (simp add: os_ReadDir_def no_faults_def)
  have "stale desired es = {}"
    using assms(1) by (auto simp: stale_def os_ReadDir_entries [OF rd] policies_match_def)
  then show ?thesis
    by (simp add: syncTrustPolicyFiles_def mk wr rd removePolicies_still)
qed

section \<open>Failures and progress\<close>

text \<open>The paths the sync may ever touch.\<close>

definition policy_paths :: "path \<Rightarrow> path set" where
  "policy_paths dir = {q. prefix q dir} \<union> {dir @ [n] |n. Ext n = ''.json''} \<union> range (temp_path dir)"

lemma writePolicies_within:
  "\<forall>n \<in> fst ` set xs. json_name n \<Longrightarrow> writePolicies env dir xs c s = (r, s') \<Longrightarrow> within (policy_paths dir) s s'"
proof (induction xs arbitrary: c s)
  case (Cons p xs)
  obtain n x where p: "p = (n, x)" by fastforce
  with Cons.prems(1) have jn: "json_name n" by simp
  obtain w e s1 where wr: "writeFileIfChanged env s (dir @ [n]) dir x = ((w, e), s1)" by (metis prod_cases3 prod.exhaust)
  have step: "within (policy_paths dir) s s1"
    by (rule writeFileIfChanged_within [OF wr json_nameD(3) [OF jn]])
      (use json_nameD(2) [OF jn] in \<open>auto simp: policy_paths_def\<close>)
  show ?case
  proof (cases e)
    case None
    with Cons.prems p wr json_nameD(1) [OF jn] have "writePolicies env dir xs (c \<or> w) s1 = (r, s')" by simp
    with Cons.IH Cons.prems(1) step show ?thesis by (auto intro: within_trans)
  next
    case (Some y)
    with Cons.prems p wr json_nameD(1) [OF jn] step show ?thesis by simp
  qed
qed simp

lemma removePolicies_within:
  "\<forall>n \<in> fst ` set es. plain_element n \<Longrightarrow> removePolicies env dir desired es c s = (r, s') \<Longrightarrow>
     within (policy_paths dir) s s'"
proof (induction es arbitrary: c s)
  case (Cons p es)
  obtain n b where p: "p = (n, b)" by fastforce
  show ?case
  proof (cases "b \<or> Ext n \<noteq> ''.json'' \<or> map_of desired n \<noteq> None")
    case True
    with Cons p show ?thesis by (auto split: if_splits)
  next
    case False
    have J: "filepath_Join dir n = dir @ [n]" using Cons.prems(1) p by (simp add: filepath_Join_plain)
    obtain e s1 where rm: "os_Remove env s (dir @ [n]) = (e, s1)" by fastforce
    have step: "within (policy_paths dir) s s1"
      using rm by (rule os_Remove_within [rotated]) (use False in \<open>auto simp: policy_paths_def\<close>)
    have "s' = s1 \<or> removePolicies env dir desired es True s1 = (r, s')"
      using Cons.prems(2) False p rm J by (cases e) (auto split: if_splits)
    with Cons.IH Cons.prems(1) step show ?thesis by (auto intro: within_trans)
  qed
qed simp

lemma syncTrustPolicyFiles_within:
  assumes ready: "policies_ready dir desired (disk s)" and ord: "range_order ord"
    and run: "syncTrustPolicyFiles env ord dir desired s = (r, s')"
  shows "within (policy_paths dir) s s'"
proof -
  obtain e1 s1 where mk: "os_MkdirAll env s dir = (e1, s1)" by fastforce
  obtain c2 e2 s2 where wr: "writePolicies env dir (range_map ord AtDesired desired) False s1 = ((c2, e2), s2)"
    by (metis prod_cases3 prod.exhaust)
  have w1: "within (policy_paths dir) s s1"
    using mk by (rule os_MkdirAll_within [rotated]) (auto simp: policy_paths_def)
  have "\<forall>n \<in> fst ` set (range_map ord AtDesired desired). json_name n"
    using ready by (simp add: desired_range(3) [OF ready ord] policies_ready_def dom_def)
  then have w2: "within (policy_paths dir) s s2"
    using within_trans [OF w1 writePolicies_within [OF _ wr]] by simp
  consider "e1 \<noteq> None" | "e1 = None" "e2 \<noteq> None" | x where "e1 = None" "e2 = None" "os_ReadDir env s2 dir = Inl x"
    | es where "e1 = None" "e2 = None" "os_ReadDir env s2 dir = Inr es"
    by (cases "os_ReadDir env s2 dir") auto
  then show ?thesis
  proof cases
    case 4
    have "\<forall>n \<in> fst ` set es. plain_element n"
      using after_writes(4) [OF ready ord mk [unfolded 4] wr [unfolded 4]]
      by (auto simp: os_ReadDir_entries [OF 4(3)])
    moreover have "removePolicies env dir desired es c2 s2 = (r, s')"
      using run mk wr 4 by (simp add: syncTrustPolicyFiles_def)
    ultimately show ?thesis by (rule within_trans [OF w2 removePolicies_within])
  qed (use run mk wr w1 w2 in \<open>auto simp: syncTrustPolicyFiles_def\<close>)
qed

text \<open>Where nothing stands in the way of the sync.\<close>

definition policies_writable :: "os_env \<Rightarrow> path \<Rightarrow> string set \<Rightarrow> disk \<Rightarrow> bool" where
  "policies_writable env dir names d \<longleftrightarrow> can_be_dir dir d
     \<and> (\<forall>n \<in> names. map_of d (dir @ [n]) = None \<or> (\<exists>c m. map_of d (dir @ [n]) = Some (File c m)))
     \<and> (\<exists>k \<in> set (temp_numbers env). map_of d (temp_path dir k) = None)"

lemma writePolicies_succeeds:
  assumes "no_faults env"
  shows "dirs_above dir (disk s) \<Longrightarrow> policies_writable env dir (fst ` set xs) (disk s) \<Longrightarrow>
    \<forall>n \<in> fst ` set xs. json_name n \<Longrightarrow> snd (fst (writePolicies env dir xs c s)) = None"
proof (induction xs arbitrary: c s)
  case (Cons p xs)
  obtain n x where p: "p = (n, x)" by fastforce
  with Cons.prems(3) have jn: "json_name n" by simp
  note P = Cons.prems(2) [unfolded policies_writable_def]
  obtain w s1 where wr: "writeFileIfChanged env s (dir @ [n]) dir x = ((w, None), s1)"
    by (rule writeFileIfChanged_succeeds [OF assms Cons.prems(1) _ dirs_above_is_dir [OF Cons.prems(1)] _ json_nameD(3) [OF jn]])
      (use P p in auto)
  have "map_of (disk s) (dir @ [n]) \<noteq> Some (Symlink t)" for t using P p by auto
  note W = writeFileIfChanged_ok [OF wr json_nameD(3) [OF jn] this]
  have short: "map_of (disk s1) q = map_of (disk s) q" if "length q \<le> length dir" for q
  proof -
    have "q \<noteq> dir @ [n]" using that by auto
    with W show ?thesis by simp
  qed
  have "dirs_above dir (disk s1)"
    using Cons.prems(1) by (rule dirs_above_keep) (simp add: short)
  moreover have "policies_writable env dir (fst ` set xs) (disk s1)"
    unfolding policies_writable_def
  proof (intro conjI ballI)
    show "can_be_dir dir (disk s1)" using P by (auto intro: can_be_dir_keep short)
    show "map_of (disk s1) (dir @ [k]) = None \<or> (\<exists>c m. map_of (disk s1) (dir @ [k]) = Some (File c m))"
      if "k \<in> fst ` set xs" for k
      using P W that by (cases "k = n") auto
    show "\<exists>k \<in> set (temp_numbers env). map_of (disk s1) (temp_path dir k) = None"
      using P W json_nameD(3) [OF jn] by metis
  qed
  ultimately have "snd (fst (writePolicies env dir xs (c \<or> w) s1)) = None"
    using Cons.IH Cons.prems(3) by simp
  then show ?case using p wr json_nameD(1) [OF jn] by simp
qed simp

lemma removePolicies_succeeds:
  assumes "no_faults env"
  shows "can_be_dir dir (disk s) \<Longrightarrow> \<forall>n \<in> fst ` set es. plain_element n \<Longrightarrow>
    \<forall>n. (n, False) \<in> set es \<longrightarrow> map_of (disk s) (dir @ [n]) \<noteq> Some Dir \<Longrightarrow>
    snd (fst (removePolicies env dir desired es c s)) = None"
proof (induction es arbitrary: c s)
  case (Cons p es)
  obtain n b where p: "p = (n, b)" by fastforce
  show ?case
  proof (cases "b \<or> Ext n \<noteq> ''.json'' \<or> map_of desired n \<noteq> None")
    case True
    with Cons p show ?thesis by auto
  next
    case False
    have J: "filepath_Join dir n = dir @ [n]" using Cons.prems(2) p by (simp add: filepath_Join_plain)
    obtain e s1 where rm: "os_Remove env s (dir @ [n]) = (e, s1)" and ok: "e = None \<or> (\<exists>x. e = Some x \<and> is_not_exist x)"
      by (rule os_Remove_succeeds [OF assms Cons.prems(1)]) (use Cons.prems(3) False p in auto)
    note R = os_Remove_ok [OF rm ok]
    have "can_be_dir dir (disk s1)"
      using Cons.prems(1)
    proof (rule can_be_dir_keep)
      fix q :: path assume "length q \<le> length dir"
      then have "q \<noteq> dir @ [n]" by auto
      with R show "map_of (disk s1) q = map_of (disk s) q" by simp
    qed
    moreover have "map_of (disk s1) (dir @ [k]) \<noteq> Some Dir" if "(k, False) \<in> set es" for k
      using R Cons.prems(3) that by (cases "k = n") auto
    ultimately have "snd (fst (removePolicies env dir desired es True s1)) = None"
      using Cons.IH Cons.prems(2) by simp
    with False p rm ok J show ?thesis by auto
  qed
qed simp

lemma syncTrustPolicyFiles_succeeds:
  assumes env: "no_faults env" and ready: "policies_ready dir desired (disk s)" and ord: "range_order ord"
    and free: "policies_writable env dir (dom (map_of desired)) (disk s)"
  obtains c s' where "syncTrustPolicyFiles env ord dir desired s = ((c, None), s')"
proof -
  note P = free [unfolded policies_writable_def]
  obtain s1 where mk: "os_MkdirAll env s dir = (None, s1)"
    by (rule os_MkdirAll_succeeds [OF env]) (use P in auto)
  have long: "map_of (disk s1) (dir @ [n]) = map_of (disk s) (dir @ [n])" for n
    using os_MkdirAll_ok(1) [OF mk, of "dir @ [n]"] by simp
  note da = os_MkdirAll_ok(2) [OF mk refl]
  have cb: "can_be_dir dir (disk s1)" using can_be_dir_above [OF _ mk refl] P by blast
  have "policies_writable env dir (dom (map_of desired)) (disk s1)"
    using P cb by (simp add: policies_writable_def long temp_path_def)
  then have "snd (fst (writePolicies env dir (range_map ord AtDesired desired) False s1)) = None"
    by (intro writePolicies_succeeds [OF env da])
      (use ready in \<open>simp_all add: desired_range(3) [OF ready ord] policies_ready_def dom_def\<close>)
  then obtain c2 s2 where wr: "writePolicies env dir (range_map ord AtDesired desired) False s1 = ((c2, None), s2)"
    by (metis prod.collapse)
  note A = after_writes [OF ready ord mk wr]
  have short: "map_of (disk s2) q = map_of (disk s1) q" if "length q \<le> length dir" for q
    using that by (intro A(1)) auto
  have da2: "dirs_above dir (disk s2)" using da by (rule dirs_above_keep) (simp add: short)
  obtain es where rd: "os_ReadDir env s2 dir = Inr es"
    using env dirs_above_is_dir [OF da2] by (simp add: os_ReadDir_def no_faults_def)
  have "snd (fst (removePolicies env dir desired es c2 s2)) = None"
    by (rule removePolicies_succeeds [OF env can_be_dir_keep [OF cb short]])
      (use A(4) in \<open>auto simp: os_ReadDir_entries [OF rd]\<close>)
  then have "snd (fst (syncTrustPolicyFiles env ord dir desired s)) = None"
    by (simp add: syncTrustPolicyFiles_def mk wr rd)
  then show ?thesis by (metis prod.collapse that)
qed

section \<open>Properties\<close>

text \<open>
  C13. When \<^verbatim>\<open>syncTrustPolicyFiles\<close> returns no error, the policy files of the directory are exactly
  the desired ones with the desired content; everything else on the disk (trust stores, plugins,
  other files) is as before, apart from the directory itself and its parents, which now exist;
  and when it reports no change, no path below the directory changed.
\<close>

theorem syncTrustPolicyFiles_exact:
  assumes "syncTrustPolicyFiles env ord dir desired s = ((changed, None), s')"
    and "policies_ready dir desired (disk s)" and "range_order ord"
  shows "policies_match dir desired (disk s')
    \<and> (\<forall>q. (\<forall>n. q = dir @ [n] \<longrightarrow> Ext n \<noteq> ''.json'') \<longrightarrow>
         map_of (disk s') q = map_of (disk s) q
         \<or> map_of (disk s) q = None \<and> map_of (disk s') q = Some Dir \<and> prefix q dir)
    \<and> (\<not> changed \<longrightarrow> (\<forall>q. length dir < length q \<longrightarrow> map_of (disk s') q = map_of (disk s) q))"
  using syncTrustPolicyFiles_ok [OF assms] by auto

definition demo_desired :: "string gomap" where
  "demo_desired = [(''tp.json'', ''{}'')]"

definition demo_policies :: os where
  "demo_policies = \<lparr> disk = [([''n''], Dir), ([''n'', ''gone.json''], File ''old'' perm600),
     ([''n'', ''plugins''], Dir)], hist = [] \<rparr>"

lemma demo_policies_ready:
  "policies_ready [''n''] demo_desired (disk demo_policies)"
  "policies_writable calm [''n''] (dom (map_of demo_desired)) (disk demo_policies)"
proof -
  have "json_name ''tp.json''" unfolding json_name_def by (intro exI [of _ "''tp''"]) simp
  then show "policies_ready [''n''] demo_desired (disk demo_policies)"
    by (auto simp: policies_ready_def demo_desired_def demo_policies_def wf_map_def plain_element_def split: if_splits)
  show "policies_writable calm [''n''] (dom (map_of demo_desired)) (disk demo_policies)"
    by (auto simp: policies_writable_def can_be_dir_def demo_desired_def demo_policies_def calm_def
        temp_path_def uitoa_7 le_Suc_eq)
qed

lemma no_faults_calm [simp]: "no_faults calm"
  by (simp add: no_faults_def calm_def)

theorem syncTrustPolicyFiles_exact_witness:
  "\<exists>c s'. syncTrustPolicyFiles calm in_order [''n''] demo_desired demo_policies = ((c, None), s')
     \<and> policies_match [''n''] demo_desired (disk s') \<and> map_of (disk s') [''n'', ''plugins''] = Some Dir"
proof -
  obtain c s' where run: "syncTrustPolicyFiles calm in_order [''n''] demo_desired demo_policies = ((c, None), s')"
    by (rule syncTrustPolicyFiles_succeeds [OF no_faults_calm demo_policies_ready(1) range_order_in_order demo_policies_ready(2)])
  note E = syncTrustPolicyFiles_exact [OF run demo_policies_ready(1) range_order_in_order]
  have "Ext ''plugins'' \<noteq> ''.json''" by (simp add: Ext_def)
  then have "map_of (disk s') [''n'', ''plugins''] = map_of (disk demo_policies) [''n'', ''plugins'']"
    using spec [OF conjunct1 [OF conjunct2 [OF E]], of "[''n'', ''plugins'']"] by (auto simp: demo_policies_def)
  with run E show ?thesis by (intro exI [of _ c] exI [of _ s']) (simp add: demo_policies_def)
qed

text \<open>
  C18. The sync converges: without system call failures, and with nothing but files or nothing
  where files are to be written, it returns no error and the directory matches; a further
  sync of the same policies, in any iteration order, reports no change and leaves the disk alone,
  so it triggers no reload.
\<close>

theorem syncTrustPolicyFiles_converges:
  assumes "no_faults env" and "policies_ready dir desired (disk s)" and "range_order ord"
    and "policies_writable env dir (dom (map_of desired)) (disk s)"
  shows "\<exists>changed s'. syncTrustPolicyFiles env ord dir desired s = ((changed, None), s')
    \<and> policies_match dir desired (disk s')
    \<and> (\<forall>env' ord'. no_faults env' \<longrightarrow> range_order ord' \<longrightarrow>
         syncTrustPolicyFiles env' ord' dir desired s' = ((False, None), s'))"
proof -
  obtain c s' where run: "syncTrustPolicyFiles env ord dir desired s = ((c, None), s')"
    by (rule syncTrustPolicyFiles_succeeds [OF assms])
  note match = syncTrustPolicyFiles_ok(1) [OF run assms(2,3)]
  have "syncTrustPolicyFiles env' ord' dir desired s' = ((False, None), s')"
    if "no_faults env'" "range_order ord'" for env' ord'
    by (rule syncTrustPolicyFiles_still [OF match that]) (use assms(2) in \<open>auto simp: policies_ready_def\<close>)
  with run match show ?thesis by blast
qed

theorem syncTrustPolicyFiles_converges_witness:
  "\<exists>c s'. syncTrustPolicyFiles calm in_order [''n''] demo_desired demo_policies = ((c, None), s')
     \<and> syncTrustPolicyFiles calm in_order [''n''] demo_desired s' = ((False, None), s')"
  using syncTrustPolicyFiles_converges
    [OF no_faults_calm demo_policies_ready(1) range_order_in_order demo_policies_ready(2)]
    no_faults_calm range_order_in_order by blast

text \<open>
  C16. Whatever system calls fail, and also when the sync gives up half way, every version of the
  disk differs from the one before the sync only at the directory and its parents, at \<^verbatim>\<open>.json\<close>
  files directly in it and at temporary files of the sync: trust stores and plugins, which live in
  subdirectories, are never touched.
\<close>

theorem syncTrustPolicyFiles_confined:
  assumes "policies_ready dir desired (disk s)" and "range_order ord"
    and "syncTrustPolicyFiles env ord dir desired s = (r, s')"
  shows "\<exists>ds. hist s' = hist s @ ds
    \<and> (\<forall>d \<in> set ds. \<forall>q. q \<notin> policy_paths dir \<longrightarrow> map_of d q = map_of (disk s) q)
    \<and> (\<forall>x y rest. dir @ x # y # rest \<notin> policy_paths dir)"
proof -
  obtain ds where "hist s' = hist s @ ds" and "\<forall>d \<in> set ds. agree_off (policy_paths dir) (disk s) d"
    using syncTrustPolicyFiles_within [OF assms] by (auto simp: within_def grows_def)
  moreover have "dir @ x # y # rest \<notin> policy_paths dir" for x y rest
    by (auto simp: policy_paths_def temp_path_def dest: prefix_length_le)
  ultimately show ?thesis by (auto simp: agree_off_def)
qed

theorem syncTrustPolicyFiles_confined_witness:
  "\<exists>ds. hist (snd (syncTrustPolicyFiles calm in_order [''n''] demo_desired demo_policies)) = hist demo_policies @ ds
    \<and> (\<forall>d \<in> set ds. map_of d [''n'', ''plugins'', ''signer''] = map_of (disk demo_policies) [''n'', ''plugins'', ''signer''])"
  using syncTrustPolicyFiles_confined [OF demo_policies_ready(1) range_order_in_order surjective_pairing, of calm]
  by force

end
