(* ===== verification/Stores.thy ===== *)
theory Stores
  imports Policies
begin

text \<open>
  Trust stores (\<^verbatim>\<open>internal/kubenotation/api/v1alpha1/truststore_types.go\<close>) and the directory sync of
  their controller (\<^verbatim>\<open>controller/truststore_controller.go\<close>, \<^verbatim>\<open>syncTrustStores\<close>): one directory per
  store, two levels below the root, holding the certificate bundle.
\<close>

record TrustStoreSpec =
  TrustStoreName :: string
  ts_Type :: string
  CABundle :: string

record TrustStore = ObjectMeta +
  ts_Spec :: TrustStoreSpec

definition trustStoreCertFile :: string where
  "trustStoreCertFile = ''certificates.crt''"

text \<open>\<^verbatim>\<open>filepath.Join\<close> of two relative elements, neither of which is \<^verbatim>\<open>..\<close>.\<close>

fun slashed :: "string list \<Rightarrow> string" where
  "slashed [] = []"
| "slashed [x] = x"
| "slashed (x # xs) = x @ ''/'' @ slashed xs"

definition rel_Join :: "string \<Rightarrow> string \<Rightarrow> string" where
  "rel_Join a b = slashed (clean_onto [] (Split a (CHR ''/'') @ Split b (CHR ''/'')))"

section \<open>The sync\<close>

fun writeStores :: "os_env \<Rightarrow> path \<Rightarrow> (string \<times> string) list \<Rightarrow> bool \<Rightarrow> os \<Rightarrow> sync_result" where
  "writeStores env root [] changed s = ((changed, None), s)"
| "writeStores env root ((rel, data) # rest) changed s =
     (let dir = filepath_Join root rel
      in case os_MkdirAll env s dir of
           (Some e, s1) \<Rightarrow> ((changed, Some (wrap (''failed to create '' @ path_text dir) (io_err e))), s1)
         | (None, s1) \<Rightarrow>
             (case writeFileIfChanged env s1 (filepath_Join dir trustStoreCertFile) root data of
                ((written, Some e), s2) \<Rightarrow> ((changed, Some (wrap (''failed to write trust store '' @ rel) e)), s2)
              | ((written, None), s2) \<Rightarrow> writeStores env root rest (changed \<or> written) s2))"

fun removeStores ::
    "os_env \<Rightarrow> path \<Rightarrow> string gomap \<Rightarrow> string \<Rightarrow> (string \<times> bool) list \<Rightarrow> bool \<Rightarrow> os \<Rightarrow> sync_result" where
  "removeStores env root desired t [] changed s = ((changed, None), s)"
| "removeStores env root desired t ((name, isDir) # rest) changed s =
     (let rel = rel_Join t name
      in if map_of desired rel \<noteq> None then removeStores env root desired t rest changed s
         else (case os_RemoveAll env s (filepath_Join root rel) of
                 (Some e, s1) \<Rightarrow> ((changed, Some (wrap (''failed to delete trust store '' @ rel) (io_err e))), s1)
               | (None, s1) \<Rightarrow> removeStores env root desired t rest True s1))"

fun removeTypes ::
    "os_env \<Rightarrow> path \<Rightarrow> string gomap \<Rightarrow> (string \<times> bool) list \<Rightarrow> bool \<Rightarrow> os \<Rightarrow> sync_result" where
  "removeTypes env root desired [] changed s = ((changed, None), s)"
| "removeTypes env root desired ((t, isDir) # rest) changed s =
     (if \<not> isDir then removeTypes env root desired rest changed s
      else (case os_ReadDir env s (filepath_Join root t) of
              Inl e \<Rightarrow> ((changed, Some (io_err e)), s)
            | Inr stores \<Rightarrow>
                (case removeStores env root desired t stores changed s of
                   ((changed, Some e), s1) \<Rightarrow> ((changed, Some e), s1)
                 | ((changed, None), s1) \<Rightarrow> removeTypes env root desired rest changed s1)))"

definition syncTrustStores :: "os_env \<Rightarrow> orders \<Rightarrow> path \<Rightarrow> string gomap \<Rightarrow> os \<Rightarrow> sync_result" where
  "syncTrustStores env ord root desired s =
     (case os_MkdirAll env s root of
        (Some e, s1) \<Rightarrow> ((False, Some (wrap (''failed to create '' @ path_text root) (io_err e))), s1)
      | (None, s1) \<Rightarrow>
          (case writeStores env root (range_map ord AtDesired desired) False s1 of
             ((changed, Some e), s2) \<Rightarrow> ((changed, Some e), s2)
           | ((changed, None), s2) \<Rightarrow>
               (case os_ReadDir env s2 root of
                  Inl e \<Rightarrow> ((changed, Some (io_err e)), s2)
                | Inr types \<Rightarrow> removeTypes env root desired types changed s2)))"

section \<open>Store names\<close>

definition store_name :: "string \<Rightarrow> string \<Rightarrow> string \<Rightarrow> bool" where
  "store_name rel t n \<longleftrightarrow> rel = t @ ''/'' @ n \<and> plain_element t \<and> plain_element n"

lemma plain_noslash: "plain_element x \<Longrightarrow> CHR ''/'' \<notin> set x"
  by (simp add: plain_element_def)

lemma rel_Join_plain: "plain_element t \<Longrightarrow> plain_element n \<Longrightarrow> rel_Join t n = t @ ''/'' @ n"
  by (simp add: rel_Join_def plain_element_def Split_absent)

lemma store_name_unique: "store_name rel t n \<Longrightarrow> store_name rel t' n' \<Longrightarrow> t' = t \<and> n' = n"
  unfolding store_name_def using split_first_unique [of "CHR ''/''" t t' n n'] by (auto simp: plain_noslash)

lemma store_name_Join:
  assumes "store_name rel t n"
  shows "filepath_Join root rel = root @ [t, n]"
    and "filepath_Join (root @ [t, n]) trustStoreCertFile = root @ [t, n, trustStoreCertFile]"
proof -
  show "filepath_Join root rel = root @ [t, n]"
    using assms filepath_Join_plain2 [of t n root] by (simp add: store_name_def)
  have "plain_element trustStoreCertFile" by (simp add: plain_element_def trustStoreCertFile_def)
  then show "filepath_Join (root @ [t, n]) trustStoreCertFile = root @ [t, n, trustStoreCertFile]"
    by (simp add: filepath_Join_plain)
qed

lemma cert_not_temp: "\<forall>k. root @ [t, n, c] \<noteq> temp_path root k"
  by (simp add: temp_path_def)

section \<open>One store\<close>

text \<open>Every entry of the disk has its parents.\<close>

definition tree_disk :: "disk \<Rightarrow> bool" where
  "tree_disk d \<longleftrightarrow> (\<forall>p. map_of d p \<noteq> None \<longrightarrow> dirs_above (butlast p) d)"

lemma dirs_above_prefix: "dirs_above dir d \<Longrightarrow> prefix q dir \<Longrightarrow> dirs_above q d"
  by (auto simp: dirs_above_def prefix_def) (metis le_add1 le_trans take_append append_Nil2 diff_is_0_eq take_0)

lemma store_step:
  assumes tree: "tree_disk (disk s)" and mk: "os_MkdirAll env s (root @ [t, n]) = (None, s1)"
    and wr: "writeFileIfChanged env s1 (root @ [t, n, c]) root data = ((w, None), s2)"
    and link: "\<And>x. map_of (disk s) (root @ [t, n, c]) \<noteq> Some (Symlink x)"
  shows "\<exists>m. map_of (disk s2) (root @ [t, n, c]) = Some (File data m)"
    and "q \<noteq> root @ [t, n, c] \<Longrightarrow> map_of (disk s2) q = map_of (disk s) q
       \<or> map_of (disk s) q = None \<and> map_of (disk s2) q = Some Dir \<and> prefix q (root @ [t, n])"
    and "dirs_above (root @ [t, n]) (disk s2)"
    and "tree_disk (disk s2)"
    and "\<not> w \<Longrightarrow> s2 = s"
proof -
  let ?c = "root @ [t, n, c]"
  note M = os_MkdirAll_ok [OF mk]
  have c1: "map_of (disk s1) ?c = map_of (disk s) ?c" using M(1) [of ?c] by auto
  have "map_of (disk s1) ?c \<noteq> Some (Symlink x)" for x using link c1 by simp
  note W = writeFileIfChanged_ok [OF wr cert_not_temp this]
  show cert: "\<exists>m. map_of (disk s2) ?c = Some (File data m)" using W by blast
  show other: "map_of (disk s2) q = map_of (disk s) q
       \<or> map_of (disk s) q = None \<and> map_of (disk s2) q = Some Dir \<and> prefix q (root @ [t, n])" if "q \<noteq> ?c" for q
    using M(1) [of q] W that by auto
  have dirs: "map_of (disk s2) q = Some Dir" if "map_of (disk s1) q = Some Dir" for q
  proof -
    have "q \<noteq> ?c" using W that by auto
    with W that show ?thesis by simp
  qed
  show above: "dirs_above (root @ [t, n]) (disk s2)"
    using M(2) [OF refl] by (rule dirs_above_keep) (rule dirs)
  have old: "dirs_above p (disk s2)" if "dirs_above p (disk s)" for p
    using that
  proof (rule dirs_above_keep)
    fix q assume q: "map_of (disk s) q = Some Dir"
    then have "map_of (disk s1) q = Some Dir" using M(1) [of q] by simp
    then show "map_of (disk s2) q = Some Dir" by (rule dirs)
  qed
  show "tree_disk (disk s2)"
    unfolding tree_disk_def
  proof (intro allI impI)
    fix p assume p: "map_of (disk s2) p \<noteq> None"
    show "dirs_above (butlast p) (disk s2)"
    proof (cases "p = ?c")
      case True
      then show ?thesis using above by (simp add: butlast_append)
    next
      case False
      with other [OF False] p have "map_of (disk s) p \<noteq> None \<or> prefix p (root @ [t, n])" by auto
      then show ?thesis
      proof
        assume "map_of (disk s) p \<noteq> None"
        with tree show ?thesis by (auto simp: tree_disk_def intro: old)
      next
        assume "prefix p (root @ [t, n])"
        then have "prefix (butlast p) (root @ [t, n])" by (metis prefix_order.trans prefixeq_butlast)
        with above show ?thesis by (rule dirs_above_prefix)
      qed
    qed
  qed
  show "s2 = s" if "\<not> w"
  proof -
    have s2: "s2 = s1" using W that by blast
    with cert c1 tree have "dirs_above (butlast ?c) (disk s)" by (auto simp: tree_disk_def)
    then have "dirs_above (root @ [t, n]) (disk s)" by (simp add: butlast_append)
    with M(3) s2 show ?thesis by simp
  qed
qed

section \<open>Writing the desired stores\<close>

definition cert_path :: "path \<Rightarrow> string \<Rightarrow> path" where
  "cert_path root rel = filepath_Join root rel @ [trustStoreCertFile]"

lemma cert_path_name: "store_name rel t n \<Longrightarrow> cert_path root rel = root @ [t, n, trustStoreCertFile]"
  by (simp add: cert_path_def store_name_Join)

lemma cert_path_inj:
  assumes "store_name a t n" and "store_name b t' n'" and "cert_path root a = cert_path root b"
  shows "a = b"
proof -
  have "root @ [t, n, trustStoreCertFile] = root @ [t', n', trustStoreCertFile]"
    using assms cert_path_name [of a t n root] cert_path_name [of b t' n' root] by simp
  with assms(1,2) show ?thesis by (simp add: store_name_def)
qed

definition store_names :: "path \<Rightarrow> string set \<Rightarrow> disk \<Rightarrow> bool" where
  "store_names root names d \<longleftrightarrow>
     (\<forall>rel \<in> names. (\<exists>t n. store_name rel t n) \<and> (\<forall>x. map_of d (cert_path root rel) \<noteq> Some (Symlink x)))"

lemma writeStores_Cons:
  assumes "writeStores env root ((rel, data) # xs) c s = ((c', None), s')" and "store_name rel t n"
  obtains s1 w s2 where "os_MkdirAll env s (root @ [t, n]) = (None, s1)"
    and "writeFileIfChanged env s1 (root @ [t, n, trustStoreCertFile]) root data = ((w, None), s2)"
    and "writeStores env root xs (c \<or> w) s2 = ((c', None), s')"
proof -
  obtain e1 s1 where mk: "os_MkdirAll env s (root @ [t, n]) = (e1, s1)" by fastforce
  obtain w e2 s2 where wr: "writeFileIfChanged env s1 (root @ [t, n, trustStoreCertFile]) root data = ((w, e2), s2)"
    by (metis prod_cases3 prod.exhaust)
  have e1: "e1 = None" using assms(1) mk by (cases e1) (simp_all add: store_name_Join [OF assms(2)])
  have e2: "e2 = None" using assms(1) mk wr e1 by (cases e2) (simp_all add: store_name_Join [OF assms(2)])
  have "writeStores env root xs (c \<or> w) s2 = ((c', None), s')"
    using assms(1) mk wr e1 e2 by (simp add: store_name_Join [OF assms(2)])
  with mk wr e1 e2 show ?thesis by (intro that) auto
qed

lemma writeStores_ok:
  assumes "writeStores env root xs c s = ((c', None), s')" and "tree_disk (disk s)"
    and "store_names root (fst ` set xs) (disk s)" and "distinct (map fst xs)"
  shows "(\<forall>(rel, data) \<in> set xs. \<exists>m. map_of (disk s') (cert_path root rel) = Some (File data m))
    \<and> (\<forall>q. q \<notin> cert_path root ` fst ` set xs \<longrightarrow> map_of (disk s') q = map_of (disk s) q
         \<or> map_of (disk s) q = None \<and> map_of (disk s') q = Some Dir
            \<and> (\<exists>rel \<in> fst ` set xs. prefix q (filepath_Join root rel)))
    \<and> tree_disk (disk s') \<and> (\<not> c' \<longrightarrow> \<not> c \<and> s' = s)"
  using assms
proof (induction xs arbitrary: c s)
  case Nil
  then show ?case by simp
next
  case (Cons x xs)
  obtain rel data where x: "x = (rel, data)" by fastforce
  obtain t n where sn: "store_name rel t n" using Cons.prems(3) x by (auto simp: store_names_def)
  from Cons.prems(1) [unfolded x] sn obtain s1 w s2 where mk: "os_MkdirAll env s (root @ [t, n]) = (None, s1)"
    and wr: "writeFileIfChanged env s1 (root @ [t, n, trustStoreCertFile]) root data = ((w, None), s2)"
    and run: "writeStores env root xs (c \<or> w) s2 = ((c', None), s')"
    by (rule writeStores_Cons)
  note cp = cert_path_name [OF sn, of root]
  have "map_of (disk s) (root @ [t, n, trustStoreCertFile]) \<noteq> Some (Symlink y)" for y
    using Cons.prems(3) x cp by (auto simp: store_names_def)
  note S = store_step [OF Cons.prems(2) mk wr this, folded cp]
  have fresh: "rel \<notin> fst ` set xs" using Cons.prems(4) x by force
  have off: "cert_path root k \<noteq> cert_path root rel" if k: "k \<in> fst ` set xs" for k
  proof -
    obtain a b where "store_name k a b" using k Cons.prems(3) by (force simp: store_names_def)
    from cert_path_inj [OF this sn, of root] show ?thesis using k fresh by blast
  qed
  have sn2: "store_names root (fst ` set xs) (disk s2)"
    unfolding store_names_def
  proof (intro ballI conjI allI)
    fix k assume k: "k \<in> fst ` set xs"
    then show "\<exists>t n. store_name k t n" using Cons.prems(3) by (auto simp: store_names_def)
    fix y
    have "map_of (disk s) (cert_path root k) \<noteq> Some (Symlink y)"
      using k Cons.prems(3) by (auto simp: store_names_def)
    with S(2) [OF off [OF k]] show "map_of (disk s2) (cert_path root k) \<noteq> Some (Symlink y)" by auto
  qed
  have dist: "distinct (map fst xs)" using Cons.prems(4) by simp
  note IH = Cons.IH [OF run S(4) sn2 dist]
  note I1 = conjunct1 [OF IH] and I2 = spec [OF conjunct1 [OF conjunct2 [OF IH]]]
  have "cert_path root rel \<notin> cert_path root ` fst ` set xs" using off by (metis imageE)
  then have "\<exists>m. map_of (disk s') (cert_path root rel) = Some (File data m)"
    using I2 [of "cert_path root rel"] S(1) by auto
  moreover have "map_of (disk s') q = map_of (disk s) q \<or> map_of (disk s) q = None \<and> map_of (disk s') q = Some Dir
      \<and> (\<exists>k \<in> fst ` set (x # xs). prefix q (filepath_Join root k))" if "q \<notin> cert_path root ` fst ` set (x # xs)" for q
    using that I2 [of q] S(2) [of q] store_name_Join(1) [OF sn, of root] x by auto
  moreover have "\<not> c' \<longrightarrow> \<not> c \<and> s' = s" using IH S(5) by blast
  ultimately show ?case using I1 IH x by auto
qed

section \<open>Removing the others\<close>

text \<open>The paths below a type directory whose store is not desired.\<close>

definition stale_store :: "path \<Rightarrow> string gomap \<Rightarrow> string \<Rightarrow> string \<Rightarrow> path \<Rightarrow> bool" where
  "stale_store root desired t n q \<longleftrightarrow> map_of desired (t @ ''/'' @ n) = None \<and> prefix (root @ [t, n]) q"

lemma removeStores_ok:
  assumes "removeStores env root desired t es c s = ((c', None), s')"
    and "plain_element t" and "\<forall>n \<in> fst ` set es. plain_element n"
  shows "map_of (disk s') q = (if \<exists>n \<in> fst ` set es. stale_store root desired t n q then None else map_of (disk s) q)
    \<and> (\<not> c' \<longrightarrow> \<not> c \<and> s' = s \<and> (\<forall>n \<in> fst ` set es. map_of desired (t @ ''/'' @ n) \<noteq> None))"
  using assms(1,3)
proof (induction es arbitrary: c s)
  case Nil
  then show ?case by simp
next
  case (Cons x es)
  obtain n b where x: "x = (n, b)" by fastforce
  have J: "rel_Join t n = t @ ''/'' @ n" "filepath_Join root (t @ ''/'' @ n) = root @ [t, n]"
    using Cons.prems(2) assms(2) x rel_Join_plain filepath_Join_plain2 [of t n root] by auto
  show ?case
  proof (cases "map_of desired (t @ ''/'' @ n) = None")
    case False
    then have "removeStores env root desired t es c s = ((c', None), s')" using Cons.prems(1) x J by simp
    with Cons.IH [OF this] Cons.prems(2) False x show ?thesis by (auto simp: stale_store_def)
  next
    case True
    obtain e s1 where rm: "os_RemoveAll env s (root @ [t, n]) = (e, s1)" by fastforce
    have e: "e = None" using Cons.prems(1) True x J rm by (cases e) simp_all
    then have run: "removeStores env root desired t es True s1 = ((c', None), s')"
      using Cons.prems(1) True x J rm by simp
    with Cons.IH [OF run] Cons.prems(2) os_RemoveAll_ok [OF rm [unfolded e], of q] True x show ?thesis
      by (auto simp: stale_store_def)
  qed
qed

lemma removeTypes_Cons:
  assumes "removeTypes env root desired ((t, True) # ts) c s = ((c', None), s')" and "plain_element t"
  obtains es c1 s1 where "os_ReadDir env s (root @ [t]) = Inr es"
    and "removeStores env root desired t es c s = ((c1, None), s1)"
    and "removeTypes env root desired ts c1 s1 = ((c', None), s')"
proof -
  have J: "filepath_Join root t = root @ [t]" using assms(2) by (rule filepath_Join_plain)
  obtain es where rd: "os_ReadDir env s (root @ [t]) = Inr es"
    using assms(1) J by (cases "os_ReadDir env s (root @ [t])") auto
  obtain c1 e s1 where rs: "removeStores env root desired t es c s = ((c1, e), s1)" by (metis prod_cases3 prod.exhaust)
  have e: "e = None" using assms(1) J rd rs by (cases e) simp_all
  have "removeTypes env root desired ts c1 s1 = ((c', None), s')" using assms(1) J rd rs e by simp
  with rd rs e show ?thesis by (intro that) auto
qed

definition plain_disk :: "disk \<Rightarrow> bool" where
  "plain_disk d \<longleftrightarrow> (\<forall>p. map_of d p \<noteq> None \<longrightarrow> (\<forall>x \<in> set p. plain_element x))"

lemma removeTypes_ok:
  assumes "removeTypes env root desired ts c s = ((c', None), s')"
    and "\<forall>t \<in> fst ` set ts. plain_element t" and "plain_disk (disk s)"
  shows "map_of (disk s') q = (if \<exists>t n. (t, True) \<in> set ts \<and> map_of (disk s) (root @ [t, n]) \<noteq> None
        \<and> stale_store root desired t n q then None else map_of (disk s) q)
    \<and> (\<not> c' \<longrightarrow> \<not> c \<and> s' = s
        \<and> (\<forall>t n. (t, True) \<in> set ts \<longrightarrow> map_of (disk s) (root @ [t, n]) \<noteq> None \<longrightarrow> map_of desired (t @ ''/'' @ n) \<noteq> None))"
  using assms
proof (induction ts arbitrary: c s)
  case Nil
  then show ?case by simp
next
  case (Cons x ts)
  obtain t b where x: "x = (t, b)" by fastforce
  show ?case
  proof (cases b)
    case False
    then have "removeTypes env root desired ts c s = ((c', None), s')" using Cons.prems(1) x by simp
    with Cons.IH [OF this] Cons.prems(2,3) False x show ?thesis by simp
  next
    case True
    have pt: "plain_element t" using Cons.prems(2) x by simp
    from Cons.prems(1) [unfolded x] True have "removeTypes env root desired ((t, True) # ts) c s = ((c', None), s')" by simp
    from this pt obtain es c1 s1 where rd: "os_ReadDir env s (root @ [t]) = Inr es"
      and rs: "removeStores env root desired t es c s = ((c1, None), s1)"
      and run: "removeTypes env root desired ts c1 s1 = ((c', None), s')"
      by (rule removeTypes_Cons)
    have mem: "n \<in> fst ` set es \<longleftrightarrow> map_of (disk s) (root @ [t, n]) \<noteq> None" for n
    proof -
      have "n \<in> fst ` set es \<longleftrightarrow> (\<exists>b. (n, b) \<in> set es)" by force
      then show ?thesis by (simp add: os_ReadDir_entries [OF rd])
    qed
    have "plain_element n" if "map_of (disk s) (root @ [t, n]) \<noteq> None" for n
      using Cons.prems(3) that unfolding plain_disk_def by force
    then have "\<forall>n \<in> fst ` set es. plain_element n" using mem by blast
    note R = removeStores_ok [OF rs pt this, unfolded Bex_def Ball_def mem]
    have s1: "map_of (disk s1) p = (if \<exists>n. map_of (disk s) (root @ [t, n]) \<noteq> None \<and> stale_store root desired t n p
        then None else map_of (disk s) p)" for p
      using R [of p] by simp
    have "plain_disk (disk s1)" using Cons.prems(3) unfolding plain_disk_def by (auto simp: s1 split: if_splits)
    note IH = Cons.IH [OF run _ this]
    let ?A = "\<lambda>p. \<exists>n. map_of (disk s) (root @ [t, n]) \<noteq> None \<and> stale_store root desired t n p"
    have again: "?A q" if "map_of (disk s) (root @ [u, n]) \<noteq> None" "map_of (disk s1) (root @ [u, n]) = None"
      "stale_store root desired u n q" for u n
    proof -
      have "?A (root @ [u, n])" using that(1,2) s1 by metis
      then have "u = t" by (auto simp: stale_store_def)
      with that show ?thesis by blast
    qed
    have fewer: "map_of (disk s) p \<noteq> None" if "map_of (disk s1) p \<noteq> None" for p using that s1 by metis
    have I: "map_of (disk s') q = (if \<exists>t n. (t, True) \<in> set ts \<and> map_of (disk s1) (root @ [t, n]) \<noteq> None
        \<and> stale_store root desired t n q then None else map_of (disk s1) q)"
      using IH Cons.prems(2) by simp
    have "map_of (disk s') q = (if ?A q \<or> (\<exists>t n. (t, True) \<in> set ts \<and> map_of (disk s) (root @ [t, n]) \<noteq> None
        \<and> stale_store root desired t n q) then None else map_of (disk s) q)"
    proof (cases "?A q")
      case True
      then show ?thesis using I s1 [of q] by simp
    next
      case False
      then have s1q: "map_of (disk s1) q = map_of (disk s) q" by (simp only: s1 if_False)
      have key: "(\<exists>t n. (t, True) \<in> set ts \<and> map_of (disk s1) (root @ [t, n]) \<noteq> None \<and> stale_store root desired t n q)
          \<longleftrightarrow> (\<exists>t n. (t, True) \<in> set ts \<and> map_of (disk s) (root @ [t, n]) \<noteq> None \<and> stale_store root desired t n q)"
        using again fewer False by blast
      show ?thesis by (simp only: I key s1q False simp_thms)
    qed
    moreover have "\<not> c' \<longrightarrow> \<not> c \<and> s' = s \<and> (\<forall>n. map_of (disk s) (root @ [t, n]) \<noteq> None \<longrightarrow> map_of desired (t @ ''/'' @ n) \<noteq> None)
        \<and> (\<forall>u n. (u, True) \<in> set ts \<longrightarrow> map_of (disk s) (root @ [u, n]) \<noteq> None \<longrightarrow> map_of desired (u @ ''/'' @ n) \<noteq> None)"
    proof
      assume c': "\<not> c'"
      have pts: "\<forall>t \<in> fst ` set ts. plain_element t" using Cons.prems(2) by simp
      note I2 = mp [OF conjunct2 [OF IH [OF pts]] c']
      then have R2: "\<not> c \<and> s1 = s \<and> (\<forall>n. map_of (disk s) (root @ [t, n]) \<noteq> None \<longrightarrow> map_of desired (t @ ''/'' @ n) \<noteq> None)"
        using conjunct2 [OF R] by blast
      with I2 show "\<not> c \<and> s' = s \<and> (\<forall>n. map_of (disk s) (root @ [t, n]) \<noteq> None \<longrightarrow> map_of desired (t @ ''/'' @ n) \<noteq> None)
        \<and> (\<forall>u n. (u, True) \<in> set ts \<longrightarrow> map_of (disk s) (root @ [u, n]) \<noteq> None \<longrightarrow> map_of desired (u @ ''/'' @ n) \<noteq> None)"
        by simp
    qed
    moreover have "(\<exists>u n. (u, True) \<in> set (x # ts) \<and> map_of (disk s) (root @ [u, n]) \<noteq> None \<and> stale_store root desired u n q)
        \<longleftrightarrow> ?A q \<or> (\<exists>u n. (u, True) \<in> set ts \<and> map_of (disk s) (root @ [u, n]) \<noteq> None \<and> stale_store root desired u n q)"
      using x True by (simp only: set_simps insert_iff prod.inject simp_thms) blast
    ultimately show ?thesis using x True by (simp only: set_simps insert_iff prod.inject simp_thms) blast
  qed
qed

section \<open>The sync as a whole\<close>

text \<open>
  Where the sync runs: the desired keys are a type and a name, certificate files are not
  symbolic links, and the disk is a tree of single path elements.
\<close>

definition stores_ready :: "path \<Rightarrow> string gomap \<Rightarrow> disk \<Rightarrow> bool" where
  "stores_ready root desired d \<longleftrightarrow> wf_map desired \<and> store_names root (dom (map_of desired)) d
     \<and> tree_disk d \<and> plain_disk d \<and> (\<forall>x \<in> set root. plain_element x)"

text \<open>The tree holds the desired certificate files, and nothing at or below any other store.\<close>

definition stores_match :: "path \<Rightarrow> string gomap \<Rightarrow> disk \<Rightarrow> bool" where
  "stores_match root desired d \<longleftrightarrow> dirs_above root d
     \<and> (\<forall>rel c. map_of desired rel = Some c \<longrightarrow> (\<exists>m. map_of d (cert_path root rel) = Some (File c m)))
     \<and> (\<forall>t n q. map_of d (root @ [t]) = Some Dir \<longrightarrow> stale_store root desired t n q \<longrightarrow> map_of d q = None)"

lemma tree_disk_MkdirAll:
  assumes "tree_disk (disk s)" and mk: "os_MkdirAll env s dir = (None, s1)"
  shows "tree_disk (disk s1)"
  unfolding tree_disk_def
proof (intro allI impI)
  fix p assume p: "map_of (disk s1) p \<noteq> None"
  show "dirs_above (butlast p) (disk s1)"
  proof (cases "map_of (disk s) p = None")
    case True
    with p os_MkdirAll_ok(1) [OF mk, of p] have "prefix p dir" by auto
    then have "prefix (butlast p) dir" by (metis prefix_order.trans prefixeq_butlast)
    with os_MkdirAll_ok(2) [OF mk refl] show ?thesis by (rule dirs_above_prefix)
  next
    case False
    with assms(1) have "dirs_above (butlast p) (disk s)" by (simp add: tree_disk_def)
    then show ?thesis
    proof (rule dirs_above_keep)
      fix q assume "map_of (disk s) q = Some Dir"
      then show "map_of (disk s1) q = Some Dir" using os_MkdirAll_ok(1) [OF mk, of q] by simp
    qed
  qed
qed

lemma plain_prefix: "prefix q p \<Longrightarrow> \<forall>x \<in> set p. plain_element x \<Longrightarrow> \<forall>x \<in> set q. plain_element x"
  by (auto dest: set_mono_prefix)

lemma stores_after_writes:
  assumes ready: "stores_ready root desired (disk s)" and ord: "range_order ord"
    and mk: "os_MkdirAll env s root = (None, s1)"
    and wr: "writeStores env root (range_map ord AtDesired desired) False s1 = ((c, None), s2)"
  shows "\<And>rel x. map_of desired rel = Some x \<Longrightarrow> \<exists>m. map_of (disk s2) (cert_path root rel) = Some (File x m)"
    and "\<And>q. q \<notin> cert_path root ` dom (map_of desired) \<Longrightarrow> map_of (disk s2) q = map_of (disk s1) q
       \<or> map_of (disk s1) q = None \<and> map_of (disk s2) q = Some Dir
         \<and> (\<exists>rel \<in> dom (map_of desired). prefix q (filepath_Join root rel))"
    and "tree_disk (disk s2)" and "plain_disk (disk s2)" and "\<not> c \<Longrightarrow> s2 = s1"
proof -
  have keys: "fst ` set (range_map ord AtDesired desired) = dom (map_of desired)"
    and vals: "set (range_map ord AtDesired desired) = set desired"
    and dist: "distinct (map fst (range_map ord AtDesired desired))"
    using ready ord by (simp_all add: stores_ready_def set_range_map distinct_range_map dom_map_of_conv_image_fst)
  have names: "\<exists>t n. store_name rel t n" if "rel \<in> dom (map_of desired)" for rel
    using ready that by (auto simp: stores_ready_def store_names_def)
  have cert: "map_of (disk s1) (cert_path root rel) = map_of (disk s) (cert_path root rel)" if r: "rel \<in> dom (map_of desired)" for rel
  proof -
    obtain t n where "store_name rel t n" using names [OF r] by blast
    then show ?thesis using os_MkdirAll_ok(1) [OF mk, of "cert_path root rel"] by (auto simp: cert_path_name)
  qed
  have sn: "store_names root (fst ` set (range_map ord AtDesired desired)) (disk s1)"
    using ready cert unfolding keys by (simp add: stores_ready_def store_names_def)
  have tree: "tree_disk (disk s1)" using ready mk tree_disk_MkdirAll by (auto simp: stores_ready_def)
  note W = writeStores_ok [OF wr tree sn dist]
  show one: "\<exists>m. map_of (disk s2) (cert_path root rel) = Some (File x m)" if "map_of desired rel = Some x" for rel x
    using bspec [OF conjunct1 [OF W]] vals map_of_SomeD [OF that] by fastforce
  show two: "map_of (disk s2) q = map_of (disk s1) q \<or> map_of (disk s1) q = None \<and> map_of (disk s2) q = Some Dir
         \<and> (\<exists>rel \<in> dom (map_of desired). prefix q (filepath_Join root rel))"
    if "q \<notin> cert_path root ` dom (map_of desired)" for q
    using spec [OF conjunct1 [OF conjunct2 [OF W]], of q] that unfolding keys by simp
  show "tree_disk (disk s2)" and "\<not> c \<Longrightarrow> s2 = s1" using W by auto
  have plain_rel: "\<forall>x \<in> set (filepath_Join root rel). plain_element x" and plain_cert: "\<forall>x \<in> set (cert_path root rel). plain_element x"
    if r: "rel \<in> dom (map_of desired)" for rel
  proof -
    obtain t n where st: "store_name rel t n" using names [OF r] by blast
    then have "plain_element t" "plain_element n" by (simp_all add: store_name_def)
    then show "\<forall>x \<in> set (filepath_Join root rel). plain_element x"
      using ready unfolding store_name_Join(1) [OF st] by (simp add: stores_ready_def)
    then show "\<forall>x \<in> set (cert_path root rel). plain_element x"
      by (auto simp: cert_path_def plain_element_def trustStoreCertFile_def)
  qed
  show "plain_disk (disk s2)"
    unfolding plain_disk_def
  proof (intro allI impI)
    fix p assume p: "map_of (disk s2) p \<noteq> None"
    consider "p \<in> cert_path root ` dom (map_of desired)" | "\<exists>rel \<in> dom (map_of desired). prefix p (filepath_Join root rel)"
      | "map_of (disk s) p \<noteq> None" | "prefix p root"
      using p two [of p] os_MkdirAll_ok(1) [OF mk, of p]
      by (cases "p \<in> cert_path root ` dom (map_of desired)"; cases "map_of (disk s) p") auto
    then show "\<forall>x \<in> set p. plain_element x"
    proof cases
      case 1
      then show ?thesis using plain_cert by blast
    next
      case 2
      then show ?thesis using plain_rel plain_prefix by blast
    next
      case 3
      then show ?thesis using ready by (simp add: stores_ready_def plain_disk_def)
    next
      case 4
      then show ?thesis using ready plain_prefix by (auto simp: stores_ready_def)
    qed
  qed
qed

lemma syncTrustStores_stages:
  assumes "syncTrustStores env ord root desired s = ((c, None), s')"
  obtains s1 c2 s2 es where "os_MkdirAll env s root = (None, s1)"
    and "writeStores env root (range_map ord AtDesired desired) False s1 = ((c2, None), s2)"
    and "os_ReadDir env s2 root = Inr es" and "removeTypes env root desired es c2 s2 = ((c, None), s')"
  using assms unfolding syncTrustStores_def
  by (auto split: prod.splits option.splits sum.splits)

lemma stale_below: "stale_store root desired t n q \<Longrightarrow> \<exists>rest. q = root @ t # n # rest"
  by (auto simp: stale_store_def prefix_def)

lemma tree_disk_below:
  assumes "tree_disk d" and "map_of d (p @ rest) \<noteq> None" and "p \<noteq> []"
  shows "map_of d p \<noteq> None"
proof (cases rest rule: rev_cases)
  case Nil
  with assms(2) show ?thesis by simp
next
  case (snoc xs x)
  have "butlast (p @ xs @ [x]) = p @ xs" by (simp add: butlast_append)
  with assms(1,2) snoc have "dirs_above (p @ xs) d" unfolding tree_disk_def by metis
  then have "dirs_above p d" by (rule dirs_above_prefix) simp
  then have "is_dir d p" by (rule dirs_above_is_dir)
  with assms(3) show ?thesis by (simp add: is_dir_def)
qed

lemma syncTrustStores_ok:
  assumes run: "syncTrustStores env ord root desired s = ((c, None), s')"
    and ready: "stores_ready root desired (disk s)" and ord: "range_order ord"
  shows "stores_match root desired (disk s')"
    and "\<not> prefix root q \<or> q = root \<Longrightarrow> map_of (disk s') q = map_of (disk s) q
       \<or> map_of (disk s) q = None \<and> map_of (disk s') q = Some Dir \<and> prefix q root"
    and "map_of desired (t @ ''/'' @ n) \<noteq> None \<Longrightarrow> x # rest \<noteq> [trustStoreCertFile] \<Longrightarrow>
       map_of (disk s') (root @ t # n # x # rest) = map_of (disk s) (root @ t # n # x # rest)"
    and "\<not> c \<Longrightarrow> length root < length q \<Longrightarrow> map_of (disk s') q = map_of (disk s) q"
    and "\<not> c \<Longrightarrow> dirs_above root (disk s) \<Longrightarrow> s' = s"
proof -
  from run obtain s1 c2 s2 es where mk: "os_MkdirAll env s root = (None, s1)"
    and wr: "writeStores env root (range_map ord AtDesired desired) False s1 = ((c2, None), s2)"
    and rd: "os_ReadDir env s2 root = Inr es" and rm: "removeTypes env root desired es c2 s2 = ((c, None), s')"
    by (rule syncTrustStores_stages)
  note A = stores_after_writes [OF ready ord mk wr]
  note M = os_MkdirAll_ok [OF mk]
  have pl: "\<forall>t \<in> fst ` set es. plain_element t"
    using A(4) by (force simp: os_ReadDir_entries [OF rd] plain_disk_def)
  have mem: "(t, True) \<in> set es \<longleftrightarrow> map_of (disk s2) (root @ [t]) = Some Dir" for t
    using os_ReadDir_entries [OF rd, of t True] by auto
  have R: "map_of (disk s') q = (if \<exists>t n. map_of (disk s2) (root @ [t]) = Some Dir
      \<and> map_of (disk s2) (root @ [t, n]) \<noteq> None \<and> stale_store root desired t n q then None else map_of (disk s2) q)" for q
    using conjunct1 [OF removeTypes_ok [OF rm pl A(4), of q]] unfolding mem .
  have same: "\<not> c \<Longrightarrow> s' = s2 \<and> \<not> c2" using removeTypes_ok [OF rm pl A(4), of "[]"] by blast
  have names: "\<exists>t n. store_name rel t n" if "rel \<in> dom (map_of desired)" for rel
    using ready that by (auto simp: stores_ready_def store_names_def)
  have keep: "map_of (disk s') q = map_of (disk s2) q" if "\<And>t n. \<not> stale_store root desired t n q" for q
    using R [of q] that by simp
  have cert: "\<exists>t n. cert_path root rel = root @ [t, n, trustStoreCertFile] \<and> rel = t @ ''/'' @ n
      \<and> filepath_Join root rel = root @ [t, n]" if "rel \<in> dom (map_of desired)" for rel
    using names [OF that] cert_path_name store_name_Join(1) store_name_def by metis
  have writes: "map_of (disk s2) q = map_of (disk s1) q \<or> map_of (disk s1) q = None \<and> map_of (disk s2) q = Some Dir
      \<and> (\<exists>t n. prefix q (root @ [t, n]))" if "\<And>t n. q = root @ [t, n, trustStoreCertFile] \<Longrightarrow> map_of desired (t @ ''/'' @ n) = None" for q
  proof -
    have "q \<notin> cert_path root ` dom (map_of desired)" using cert that by (metis domIff imageE)
    with A(2) [of q] cert show ?thesis by metis
  qed
  show "stores_match root desired (disk s')"
    unfolding stores_match_def
  proof (intro conjI allI impI)
    show "dirs_above root (disk s')"
      using M(2) [OF refl]
    proof (rule dirs_above_keep)
      fix q assume "length q \<le> length root" and q: "map_of (disk s1) q = Some Dir"
      then have "map_of (disk s') q = map_of (disk s2) q" by (intro keep) (auto dest: stale_below)
      moreover have "q \<noteq> root @ [t, n, trustStoreCertFile]" for t n using \<open>length q \<le> length root\<close> by auto
      ultimately show "map_of (disk s') q = Some Dir" using writes [of q] q by auto
    qed
    show "\<exists>m. map_of (disk s') (cert_path root rel) = Some (File x m)" if d: "map_of desired rel = Some x" for rel x
    proof -
      have "\<not> stale_store root desired t n (cert_path root rel)" for t n
      proof -
        obtain t' n' where "cert_path root rel = root @ [t', n', trustStoreCertFile]" and "rel = t' @ ''/'' @ n'"
          using cert [of rel] d by auto
        with d show ?thesis by (auto simp: stale_store_def)
      qed
      with keep A(1) [OF d] show ?thesis by simp
    qed
    show "map_of (disk s') q = None" if d: "map_of (disk s') (root @ [t]) = Some Dir" and st: "stale_store root desired t n q" for t n q
    proof -
      have d2: "map_of (disk s2) (root @ [t]) = Some Dir" using d R [of "root @ [t]"] by (auto split: if_splits)
      show ?thesis
      proof (cases "map_of (disk s2) (root @ [t, n]) = None")
        case True
        obtain rest where "q = (root @ [t, n]) @ rest" using stale_below [OF st] by auto
        with tree_disk_below [OF A(3), of "root @ [t, n]" rest] True have "map_of (disk s2) q = None"
          by (cases "map_of (disk s2) q") auto
        with R [of q] show ?thesis by simp
      next
        case False
        with d2 st have "\<exists>t n. map_of (disk s2) (root @ [t]) = Some Dir \<and> map_of (disk s2) (root @ [t, n]) \<noteq> None
            \<and> stale_store root desired t n q" by blast
        then show ?thesis by (simp only: R if_True)
      qed
    qed
  qed
  show "map_of (disk s') q = map_of (disk s) q
       \<or> map_of (disk s) q = None \<and> map_of (disk s') q = Some Dir \<and> prefix q root" if "\<not> prefix root q \<or> q = root"
  proof -
    have "map_of (disk s') q = map_of (disk s2) q" using that by (intro keep) (auto dest: stale_below)
    moreover have "prefix q root" if "prefix q (root @ [t, n])" for t n
      using that \<open>\<not> prefix root q \<or> q = root\<close> by (metis prefix_def prefix_same_cases)
    moreover have "q \<noteq> root @ [t, n, trustStoreCertFile]" for t n using that by auto
    ultimately show ?thesis using writes [of q] M(1) [of q] by auto
  qed
  show "map_of (disk s') (root @ t # n # x # rest) = map_of (disk s) (root @ t # n # x # rest)"
    if "map_of desired (t @ ''/'' @ n) \<noteq> None" "x # rest \<noteq> [trustStoreCertFile]"
  proof -
    let ?q = "root @ t # n # x # rest"
    have "map_of (disk s') ?q = map_of (disk s2) ?q" using that by (intro keep) (auto simp: stale_store_def)
    moreover have "map_of (disk s2) ?q = map_of (disk s1) ?q"
      using writes [of ?q] that by (auto dest: prefix_length_le)
    ultimately show ?thesis using M(1) [of ?q] by simp
  qed
  show "map_of (disk s') q = map_of (disk s) q" if "\<not> c" "length root < length q"
    using same A(5) M(1) [of q] that by auto
  show "s' = s" if "\<not> c" "dirs_above root (disk s)"
    using same A(5) M(3) that by auto
qed

section \<open>Stability and failures\<close>

lemma writeStores_still:
  assumes "no_faults env" and "tree_disk (disk s)"
    and "\<forall>(rel, x) \<in> set xs. (\<exists>t n. store_name rel t n) \<and> (\<exists>m. map_of (disk s) (cert_path root rel) = Some (File x m))"
  shows "writeStores env root xs c s = ((c, None), s)"
  using assms(3)
proof (induction xs)
  case (Cons p xs)
  obtain rel x where p: "p = (rel, x)" by fastforce
  with Cons.prems obtain t n m where sn: "store_name rel t n"
    and f: "map_of (disk s) (root @ [t, n, trustStoreCertFile]) = Some (File x m)"
    using cert_path_name by fastforce
  have "dirs_above (butlast (root @ [t, n, trustStoreCertFile])) (disk s)"
    using assms(2) f by (simp add: tree_disk_def)
  then have "dirs_above (root @ [t, n]) (disk s)" by (simp add: butlast_append)
  then have "os_MkdirAll env s (root @ [t, n]) = (None, s)"
    using os_MkdirAll_ok(3) by (metis prod.exhaust)
  moreover have "writeFileIfChanged env s (root @ [t, n, trustStoreCertFile]) root x = ((False, None), s)"
    using assms(1) f by (simp add: writeFileIfChanged_def os_ReadFile_def no_faults_def read_node_File)
  ultimately show ?case using Cons p by (simp add: store_name_Join [OF sn])
qed simp

lemma removeStores_still:
  "plain_element t \<Longrightarrow> \<forall>n \<in> fst ` set es. plain_element n \<and> map_of desired (t @ ''/'' @ n) \<noteq> None \<Longrightarrow>
     removeStores env root desired t es c s = ((c, None), s)"
  by (induction es) (auto simp: rel_Join_plain)

lemma removeTypes_still:
  assumes "no_faults env" and "plain_disk (disk s)"
    and "\<And>t n. map_of (disk s) (root @ [t]) = Some Dir \<Longrightarrow> map_of (disk s) (root @ [t, n]) \<noteq> None \<Longrightarrow> map_of desired (t @ ''/'' @ n) \<noteq> None"
  shows "\<forall>t b. (t, b) \<in> set ts \<longrightarrow> plain_element t \<and> (b \<longrightarrow> map_of (disk s) (root @ [t]) = Some Dir) \<Longrightarrow>
     removeTypes env root desired ts c s = ((c, None), s)"
proof (induction ts)
  case (Cons p ts)
  obtain t b where p: "p = (t, b)" by fastforce
  show ?case
  proof (cases b)
    case True
    with Cons.prems p have pt: "plain_element t" and d: "map_of (disk s) (root @ [t]) = Some Dir" by auto
    obtain es where rd: "os_ReadDir env s (root @ [t]) = Inr es"
      using assms(1) d by (simp add: os_ReadDir_def no_faults_def is_dir_def)
    have "plain_element n \<and> map_of desired (t @ ''/'' @ n) \<noteq> None" if "map_of (disk s) (root @ [t, n]) \<noteq> None" for n
      using assms(2) assms(3) [OF d that] that unfolding plain_disk_def by force
    then have "\<forall>n \<in> fst ` set es. plain_element n \<and> map_of desired (t @ ''/'' @ n) \<noteq> None"
      using os_ReadDir_entries [OF rd] by auto
    from removeStores_still [OF pt this] Cons p True rd show ?thesis
      by (simp add: filepath_Join_plain [OF pt])
  next
    case False
    with Cons p show ?thesis by simp
  qed
qed simp

lemma syncTrustStores_still:
  assumes match: "stores_match root desired (disk s)" and env: "no_faults env" and ord: "range_order ord"
    and ready: "stores_ready root desired (disk s)"
  shows "syncTrustStores env ord root desired s = ((False, None), s)"
proof -
  have da: "dirs_above root (disk s)" using match by (simp add: stores_match_def)
  have mk: "os_MkdirAll env s root = (None, s)" using os_MkdirAll_ok(3) da by (metis prod.exhaust)
  have wf: "wf_map desired" and pd: "plain_disk (disk s)" using ready by (simp_all add: stores_ready_def)
  have "(\<exists>t n. store_name rel t n) \<and> (\<exists>m. map_of (disk s) (cert_path root rel) = Some (File x m))"
    if "(rel, x) \<in> set (range_map ord AtDesired desired)" for rel x
  proof -
    have "map_of desired rel = Some x" using that wf by (simp add: set_range_map [OF ord wf] wf_map_def)
    moreover from this have "rel \<in> dom (map_of desired)" by auto
    ultimately show ?thesis using match ready by (auto simp only: stores_match_def stores_ready_def store_names_def)
  qed
  then have wr: "writeStores env root (range_map ord AtDesired desired) False s = ((False, None), s)"
    using ready by (intro writeStores_still [OF env]) (auto simp: stores_ready_def)
  obtain es where rd: "os_ReadDir env s root = Inr es"
    using env dirs_above_is_dir [OF da] by (simp add: os_ReadDir_def no_faults_def)
  have "removeTypes env root desired es False s = ((False, None), s)"
  proof (rule removeTypes_still [OF env pd])
    fix t n assume "map_of (disk s) (root @ [t]) = Some Dir" and "map_of (disk s) (root @ [t, n]) \<noteq> None"
    moreover have "map_of desired (t @ ''/'' @ n) = None \<longrightarrow> stale_store root desired t n (root @ [t, n])"
      by (simp add: stale_store_def)
    ultimately show "map_of desired (t @ ''/'' @ n) \<noteq> None" using match unfolding stores_match_def by metis
  next
    show "\<forall>t b. (t, b) \<in> set es \<longrightarrow> plain_element t \<and> (b \<longrightarrow> map_of (disk s) (root @ [t]) = Some Dir)"
      using pd by (force simp: os_ReadDir_entries [OF rd] plain_disk_def)
  qed
  then show ?thesis by (simp add: syncTrustStores_def mk wr rd)
qed

text \<open>The paths the sync may ever touch: the root, its parents, and what is below it.\<close>

definition store_paths :: "path \<Rightarrow> path set" where
  "store_paths root = {q. prefix q root \<or> prefix root q}"

lemma writeStores_within:
  "\<forall>rel \<in> fst ` set xs. \<exists>t n. store_name rel t n \<Longrightarrow> writeStores env root xs c s = (r, s') \<Longrightarrow> within (store_paths root) s s'"
proof (induction xs arbitrary: c s)
  case (Cons p xs)
  obtain rel x where p: "p = (rel, x)" by fastforce
  obtain t n where sn: "store_name rel t n" using Cons.prems(1) p by auto
  obtain e1 s1 where mk: "os_MkdirAll env s (root @ [t, n]) = (e1, s1)" by fastforce
  obtain w e2 s2 where wr: "writeFileIfChanged env s1 (root @ [t, n, trustStoreCertFile]) root x = ((w, e2), s2)"
    by (metis prod_cases3 prod.exhaust)
  have "{q. prefix q (root @ [t, n])} \<subseteq> store_paths root"
    unfolding store_paths_def using prefix_same_cases [of _ "root @ [t, n]" root] by auto
  from this mk have s1: "within (store_paths root) s s1" by (rule os_MkdirAll_within)
  have s2: "within (store_paths root) s1 s2"
    using wr cert_not_temp by (rule writeFileIfChanged_within) (auto simp: store_paths_def temp_path_def)
  have "s' = s1 \<or> s' = s2 \<or> writeStores env root xs (c \<or> w) s2 = (r, s')"
    using Cons.prems(2) p mk wr by (cases e1; cases e2) (auto simp: store_name_Join [OF sn])
  with s1 within_trans [OF s1 s2] Cons.IH Cons.prems(1) show ?case by (auto intro: within_trans)
qed simp

lemma removeStores_within:
  "plain_element t \<Longrightarrow> \<forall>n \<in> fst ` set es. plain_element n \<Longrightarrow> removeStores env root desired t es c s = (r, s') \<Longrightarrow>
     within (store_paths root) s s'"
proof (induction es arbitrary: c s)
  case (Cons p es)
  obtain n b where p: "p = (n, b)" by fastforce
  have J: "rel_Join t n = t @ ''/'' @ n" "filepath_Join root (t @ ''/'' @ n) = root @ [t, n]"
    using Cons.prems p rel_Join_plain filepath_Join_plain2 [of t n root] by auto
  obtain e s1 where rm: "os_RemoveAll env s (root @ [t, n]) = (e, s1)" by fastforce
  have "{q. prefix (root @ [t, n]) q} \<subseteq> store_paths root" by (auto simp: store_paths_def prefix_def)
  from this rm have s1: "within (store_paths root) s s1" by (rule os_RemoveAll_within)
  have "s' = s1 \<or> removeStores env root desired t es True s1 = (r, s') \<or> removeStores env root desired t es c s = (r, s')"
    using Cons.prems(3) p J rm by (cases e) (auto simp: Let_def split: if_splits)
  with s1 Cons.IH Cons.prems(1,2) show ?case by (auto intro: within_trans)
qed simp

lemma remove_each_less: "remove_each env ps s = (e, s') \<Longrightarrow> map_of (disk s') q \<noteq> None \<Longrightarrow> map_of (disk s) q \<noteq> None"
proof (induction ps arbitrary: s e)
  case (Cons p ps)
  obtain e1 s1 where rm: "os_Remove env s p = (e1, s1)" by fastforce
  obtain es s2 where re: "remove_each env ps s1 = (es, s2)" by fastforce
  have "remove_each env ps s1 = (es, s')"
    using Cons.prems(1) rm re by (simp split: option.splits)
  then have "map_of (disk s1) q \<noteq> None" using Cons.IH Cons.prems(2) by blast
  with rm show ?case by (auto simp: os_Remove_def delete_conv' split: option.splits if_splits)
qed simp

lemma removeStores_less:
  "removeStores env root desired t es c s = (r, s') \<Longrightarrow> map_of (disk s') q \<noteq> None \<Longrightarrow> map_of (disk s) q \<noteq> None"
proof (induction es arbitrary: c s)
  case (Cons p es)
  obtain n b where p: "p = (n, b)" by fastforce
  obtain e s1 where rm: "os_RemoveAll env s (filepath_Join root (rel_Join t n)) = (e, s1)" by fastforce
  have "s' = s1 \<or> removeStores env root desired t es True s1 = (r, s') \<or> removeStores env root desired t es c s = (r, s')"
    using Cons.prems(1) p rm by (cases e) (auto simp: Let_def split: if_splits)
  then have "map_of (disk s1) q \<noteq> None \<or> map_of (disk s) q \<noteq> None" using Cons by blast
  with remove_each_less rm show ?case unfolding os_RemoveAll_def by blast
qed simp

lemma removeTypes_within:
  "\<forall>t \<in> fst ` set ts. plain_element t \<Longrightarrow> plain_disk (disk s) \<Longrightarrow> removeTypes env root desired ts c s = (r, s') \<Longrightarrow>
     within (store_paths root) s s'"
proof (induction ts arbitrary: c s)
  case (Cons p ts)
  obtain t b where p: "p = (t, b)" by fastforce
  have pt: "plain_element t" using Cons.prems(1) p by simp
  show ?case
  proof (cases "\<exists>es. b \<and> os_ReadDir env s (root @ [t]) = Inr es")
    case False
    with Cons.prems(3) p filepath_Join_plain [OF pt, of root] have "s' = s \<or> removeTypes env root desired ts c s = (r, s')"
      by (cases b; cases "os_ReadDir env s (root @ [t])") auto
    with Cons.IH Cons.prems(1,2) show ?thesis by auto
  next
    case True
    then obtain es where b: b and rd: "os_ReadDir env s (root @ [t]) = Inr es" by blast
    obtain c1 e1 s1 where rs: "removeStores env root desired t es c s = ((c1, e1), s1)" by (metis prod_cases3 prod.exhaust)
    have "\<forall>n \<in> fst ` set es. plain_element n"
      using Cons.prems(2) by (force simp: os_ReadDir_entries [OF rd] plain_disk_def)
    from pt this rs have s1: "within (store_paths root) s s1" by (rule removeStores_within)
    have "plain_disk (disk s1)"
      using Cons.prems(2) removeStores_less [OF rs] unfolding plain_disk_def by blast
    moreover have "s' = s1 \<or> removeTypes env root desired ts c1 s1 = (r, s')"
      using Cons.prems(3) p b rd rs by (cases e1) (auto simp: filepath_Join_plain [OF pt])
    ultimately show ?thesis using Cons.IH Cons.prems(1) s1 by (auto intro: within_trans)
  qed
qed simp

lemma syncTrustStores_within:
  assumes ready: "stores_ready root desired (disk s)" and ord: "range_order ord"
    and run: "syncTrustStores env ord root desired s = (r, s')"
  shows "within (store_paths root) s s'"
proof -
  obtain e1 s1 where mk: "os_MkdirAll env s root = (e1, s1)" by fastforce
  obtain c2 e2 s2 where wr: "writeStores env root (range_map ord AtDesired desired) False s1 = ((c2, e2), s2)"
    by (metis prod_cases3 prod.exhaust)
  have w1: "within (store_paths root) s s1"
    using mk by (rule os_MkdirAll_within [rotated]) (auto simp: store_paths_def)
  have "\<forall>rel \<in> fst ` set (range_map ord AtDesired desired). \<exists>t n. store_name rel t n"
    using ready ord by (simp add: set_range_map stores_ready_def store_names_def dom_map_of_conv_image_fst)
  from within_trans [OF w1 writeStores_within [OF this wr]] have w2: "within (store_paths root) s s2" .
  consider "e1 \<noteq> None" | "e1 = None" "e2 \<noteq> None" | x where "e1 = None" "e2 = None" "os_ReadDir env s2 root = Inl x"
    | es where "e1 = None" "e2 = None" "os_ReadDir env s2 root = Inr es"
    by (cases "os_ReadDir env s2 root") auto
  then show ?thesis
  proof cases
    case 4
    note pd = stores_after_writes(4) [OF ready ord mk [unfolded 4] wr [unfolded 4]]
    have "\<forall>t \<in> fst ` set es. plain_element t"
      using pd by (force simp: os_ReadDir_entries [OF 4(3)] plain_disk_def)
    moreover have "removeTypes env root desired es c2 s2 = (r, s')"
      using run mk wr 4 by (simp add: syncTrustStores_def)
    ultimately show ?thesis by (intro within_trans [OF w2 removeTypes_within [OF _ pd]])
  qed (use run mk wr w1 w2 in \<open>auto simp: syncTrustStores_def\<close>)
qed

section \<open>Properties\<close>

text \<open>
  C14. When \<^verbatim>\<open>syncTrustStores\<close> returns no error, every desired store has its certificate file with the
  desired content, every other store below a type directory is gone with everything below it,
  nothing outside the root changed (apart from the root and its parents, which now exist), and a
  further sync of the same stores reports no change and leaves the disk alone. But the tree does
  not "exactly match": any other file in the directory of a desired store survives.
\<close>

theorem syncTrustStores_exact:
  assumes "syncTrustStores env ord root desired s = ((changed, None), s')"
    and "stores_ready root desired (disk s)" and "range_order ord"
  shows "stores_match root desired (disk s')
    \<and> (\<forall>q. \<not> prefix root q \<longrightarrow> map_of (disk s') q = map_of (disk s) q
         \<or> map_of (disk s) q = None \<and> map_of (disk s') q = Some Dir \<and> prefix q root)
    \<and> (\<not> changed \<longrightarrow> (\<forall>q. length root < length q \<longrightarrow> map_of (disk s') q = map_of (disk s) q))
    \<and> (\<forall>t n x rest. map_of desired (t @ ''/'' @ n) \<noteq> None \<longrightarrow> x # rest \<noteq> [trustStoreCertFile] \<longrightarrow>
         map_of (disk s') (root @ t # n # x # rest) = map_of (disk s) (root @ t # n # x # rest))
    \<and> (\<forall>env' ord'. no_faults env' \<longrightarrow> range_order ord' \<longrightarrow> stores_ready root desired (disk s') \<longrightarrow>
         syncTrustStores env' ord' root desired s' = ((False, None), s'))"
proof (intro conjI allI impI)
  show match: "stores_match root desired (disk s')" using syncTrustStores_ok(1) [OF assms] .
  show "map_of (disk s') q = map_of (disk s) q \<or> map_of (disk s) q = None \<and> map_of (disk s') q = Some Dir \<and> prefix q root"
    if "\<not> prefix root q" for q
    using syncTrustStores_ok(2) [OF assms] that by blast
  show "map_of (disk s') q = map_of (disk s) q" if "\<not> changed" "length root < length q" for q
    using syncTrustStores_ok(4) [OF assms that] .
  show "map_of (disk s') (root @ t # n # x # rest) = map_of (disk s) (root @ t # n # x # rest)"
    if "map_of desired (t @ ''/'' @ n) \<noteq> None" "x # rest \<noteq> [trustStoreCertFile]" for t n x rest
    using syncTrustStores_ok(3) [OF assms that] .
  show "syncTrustStores env' ord' root desired s' = ((False, None), s')"
    if "no_faults env'" "range_order ord'" "stores_ready root desired (disk s')" for env' ord'
    using match that by (rule syncTrustStores_still)
qed

definition demo_stores :: os where
  "demo_stores = \<lparr> disk = [([''r''], Dir), ([''r'', ''ca''], Dir),
     ([''r'', ''ca'', ''aws''], Dir), ([''r'', ''ca'', ''aws'', ''stray.crt''], File ''X'' perm600),
     ([''r'', ''ca'', ''aws'', ''certificates.crt''], File ''PEM'' perm600),
     ([''r'', ''ca'', ''old''], Dir), ([''r'', ''ca'', ''old'', ''certificates.crt''], File ''OLD'' perm600)], hist = [] \<rparr>"

definition demo_bundles :: "string gomap" where
  "demo_bundles = [(''ca/aws'', ''PEM'')]"

lemma demo_stores_ready: "stores_ready [''r''] demo_bundles (disk demo_stores)"
proof -
  have sn: "store_name ''ca/aws'' ''ca'' ''aws''" by (simp add: store_name_def plain_element_def)
  have "tree_disk (disk demo_stores)"
    by (auto simp: tree_disk_def demo_stores_def dirs_above_def is_dir_def le_Suc_eq split: if_splits)
  moreover have "plain_disk (disk demo_stores)"
    by (auto simp: plain_disk_def demo_stores_def plain_element_def split: if_splits)
  moreover have "store_names [''r''] (dom (map_of demo_bundles)) (disk demo_stores)"
    using sn by (auto simp: store_names_def demo_bundles_def demo_stores_def cert_path_name [OF sn] trustStoreCertFile_def)
  ultimately show ?thesis by (simp add: stores_ready_def demo_bundles_def wf_map_def plain_element_def)
qed

lemma demo_stores_run:
  "fst (syncTrustStores calm in_order [''r''] demo_bundles demo_stores) = (True, None)
   \<and> map_of (disk (snd (syncTrustStores calm in_order [''r''] demo_bundles demo_stores))) [''r'', ''ca''] = Some Dir"
  unfolding demo_stores_def demo_bundles_def calm_def in_order_def [abs_def] by code_simp

theorem syncTrustStores_exact_witness:
  "\<exists>s'. syncTrustStores calm in_order [''r''] demo_bundles demo_stores = ((True, None), s')
     \<and> map_of (disk s') [''r'', ''ca'', ''old'', ''certificates.crt''] = None
     \<and> map_of (disk s') [''r'', ''ca'', ''aws'', ''stray.crt''] = Some (File ''X'' perm600)"
proof -
  obtain s' where run: "syncTrustStores calm in_order [''r''] demo_bundles demo_stores = ((True, None), s')"
    using demo_stores_run by (metis prod.collapse)
  note E = syncTrustStores_exact [OF run demo_stores_ready range_order_in_order]
  have "map_of (disk s') ([''r''] @ [''ca'']) = Some Dir" using demo_stores_run run by simp
  moreover have "stale_store [''r''] demo_bundles ''ca'' ''old'' [''r'', ''ca'', ''old'', ''certificates.crt'']"
    by (simp add: stale_store_def demo_bundles_def)
  ultimately have "map_of (disk s') [''r'', ''ca'', ''old'', ''certificates.crt''] = None"
    using conjunct1 [OF E] unfolding stores_match_def by metis
  moreover have "map_of (disk s') ([''r''] @ ''ca'' # ''aws'' # ''stray.crt'' # [])
      = map_of (disk demo_stores) ([''r''] @ ''ca'' # ''aws'' # ''stray.crt'' # [])"
    using E by (simp add: demo_bundles_def trustStoreCertFile_def)
  ultimately show ?thesis using run by (simp add: demo_stores_def)
qed

text \<open>
  No symbolic link stands at, above or below the root. \<^verbatim>\<open>os.MkdirAll\<close> goes through a link to a directory,
  so that a link in the place of the root or of a type directory would lead the program elsewhere.
\<close>

definition no_links :: "path \<Rightarrow> disk \<Rightarrow> bool" where
  "no_links root d \<longleftrightarrow> (\<forall>p x. prefix p root \<or> prefix root p \<longrightarrow> map_of d p \<noteq> Some (Symlink x))"

text \<open>
  C17. If no symbolic link stands at, above or below the root, then whatever system calls fail, every
  version of the disk during the sync of the trust stores differs from the one before only at the
  root, its parents and below it: trust policies and plugins, which live elsewhere in the notation directory, are never touched.
\<close>

theorem syncTrustStores_confined:
  assumes "stores_ready root desired (disk s)" and "range_order ord" and "no_links root (disk s)"
    and "syncTrustStores env ord root desired s = (r, s')"
  shows "\<exists>ds. hist s' = hist s @ ds
    \<and> (\<forall>d \<in> set ds. \<forall>q. \<not> prefix q root \<longrightarrow> \<not> prefix root q \<longrightarrow> map_of d q = map_of (disk s) q)"
  using syncTrustStores_within [OF assms(1,2,4)] by (auto simp: within_def grows_def store_paths_def agree_off_def)

lemma demo_no_links: "no_links [''r''] (disk demo_stores)"
  by (auto simp: no_links_def demo_stores_def split: if_splits)

theorem syncTrustStores_confined_witness:
  "\<exists>ds. hist (snd (syncTrustStores calm in_order [''r''] demo_bundles demo_stores)) = hist demo_stores @ ds
    \<and> (\<forall>d \<in> set ds. map_of d [''tp.json''] = map_of (disk demo_stores) [''tp.json''])"
  using syncTrustStores_confined [OF demo_stores_ready range_order_in_order demo_no_links surjective_pairing, of calm] by force

end
