(* ===== verification/Reconcile.thy ===== *)
theory Reconcile
  imports Stores
begin

text \<open>
  The two controllers (\<^verbatim>\<open>controller/trustpolicy_controller.go\<close>, \<^verbatim>\<open>controller/truststore_controller.go\<close>): the
  objects of the API server become the desired files, the files are synced, a change is notified,
  and finalizers are added first and released last.

  The API server and \<^verbatim>\<open>controllerutil\<close> are parameters: a client answers \<^verbatim>\<open>Get\<close> (with \<^verbatim>\<open>IsNotFound\<close> of
  the error), \<^verbatim>\<open>List\<close> and \<^verbatim>\<open>Update\<close>, which may also change the server's state and returns the stored
  object; \<^verbatim>\<open>AddFinalizer\<close> and \<^verbatim>\<open>RemoveFinalizer\<close> return the object and whether it was modified.
  \<open>w_sent\<close> records every update request.
\<close>

record ('o, 'a) client =
  c_Get :: "'a \<Rightarrow> string \<Rightarrow> (bool \<times> gerr) + 'o"
  c_List :: "'a \<Rightarrow> 'o list result"
  c_Update :: "'a \<Rightarrow> 'o \<Rightarrow> 'o result \<times> 'a"
  AddFinalizer :: "'o \<Rightarrow> string \<Rightarrow> 'o \<times> bool"
  RemoveFinalizer :: "'o \<Rightarrow> string \<Rightarrow> 'o \<times> bool"

record ('o, 'a) world =
  w_os :: os
  w_chan :: "chan option"
  w_api :: 'a
  w_sent :: "'o list"

definition NotationPathEnvVar :: string where
  "NotationPathEnvVar = ''NOTATION_DIR''"

definition NotationPath :: "(string \<Rightarrow> string) \<Rightarrow> string" where
  "NotationPath Getenv = (if Getenv NotationPathEnvVar \<noteq> [] then Getenv NotationPathEnvVar else ''/tmp/notation'')"

definition TrustStorePath :: string where
  "TrustStorePath = ''truststore/x509''"

definition FinalizerName :: string where
  "FinalizerName = ''notation.nirmata.io/finalizer''"

text \<open>The directory \<^verbatim>\<open>NotationPath\<close> names, as a path.\<close>

definition notation_dir :: "(string \<Rightarrow> string) \<Rightarrow> path" where
  "notation_dir Getenv = clean_onto [] (Split (NotationPath Getenv) (CHR ''/''))"

section \<open>The desired files\<close>

fun desiredPolicies :: "(string \<Rightarrow> string) \<Rightarrow> TrustPolicy list \<Rightarrow> string gomap \<Rightarrow> string gomap result" where
  "desiredPolicies quote [] desired = Inr desired"
| "desiredPolicies quote (policy # rest) desired =
     (if Deleting policy then desiredPolicies quote rest desired
      else (case validateFileName quote (TrustPolicyName (tp_Spec policy)) of
              Some e \<Rightarrow> desiredPolicies quote rest desired
            | None \<Rightarrow>
                (case policy_file (tp_Spec policy) of
                   Inl e \<Rightarrow> Inl (wrap (''failed to marshal trust policy '' @ om_Name policy) e)
                 | Inr data \<Rightarrow>
                     desiredPolicies quote rest
                       (map_set desired (TrustPolicyName (tp_Spec policy) @ ''.json'') data))))"

fun desiredStores :: "(string \<Rightarrow> string) \<Rightarrow> TrustStore list \<Rightarrow> string gomap \<Rightarrow> string gomap" where
  "desiredStores quote [] desired = desired"
| "desiredStores quote (store # rest) desired =
     (if Deleting store then desiredStores quote rest desired
      else if validateFileName quote (ts_Type (ts_Spec store)) \<noteq> None then desiredStores quote rest desired
      else if validateFileName quote (TrustStoreName (ts_Spec store)) \<noteq> None then desiredStores quote rest desired
      else desiredStores quote rest
             (map_set desired (rel_Join (ts_Type (ts_Spec store)) (TrustStoreName (ts_Spec store)))
                (CABundle (ts_Spec store))))"

section \<open>The handlers\<close>

definition sent_notify :: "bool \<Rightarrow> os \<Rightarrow> ('o, 'a) world \<Rightarrow> ('o, 'a) world" where
  "sent_notify changed s w = w\<lparr> w_os := s, w_chan := (if changed then notify (w_chan w) else w_chan w) \<rparr>"

definition syncPolicies ::
    "(TrustPolicy, 'a) client \<Rightarrow> (string \<Rightarrow> string) \<Rightarrow> os_env \<Rightarrow> orders \<Rightarrow> path
     \<Rightarrow> (TrustPolicy, 'a) world \<Rightarrow> (unit, (TrustPolicy, 'a) world) call" where
  "syncPolicies cl quote env ord dir w =
     (case c_List cl (w_api w) of
        Inl e \<Rightarrow> (Inl (wrap ''failed to list trust policies'' e), w)
      | Inr items \<Rightarrow>
          (case desiredPolicies quote items [] of
             Inl e \<Rightarrow> (Inl e, w)
           | Inr desired \<Rightarrow>
               (case syncTrustPolicyFiles env ord dir desired (w_os w) of
                  ((changed, Some e), s) \<Rightarrow> (Inl e, w\<lparr> w_os := s \<rparr>)
                | ((changed, None), s) \<Rightarrow> (Inr (), sent_notify changed s w))))"

definition syncStores ::
    "(TrustStore, 'a) client \<Rightarrow> (string \<Rightarrow> string) \<Rightarrow> os_env \<Rightarrow> orders \<Rightarrow> path
     \<Rightarrow> (TrustStore, 'a) world \<Rightarrow> (unit, (TrustStore, 'a) world) call" where
  "syncStores cl quote env ord dir w =
     (case c_List cl (w_api w) of
        Inl e \<Rightarrow> (Inl (wrap ''failed to list trust stores'' e), w)
      | Inr items \<Rightarrow>
          (case syncTrustStores env ord (filepath_Join dir TrustStorePath) (desiredStores quote items []) (w_os w) of
             ((changed, Some e), s) \<Rightarrow> (Inl e, w\<lparr> w_os := s \<rparr>)
           | ((changed, None), s) \<Rightarrow> (Inr (), sent_notify changed s w)))"

text \<open>An update request; on success the object in hand is what the server stored.\<close>

definition update :: "('o, 'a) client \<Rightarrow> 'o \<Rightarrow> ('o, 'a) world \<Rightarrow> ('o, ('o, 'a) world) call" where
  "update cl obj w =
     (case c_Update cl (w_api w) obj of (r, a) \<Rightarrow> (r, w\<lparr> w_api := a, w_sent := w_sent w @ [obj] \<rparr>))"

text \<open>Both \<^verbatim>\<open>Reconcile\<close> methods have this body, over their own \<^verbatim>\<open>sync\<close>.\<close>

definition reconcileWith ::
    "('z ObjectMeta_scheme, 'a) client \<Rightarrow> (('z ObjectMeta_scheme, 'a) world \<Rightarrow> (unit, ('z ObjectMeta_scheme, 'a) world) call)
     \<Rightarrow> string \<Rightarrow> ('z ObjectMeta_scheme, 'a) world \<Rightarrow> (unit, ('z ObjectMeta_scheme, 'a) world) call" where
  "reconcileWith cl sync req w =
     (case c_Get cl (w_api w) req of
        Inl (notFound, e) \<Rightarrow> if \<not> notFound then (Inl e, w) else sync w
      | Inr obj \<Rightarrow>
          andThen
            (if \<not> Deleting obj
             then (case AddFinalizer cl obj FinalizerName of
                     (obj', added) \<Rightarrow> if added then update cl obj' w else (Inr obj', w))
             else (Inr obj, w))
            (\<lambda>obj1 w1.
               andThen (sync w1)
                 (\<lambda>_ w2.
                    if Deleting obj1
                    then (case RemoveFinalizer cl obj1 FinalizerName of
                            (obj2, removed) \<Rightarrow>
                              if removed then andThen (update cl obj2 w2) (\<lambda>_ w3. (Inr (), w3)) else (Inr (), w2))
                    else (Inr (), w2))))"

definition TrustPolicy_Reconcile ::
    "(TrustPolicy, 'a) client \<Rightarrow> (string \<Rightarrow> string) \<Rightarrow> os_env \<Rightarrow> orders \<Rightarrow> path
     \<Rightarrow> string \<Rightarrow> (TrustPolicy, 'a) world \<Rightarrow> (unit, (TrustPolicy, 'a) world) call" where
  "TrustPolicy_Reconcile cl quote env ord dir = reconcileWith cl (syncPolicies cl quote env ord dir)"

definition TrustStore_Reconcile ::
    "(TrustStore, 'a) client \<Rightarrow> (string \<Rightarrow> string) \<Rightarrow> os_env \<Rightarrow> orders \<Rightarrow> path
     \<Rightarrow> string \<Rightarrow> (TrustStore, 'a) world \<Rightarrow> (unit, (TrustStore, 'a) world) call" where
  "TrustStore_Reconcile cl quote env ord dir = reconcileWith cl (syncStores cl quote env ord dir)"

section \<open>The desired maps\<close>

lemma desiredPolicies_keys:
  "desiredPolicies quote items d = Inr d' \<Longrightarrow> wf_map d \<Longrightarrow> (\<forall>n. map_of d n \<noteq> None \<longrightarrow> json_name n) \<Longrightarrow>
     wf_map d' \<and> (\<forall>n. map_of d' n \<noteq> None \<longrightarrow> json_name n)"
proof (induction items arbitrary: d)
  case (Cons p items)
  let ?n = "TrustPolicyName (tp_Spec p)"
  show ?case
  proof (cases "Deleting p \<or> validateFileName quote ?n \<noteq> None")
    case True
    then have "desiredPolicies quote (p # items) d = desiredPolicies quote items d"
      by (cases "validateFileName quote ?n") auto
    with Cons.IH [of d] Cons.prems show ?thesis by simp
  next
    case False
    then have jn: "json_name (?n @ ''.json'')"
      by (auto simp: json_name_def validateFileName_iff plain_element_def)
    obtain data where "desiredPolicies quote items (map_set d (?n @ ''.json'') data) = Inr d'"
      using False Cons.prems(1) by (auto simp: policy_file_def)
    moreover have "\<forall>n. map_of (map_set d (?n @ ''.json'') data) n \<noteq> None \<longrightarrow> json_name n"
      using Cons.prems(3) jn by (simp only: map_of_map_set fun_upd_apply) simp
    ultimately show ?thesis using Cons.IH wf_map_set [OF Cons.prems(2)] by blast
  qed
qed simp

text \<open>The policies whose files the sync writes.\<close>

definition eligible :: "(string \<Rightarrow> string) \<Rightarrow> TrustPolicy \<Rightarrow> bool" where
  "eligible quote p \<longleftrightarrow> \<not> Deleting p \<and> validateFileName quote (TrustPolicyName (tp_Spec p)) = None"

lemma desiredPolicies_source:
  "desiredPolicies quote items d = Inr d' \<Longrightarrow> map_of d' n = Some x \<Longrightarrow>
     map_of d n = Some x
     \<or> (\<exists>p \<in> set items. eligible quote p \<and> n = TrustPolicyName (tp_Spec p) @ ''.json'' \<and> policy_file (tp_Spec p) = Inr x)"
proof (induction items arbitrary: d)
  case (Cons p items)
  let ?n = "TrustPolicyName (tp_Spec p)"
  show ?case
  proof (cases "Deleting p \<or> validateFileName quote ?n \<noteq> None")
    case True
    then have "desiredPolicies quote (p # items) d = desiredPolicies quote items d"
      by (cases "validateFileName quote ?n") auto
    with Cons.IH [of d] Cons.prems show ?thesis by auto
  next
    case False
    then obtain data where data: "policy_file (tp_Spec p) = Inr data"
      and run: "desiredPolicies quote items (map_set d (?n @ ''.json'') data) = Inr d'"
      using Cons.prems(1) by (auto simp: policy_file_def)
    from Cons.IH [OF run Cons.prems(2)] data False show ?thesis by (auto simp: eligible_def split: if_splits)
  qed
qed simp

lemma desiredPolicies_complete:
  "desiredPolicies quote items d = Inr d' \<Longrightarrow>
     map_of d n \<noteq> None \<or> (\<exists>p \<in> set items. eligible quote p \<and> n = TrustPolicyName (tp_Spec p) @ ''.json'') \<Longrightarrow> map_of d' n \<noteq> None"
proof (induction items arbitrary: d)
  case (Cons p items)
  let ?n = "TrustPolicyName (tp_Spec p)"
  show ?case
  proof (cases "eligible quote p")
    case False
    then have "desiredPolicies quote (p # items) d = desiredPolicies quote items d"
      by (cases "validateFileName quote ?n") (auto simp: eligible_def)
    with Cons.IH [of d] Cons.prems False show ?thesis by auto
  next
    case True
    then obtain data where run: "desiredPolicies quote items (map_set d (?n @ ''.json'') data) = Inr d'"
      using Cons.prems(1) by (auto simp: policy_file_def eligible_def)
    from Cons.IH [OF run] Cons.prems(2) show ?thesis by auto
  qed
qed simp

lemma desiredStores_keys:
  "wf_map d \<Longrightarrow> (\<forall>k. map_of d k \<noteq> None \<longrightarrow> (\<exists>t n. store_name k t n)) \<Longrightarrow>
     wf_map (desiredStores quote items d)
     \<and> (\<forall>k. map_of (desiredStores quote items d) k \<noteq> None \<longrightarrow> (\<exists>t n. store_name k t n))"
proof (induction items arbitrary: d)
  case (Cons p items)
  let ?t = "ts_Type (ts_Spec p)" and ?n = "TrustStoreName (ts_Spec p)"
  show ?case
  proof (cases "Deleting p \<or> validateFileName quote ?t \<noteq> None \<or> validateFileName quote ?n \<noteq> None")
    case True
    then have "desiredStores quote (p # items) d = desiredStores quote items d" by auto
    with Cons show ?thesis by simp
  next
    case False
    then have "store_name (rel_Join ?t ?n) ?t ?n"
      by (simp add: store_name_def rel_Join_plain validateFileName_iff)
    then have "\<forall>k. map_of (map_set d (rel_Join ?t ?n) (CABundle (ts_Spec p))) k \<noteq> None \<longrightarrow> (\<exists>t n. store_name k t n)"
      using Cons.prems(2) by auto
    from Cons.IH [OF wf_map_set [OF Cons.prems(1)] this] False show ?thesis by simp
  qed
qed simp

section \<open>What the disk should hold\<close>

text \<open>
  Written down from the documentation of the controllers, without their code: objects that are being
  deleted or whose names are not single path elements are left out, and of several objects for the
  same file the last one listed wins.
\<close>

definition valid_name :: "string \<Rightarrow> bool" where
  "valid_name x \<longleftrightarrow> x \<noteq> [] \<and> x \<noteq> ''.'' \<and> x \<noteq> ''..'' \<and> CHR ''/'' \<notin> set x \<and> CHR 0x5C \<notin> set x"

definition live_policy :: "TrustPolicy \<Rightarrow> bool" where
  "live_policy p \<longleftrightarrow> \<not> Deleting p \<and> valid_name (TrustPolicyName (tp_Spec p))"

definition policies_on_disk :: "path \<Rightarrow> TrustPolicy list \<Rightarrow> disk \<Rightarrow> bool" where
  "policies_on_disk dir items d \<longleftrightarrow>
     (\<forall>us p vs. items = us @ p # vs \<longrightarrow> live_policy p \<longrightarrow>
        (\<forall>x \<in> set vs. live_policy x \<longrightarrow> TrustPolicyName (tp_Spec x) \<noteq> TrustPolicyName (tp_Spec p)) \<longrightarrow>
        (\<exists>data m. policy_file (tp_Spec p) = Inr data \<and> map_of d (dir @ [TrustPolicyName (tp_Spec p) @ ''.json'']) = Some (File data m)))
     \<and> (\<forall>n. Ext n = ''.json'' \<longrightarrow> (\<forall>p \<in> set items. live_policy p \<longrightarrow> n \<noteq> TrustPolicyName (tp_Spec p) @ ''.json'') \<longrightarrow>
          map_of d (dir @ [n]) \<in> {None, Some Dir})"

definition live_store :: "TrustStore \<Rightarrow> bool" where
  "live_store t \<longleftrightarrow> \<not> Deleting t \<and> valid_name (ts_Type (ts_Spec t)) \<and> valid_name (TrustStoreName (ts_Spec t))"

definition store_of :: "TrustStore \<Rightarrow> string \<times> string" where
  "store_of t = (ts_Type (ts_Spec t), TrustStoreName (ts_Spec t))"

definition stores_on_disk :: "path \<Rightarrow> TrustStore list \<Rightarrow> disk \<Rightarrow> bool" where
  "stores_on_disk root items d \<longleftrightarrow>
     (\<forall>us t vs. items = us @ t # vs \<longrightarrow> live_store t \<longrightarrow> (\<forall>x \<in> set vs. live_store x \<longrightarrow> store_of x \<noteq> store_of t) \<longrightarrow>
        (\<exists>m. map_of d (root @ [ts_Type (ts_Spec t), TrustStoreName (ts_Spec t), ''certificates.crt''])
           = Some (File (CABundle (ts_Spec t)) m)))
     \<and> (\<forall>ty n q. map_of d (root @ [ty]) = Some Dir \<longrightarrow> (\<forall>t \<in> set items. live_store t \<longrightarrow> store_of t \<noteq> (ty, n)) \<longrightarrow>
          prefix (root @ [ty, n]) q \<longrightarrow> map_of d q = None)"

lemma validateFileName_valid: "validateFileName quote x = None \<longleftrightarrow> valid_name x"
  by (auto simp: validateFileName_iff valid_name_def plain_element_def)

lemma eligible_live: "eligible quote p \<longleftrightarrow> live_policy p"
  by (simp add: eligible_def live_policy_def validateFileName_valid)

lemma desiredPolicies_Cons:
  "desiredPolicies quote (p # items) d =
     (if live_policy p
      then (case policy_file (tp_Spec p) of
              Inl e \<Rightarrow> Inl (wrap (''failed to marshal trust policy '' @ om_Name p) e)
            | Inr data \<Rightarrow> desiredPolicies quote items (map_set d (TrustPolicyName (tp_Spec p) @ ''.json'') data))
      else desiredPolicies quote items d)"
  using validateFileName_valid [of quote "TrustPolicyName (tp_Spec p)"]
  by (auto simp: live_policy_def split: option.split)

lemma desiredPolicies_other:
  assumes "desiredPolicies quote items d = Inr d'"
    and "\<forall>p \<in> set items. live_policy p \<longrightarrow> n \<noteq> TrustPolicyName (tp_Spec p) @ ''.json''"
  shows "map_of d' n = map_of d n"
  using assms
proof (induction items arbitrary: d)
  case (Cons p items)
  from Cons.prems(1) consider "\<not> live_policy p" "desiredPolicies quote items d = Inr d'"
    | data where "live_policy p" "desiredPolicies quote items (map_set d (TrustPolicyName (tp_Spec p) @ ''.json'') data) = Inr d'"
    unfolding desiredPolicies_Cons by (auto split: if_splits sum.splits)
  then show ?case
    by cases (use Cons.IH Cons.prems(2) in auto)
qed simp

lemma desiredPolicies_last:
  assumes "desiredPolicies quote (us @ p # vs) d = Inr d'" and "live_policy p"
    and "\<forall>x \<in> set vs. live_policy x \<longrightarrow> TrustPolicyName (tp_Spec x) \<noteq> TrustPolicyName (tp_Spec p)"
  shows "\<exists>data. policy_file (tp_Spec p) = Inr data \<and> map_of d' (TrustPolicyName (tp_Spec p) @ ''.json'') = Some data"
  using assms(1)
proof (induction us arbitrary: d)
  case Nil
  then obtain data where f: "policy_file (tp_Spec p) = Inr data"
    and run: "desiredPolicies quote vs (map_set d (TrustPolicyName (tp_Spec p) @ ''.json'') data) = Inr d'"
    using assms(2) by (simp only: append_Nil desiredPolicies_Cons if_True) (auto split: sum.splits)
  have "\<forall>x \<in> set vs. live_policy x \<longrightarrow> TrustPolicyName (tp_Spec p) @ ''.json'' \<noteq> TrustPolicyName (tp_Spec x) @ ''.json''"
    using assms(3) by auto
  from desiredPolicies_other [OF run this] have "map_of d' (TrustPolicyName (tp_Spec p) @ ''.json'') = Some data" by simp
  with f show ?case by blast
next
  case (Cons u us)
  then show ?case
    unfolding append_Cons desiredPolicies_Cons by (auto split: if_splits sum.splits)
qed

lemma policies_match_on_disk:
  assumes "desiredPolicies quote items [] = Inr desired" and "policies_match dir desired d"
  shows "policies_on_disk dir items d"
  unfolding policies_on_disk_def
proof (intro conjI allI impI)
  fix us p vs
  assume "items = us @ p # vs" and "live_policy p"
    and "\<forall>x \<in> set vs. live_policy x \<longrightarrow> TrustPolicyName (tp_Spec x) \<noteq> TrustPolicyName (tp_Spec p)"
  with desiredPolicies_last assms(1) obtain data where "policy_file (tp_Spec p) = Inr data"
    and "map_of desired (TrustPolicyName (tp_Spec p) @ ''.json'') = Some data" by blast
  with assms(2) show "\<exists>data m. policy_file (tp_Spec p) = Inr data
      \<and> map_of d (dir @ [TrustPolicyName (tp_Spec p) @ ''.json'']) = Some (File data m)"
    by (simp add: policies_match_def)
next
  fix n
  assume "Ext n = ''.json''" and "\<forall>p \<in> set items. live_policy p \<longrightarrow> n \<noteq> TrustPolicyName (tp_Spec p) @ ''.json''"
  with desiredPolicies_other [OF assms(1)] assms(2) show "map_of d (dir @ [n]) \<in> {None, Some Dir}"
    by (simp add: policies_match_def)
qed

lemma desiredStores_Cons:
  "desiredStores quote (t # items) d =
     desiredStores quote items
       (if live_store t then map_set d (ts_Type (ts_Spec t) @ ''/'' @ TrustStoreName (ts_Spec t)) (CABundle (ts_Spec t)) else d)"
proof -
  have "rel_Join (ts_Type (ts_Spec t)) (TrustStoreName (ts_Spec t)) = ts_Type (ts_Spec t) @ ''/'' @ TrustStoreName (ts_Spec t)"
    if "live_store t"
    using that by (intro rel_Join_plain) (auto simp: live_store_def valid_name_def plain_element_def)
  then show ?thesis
    by (auto simp: live_store_def validateFileName_valid)
qed

lemma slash_unique:
  assumes "a @ ''/'' @ b = c @ ''/'' @ e" and "CHR ''/'' \<notin> set a" and "CHR ''/'' \<notin> set b"
  shows "a = c \<and> b = e"
proof -
  have "CHR ''/'' \<notin> set c"
  proof
    assume "CHR ''/'' \<in> set c"
    then have "2 \<le> count_list (c @ ''/'' @ e) (CHR ''/'')" using count_list_0_iff [of c "CHR ''/''"] by (simp; linarith)
    moreover have "count_list (a @ ''/'' @ b) (CHR ''/'') = 1"
      using assms(2,3) by (simp add: count_list_0_iff)
    ultimately show False unfolding assms(1) by linarith
  qed
  with assms split_first_unique [of "CHR ''/''" a c b e] show ?thesis by simp
qed

lemma desiredStores_other:
  "(\<forall>t \<in> set items. live_store t \<longrightarrow> store_of t \<noteq> (ty, n)) \<Longrightarrow>
     map_of (desiredStores quote items d) (ty @ ''/'' @ n) = map_of d (ty @ ''/'' @ n)"
proof (induction items arbitrary: d)
  case (Cons t items)
  have "ty @ ''/'' @ n \<noteq> ts_Type (ts_Spec t) @ ''/'' @ TrustStoreName (ts_Spec t)" if "live_store t"
    using that Cons.prems slash_unique [of "ts_Type (ts_Spec t)" "TrustStoreName (ts_Spec t)" ty n]
    by (auto simp: live_store_def valid_name_def store_of_def)
  with Cons show ?case by (simp add: desiredStores_Cons del: desiredStores.simps)
qed simp

lemma desiredStores_last:
  assumes "live_store t" and "\<forall>x \<in> set vs. live_store x \<longrightarrow> store_of x \<noteq> store_of t"
  shows "map_of (desiredStores quote (us @ t # vs) d) (ts_Type (ts_Spec t) @ ''/'' @ TrustStoreName (ts_Spec t)) = Some (CABundle (ts_Spec t))"
proof (induction us arbitrary: d)
  case Nil
  with assms desiredStores_other [of vs "ts_Type (ts_Spec t)" "TrustStoreName (ts_Spec t)"] show ?case
    by (simp add: desiredStores_Cons store_of_def del: desiredStores.simps)
qed (simp only: append_Cons desiredStores_Cons)

lemma stores_match_on_disk:
  assumes "stores_match root (desiredStores quote items []) d"
  shows "stores_on_disk root items d"
  unfolding stores_on_disk_def
proof (intro conjI allI impI)
  fix us t vs
  assume "items = us @ t # vs" and t: "live_store t" and "\<forall>x \<in> set vs. live_store x \<longrightarrow> store_of x \<noteq> store_of t"
  with desiredStores_last
  have "map_of (desiredStores quote items []) (ts_Type (ts_Spec t) @ ''/'' @ TrustStoreName (ts_Spec t)) = Some (CABundle (ts_Spec t))"
    by blast
  with assms obtain m where "map_of d (cert_path root (ts_Type (ts_Spec t) @ ''/'' @ TrustStoreName (ts_Spec t))) = Some (File (CABundle (ts_Spec t)) m)"
    unfolding stores_match_def by blast
  moreover have "store_name (ts_Type (ts_Spec t) @ ''/'' @ TrustStoreName (ts_Spec t)) (ts_Type (ts_Spec t)) (TrustStoreName (ts_Spec t))"
    using t by (simp add: store_name_def live_store_def valid_name_def plain_element_def)
  ultimately show "\<exists>m. map_of d (root @ [ts_Type (ts_Spec t), TrustStoreName (ts_Spec t), ''certificates.crt'']) = Some (File (CABundle (ts_Spec t)) m)"
    by (simp add: cert_path_name trustStoreCertFile_def)
next
  fix ty n q
  assume "map_of d (root @ [ty]) = Some Dir" and "\<forall>t \<in> set items. live_store t \<longrightarrow> store_of t \<noteq> (ty, n)" and "prefix (root @ [ty, n]) q"
  moreover from this(2) have "map_of (desiredStores quote items []) (ty @ ''/'' @ n) = None"
    by (subst desiredStores_other) simp_all
  ultimately show "map_of d q = None"
    using assms unfolding stores_match_def stale_store_def by blast
qed

section \<open>What a reconciler needs of its sync\<close>

text \<open>
  A sync talks to no one but the disk and the channel; when it succeeds the disk is \<open>good\<close> for the
  objects the server lists, and either a notification was sent or no file changed.
\<close>

text \<open>The state of the API server when the sync runs: as it was, or after the finalizer was added.\<close>

definition api_at_sync :: "('o, 'a) client \<Rightarrow> string \<Rightarrow> 'a \<Rightarrow> 'a \<Rightarrow> bool" where
  "api_at_sync cl req a0 a \<longleftrightarrow> a = a0
     \<or> (\<exists>obj. c_Get cl a0 req = Inr obj \<and> a = snd (c_Update cl a0 (fst (AddFinalizer cl obj FinalizerName))))"

lemma api_at_sync_update: "api_at_sync cl req a0 a \<Longrightarrow> a = a0 \<or> (\<exists>x. a = snd (c_Update cl a0 x))"
  by (auto simp: api_at_sync_def)

locale reconciler =
  fixes cl :: "('z ObjectMeta_scheme, 'a) client"
    and sync :: "('z ObjectMeta_scheme, 'a) world \<Rightarrow> (unit, ('z ObjectMeta_scheme, 'a) world) call"
    and ready :: "disk \<Rightarrow> bool" and good :: "'a \<Rightarrow> disk \<Rightarrow> bool" and same :: "disk \<Rightarrow> disk \<Rightarrow> bool"
  assumes sync_keeps: "sync w = (r, w') \<Longrightarrow> w_api w' = w_api w \<and> w_sent w' = w_sent w"
    and sync_good: "ready (disk (w_os w)) \<Longrightarrow> sync w = (Inr (), w') \<Longrightarrow> good (w_api w) (disk (w_os w'))"
    and sync_notifies: "ready (disk (w_os w)) \<Longrightarrow> sync w = (Inr (), w') \<Longrightarrow>
       w_chan w' = notify (w_chan w) \<or> w_chan w' = w_chan w \<and> same (disk (w_os w)) (disk (w_os w'))"
begin

lemma release_after_sync:
  assumes "reconcileWith cl sync req w = (r, w')" and "c_Get cl (w_api w) req = Inr obj" and "Deleting obj"
    and "w_sent w' \<noteq> w_sent w" and "ready (disk (w_os w))"
  shows "good (w_api w) (disk (w_os w')) \<and> w_sent w' = w_sent w @ [fst (RemoveFinalizer cl obj FinalizerName)]"
proof -
  obtain x w2 where s: "sync w = (x, w2)" by fastforce
  obtain obj2 removed where rf: "RemoveFinalizer cl obj FinalizerName = (obj2, removed)" by fastforce
  note K = sync_keeps [OF s]
  have x: "x = Inr ()" using assms(1-4) s K by (cases x) (auto simp: reconcileWith_def)
  then have "removed" using assms(1-4) s K rf by (auto simp: reconcileWith_def split: if_splits)
  obtain y w3 where u: "update cl obj2 w2 = (y, w3)" by fastforce
  then have w3: "w_os w3 = w_os w2" "w_sent w3 = w_sent w2 @ [obj2]"
    by (auto simp: update_def split: prod.splits)
  have "w' = w3" using assms(1-3) s x rf u \<open>removed\<close> by (cases y) (auto simp: reconcileWith_def)
  with w3 K rf sync_good [OF assms(5) s [unfolded x]] show ?thesis by simp
qed

lemma finalizer_step:
  assumes "c_Get cl (w_api w) req = Inr obj" and "(if \<not> Deleting obj
      then (case AddFinalizer cl obj FinalizerName of (obj', added) \<Rightarrow> if added then update cl obj' w else (Inr obj', w))
      else (Inr obj, w)) = (Inr obj1, w1)"
  shows "w_os w1 = w_os w \<and> w_chan w1 = w_chan w \<and> api_at_sync cl req (w_api w) (w_api w1)"
proof -
  obtain obj' added where a: "AddFinalizer cl obj FinalizerName = (obj', added)" by fastforce
  obtain x y where u: "c_Update cl (w_api w) obj' = (x, y)" by fastforce
  show ?thesis
  proof (cases "\<not> Deleting obj \<and> added")
    case True
    with assms a u have "w1 = w\<lparr> w_api := y, w_sent := w_sent w @ [obj'] \<rparr>" by (simp add: update_def)
    then show ?thesis using u a assms(1) by (simp add: api_at_sync_def)
  next
    case False
    with assms(2) a have "w1 = w" by (auto split: if_splits)
    then show ?thesis by (simp add: api_at_sync_def)
  qed
qed

lemma reconcile_ok:
  assumes run: "reconcileWith cl sync req w = (Inr (), w')" and ready: "ready (disk (w_os w))"
  shows "\<exists>a. api_at_sync cl req (w_api w) a \<and> good a (disk (w_os w'))
    \<and> (w_chan w' = notify (w_chan w) \<or> w_chan w' = w_chan w \<and> same (disk (w_os w)) (disk (w_os w')))"
proof (cases "c_Get cl (w_api w) req")
  case (Inl e)
  with run have "sync w = (Inr (), w')" by (auto simp: reconcileWith_def split: prod.splits if_splits)
  with sync_good sync_notifies ready show ?thesis by (intro exI [of _ "w_api w"]) (auto simp: api_at_sync_def)
next
  case (Inr obj)
  with run obtain obj1 w1 w2 where f: "(if \<not> Deleting obj
      then (case AddFinalizer cl obj FinalizerName of (obj', added) \<Rightarrow> if added then update cl obj' w else (Inr obj', w))
      else (Inr obj, w)) = (Inr obj1, w1)" and s: "sync w1 = (Inr (), w2)"
    and rest: "(if Deleting obj1
        then (case RemoveFinalizer cl obj1 FinalizerName of
                (obj2, removed) \<Rightarrow> if removed then andThen (update cl obj2 w2) (\<lambda>_ w3. (Inr (), w3)) else (Inr (), w2))
        else (Inr (), w2)) = (Inr (), w')"
    by (auto simp: reconcileWith_def andThen_ok_iff)
  note F = finalizer_step [OF Inr f]
  have w': "w_os w' = w_os w2 \<and> w_chan w' = w_chan w2"
    using rest by (auto simp: andThen_ok_iff update_def split: if_splits prod.splits)
  from F ready have "ready (disk (w_os w1))" by simp
  from sync_good [OF this s] sync_notifies [OF this s] F w' show ?thesis by auto
qed

end

section \<open>Both controllers are reconcilers\<close>

definition policy_disk :: "path \<Rightarrow> disk \<Rightarrow> bool" where
  "policy_disk dir d \<longleftrightarrow> (\<forall>n t. json_name n \<longrightarrow> map_of d (dir @ [n]) \<noteq> Some (Symlink t))
     \<and> (\<forall>n. map_of d (dir @ [n]) \<noteq> None \<longrightarrow> plain_element n)"

definition policies_good :: "(TrustPolicy, 'a) client \<Rightarrow> (string \<Rightarrow> string) \<Rightarrow> path \<Rightarrow> 'a \<Rightarrow> disk \<Rightarrow> bool" where
  "policies_good cl quote dir a d \<longleftrightarrow>
     (\<exists>items desired. c_List cl a = Inr items \<and> desiredPolicies quote items [] = Inr desired \<and> policies_match dir desired d)"

definition same_below :: "path \<Rightarrow> disk \<Rightarrow> disk \<Rightarrow> bool" where
  "same_below dir d d' \<longleftrightarrow> (\<forall>q. length dir < length q \<longrightarrow> map_of d' q = map_of d q)"

lemma desired_ready:
  "policy_disk dir d \<Longrightarrow> desiredPolicies quote items [] = Inr desired \<Longrightarrow> policies_ready dir desired d"
  using desiredPolicies_keys [of quote items "[]" desired] by (auto simp: policy_disk_def policies_ready_def)

lemma syncPolicies_ok:
  assumes "syncPolicies cl quote env ord dir w = (Inr (), w')"
  obtains items desired changed s where "c_List cl (w_api w) = Inr items"
    and "desiredPolicies quote items [] = Inr desired"
    and "syncTrustPolicyFiles env ord dir desired (w_os w) = ((changed, None), s)"
    and "w' = sent_notify changed s w"
  using assms unfolding syncPolicies_def
  by (auto split: sum.splits prod.splits option.splits)

interpretation policies: reconciler cl "syncPolicies cl quote env ord dir" "\<lambda>d. range_order ord \<and> policy_disk dir d"
  "policies_good cl quote dir" "same_below dir" for cl quote env ord dir
proof
  fix w w' :: "(TrustPolicy, 'a) world" and r
  assume "syncPolicies cl quote env ord dir w = (r, w')"
  then show "w_api w' = w_api w \<and> w_sent w' = w_sent w"
    by (auto simp: syncPolicies_def sent_notify_def split: sum.splits prod.splits option.splits)
next
  fix w w' :: "(TrustPolicy, 'a) world"
  assume d: "range_order ord \<and> policy_disk dir (disk (w_os w))" and run: "syncPolicies cl quote env ord dir w = (Inr (), w')"
  from run obtain items desired changed s where l: "c_List cl (w_api w) = Inr items"
    and m: "desiredPolicies quote items [] = Inr desired"
    and f: "syncTrustPolicyFiles env ord dir desired (w_os w) = ((changed, None), s)"
    and w': "w' = sent_notify changed s w"
    by (rule syncPolicies_ok)
  have ready: "policies_ready dir desired (disk (w_os w))" and ord: "range_order ord" using d m desired_ready by auto
  show "policies_good cl quote dir (w_api w) (disk (w_os w'))"
    using syncTrustPolicyFiles_ok(1) [OF f ready ord] l m w' by (simp add: policies_good_def sent_notify_def)
  show "w_chan w' = notify (w_chan w) \<or> w_chan w' = w_chan w \<and> same_below dir (disk (w_os w)) (disk (w_os w'))"
    using syncTrustPolicyFiles_ok(3) [OF f ready ord] w' by (auto simp: same_below_def sent_notify_def)
qed

definition store_disk :: "path \<Rightarrow> disk \<Rightarrow> bool" where
  "store_disk root d \<longleftrightarrow> tree_disk d \<and> plain_disk d \<and> (\<forall>x \<in> set root. plain_element x)
     \<and> no_links root d"

definition stores_good :: "(TrustStore, 'a) client \<Rightarrow> (string \<Rightarrow> string) \<Rightarrow> path \<Rightarrow> 'a \<Rightarrow> disk \<Rightarrow> bool" where
  "stores_good cl quote root a d \<longleftrightarrow>
     (\<exists>items. c_List cl a = Inr items \<and> stores_match root (desiredStores quote items []) d)"

lemma desiredStores_ready: "store_disk root d \<Longrightarrow> stores_ready root (desiredStores quote items []) d"
proof -
  assume d: "store_disk root d"
  note K = desiredStores_keys [of "[]" quote items, simplified]
  have "store_names root (dom (map_of (desiredStores quote items []))) d"
    unfolding store_names_def
  proof (intro ballI conjI allI)
    fix rel x assume "rel \<in> dom (map_of (desiredStores quote items []))"
    then obtain t n where sn: "store_name rel t n" using K by blast
    then show "\<exists>t n. store_name rel t n" by blast
    show "map_of d (cert_path root rel) \<noteq> Some (Symlink x)"
      using d by (simp add: cert_path_name [OF sn] store_disk_def no_links_def)
  qed
  with d K show ?thesis by (simp add: stores_ready_def store_disk_def)
qed

interpretation stores: reconciler cl "syncStores cl quote env ord dir"
  "\<lambda>d. range_order ord \<and> store_disk (filepath_Join dir TrustStorePath) d"
  "stores_good cl quote (filepath_Join dir TrustStorePath)" "same_below (filepath_Join dir TrustStorePath)" for cl quote env ord dir
proof
  fix w w' :: "(TrustStore, 'a) world" and r
  assume "syncStores cl quote env ord dir w = (r, w')"
  then show "w_api w' = w_api w \<and> w_sent w' = w_sent w"
    by (auto simp: syncStores_def sent_notify_def split: sum.splits prod.splits option.splits)
next
  let ?root = "filepath_Join dir TrustStorePath"
  fix w w' :: "(TrustStore, 'a) world"
  assume d: "range_order ord \<and> store_disk ?root (disk (w_os w))" and run: "syncStores cl quote env ord dir w = (Inr (), w')"
  from run obtain items changed s where l: "c_List cl (w_api w) = Inr items"
    and f: "syncTrustStores env ord ?root (desiredStores quote items []) (w_os w) = ((changed, None), s)"
    and w': "w' = sent_notify changed s w"
    unfolding syncStores_def by (auto split: sum.splits prod.splits option.splits)
  have ready: "stores_ready ?root (desiredStores quote items []) (disk (w_os w))" and ord: "range_order ord"
    using d desiredStores_ready by auto
  show "stores_good cl quote ?root (w_api w) (disk (w_os w'))"
    using syncTrustStores_ok(1) [OF f ready ord] l w' by (simp add: stores_good_def sent_notify_def)
  show "w_chan w' = notify (w_chan w) \<or> w_chan w' = w_chan w \<and> same_below ?root (disk (w_os w)) (disk (w_os w'))"
    using syncTrustStores_ok(4) [OF f ready ord] w' by (auto simp: same_below_def sent_notify_def)
qed

section \<open>A small cluster\<close>

definition demo_client :: "('z ObjectMeta_scheme, 'z ObjectMeta_scheme list) client" where
  "demo_client = \<lparr>
     c_Get = (\<lambda>objs name. case find (\<lambda>x. om_Name x = name) objs of None \<Rightarrow> Inl (True, Err ''not found'') | Some x \<Rightarrow> Inr x),
     c_List = Inr,
     c_Update = (\<lambda>objs x. (Inr x, map (\<lambda>y. if om_Name y = om_Name x then x else y) objs)),
     AddFinalizer = (\<lambda>x f. if f \<in> set (Finalizers x) then (x, False) else (x\<lparr> Finalizers := Finalizers x @ [f] \<rparr>, True)),
     RemoveFinalizer = (\<lambda>x f. if f \<in> set (Finalizers x) then (x\<lparr> Finalizers := removeAll f (Finalizers x) \<rparr>, True) else (x, False)) \<rparr>"

definition demo_policy :: "bool \<Rightarrow> TrustPolicy" where
  "demo_policy deleted = \<lparr> om_Name = ''tp'', Deleting = deleted, Finalizers = [FinalizerName],
     tp_Spec = \<lparr> Version = ''1.0'', TrustPolicyName = ''tp'', TrustPolicies = None \<rparr> \<rparr>"

definition demo_world :: "bool \<Rightarrow> (TrustPolicy, TrustPolicy list) world" where
  "demo_world deleted = \<lparr> w_os = \<lparr> disk = [([''n''], Dir)], hist = [] \<rparr>,
     w_chan = Some \<lparr> chan_cap = 1, chan_len = 0 \<rparr>, w_api = [demo_policy deleted], w_sent = [] \<rparr>"

lemma demo_policy_disk: "policy_disk [''n''] (disk (w_os (demo_world b)))"
  by (simp add: policy_disk_def demo_world_def)

definition unreadable :: os_env where
  "unreadable = \<lparr> fault = (\<lambda>p. if p = ReadDirOp [''n''] then Some (IOFailure ''input/output error'') else None),
     short_write = 0, temp_numbers = [7] \<rparr>"

lemmas demo_reconcile_defs = demo_client_def demo_policy_def demo_world_def calm_def unreadable_def
  in_order_def [abs_def] FinalizerName_def

lemma demo_release_run:
  "fst (TrustPolicy_Reconcile demo_client id calm in_order [''n''] ''tp'' (demo_world True)) = Inr ()
   \<and> w_sent (snd (TrustPolicy_Reconcile demo_client id calm in_order [''n''] ''tp'' (demo_world True)))
       = [fst (RemoveFinalizer demo_client (demo_policy True) FinalizerName)]"
  unfolding demo_reconcile_defs by code_simp

lemma demo_reconcile_run:
  "fst (TrustPolicy_Reconcile demo_client id calm in_order [''n''] ''tp'' (demo_world False)) = Inr ()
   \<and> w_chan (snd (TrustPolicy_Reconcile demo_client id calm in_order [''n''] ''tp'' (demo_world False)))
       = Some \<lparr> chan_cap = 1, chan_len = 1 \<rparr>"
  unfolding demo_reconcile_defs by code_simp

definition demo_store :: TrustStore where
  "demo_store = \<lparr> om_Name = ''s'', Deleting = False, Finalizers = [], ts_Spec = \<lparr> TrustStoreName = ''aws'', ts_Type = ''ca'', CABundle = ''PEM'' \<rparr> \<rparr>"

definition demo_store_world :: "(TrustStore, TrustStore list) world" where
  "demo_store_world = \<lparr> w_os = \<lparr> disk = [([''n''], Dir)], hist = [] \<rparr>,
     w_chan = Some \<lparr> chan_cap = 1, chan_len = 0 \<rparr>, w_api = [demo_store], w_sent = [] \<rparr>"

lemma demo_store_run:
  "fst (TrustStore_Reconcile demo_client id calm in_order [''n''] ''s'' demo_store_world) = Inr ()
   \<and> length (w_sent (snd (TrustStore_Reconcile demo_client id calm in_order [''n''] ''s'' demo_store_world))) = 1"
  unfolding demo_reconcile_defs demo_store_world_def demo_store_def by code_simp

lemma demo_root: "filepath_Join [''n''] TrustStorePath = [''n'', ''truststore'', ''x509'']"
  by (simp add: filepath_Join_def TrustStorePath_def)

lemma demo_store_disk: "store_disk (filepath_Join [''n''] TrustStorePath) (disk (w_os demo_store_world))"
  unfolding demo_root
  by (auto simp: store_disk_def tree_disk_def plain_disk_def demo_store_world_def dirs_above_def is_dir_def
      plain_element_def no_links_def split: if_splits)

lemma demo_api_at_sync:
  "api_at_sync demo_client ''tp'' (w_api (demo_world False)) a \<Longrightarrow> c_List demo_client a = Inr items \<Longrightarrow> items = [demo_policy False]"
  "api_at_sync demo_client ''s'' (w_api demo_store_world) b \<Longrightarrow> c_List demo_client b = Inr stores \<Longrightarrow>
     \<exists>t. stores = [] @ t # [] \<and> ts_Spec t = ts_Spec demo_store \<and> Deleting t = Deleting demo_store"
  by (auto simp: api_at_sync_def demo_client_def demo_world_def demo_policy_def demo_store_world_def demo_store_def split: if_splits)

section \<open>A sync that finds everything in place\<close>

lemma syncPolicies_fails:
  "syncPolicies cl quote env ord dir w = (Inl e, w') \<Longrightarrow> w_chan w' = w_chan w \<and> w_api w' = w_api w"
  by (auto simp: syncPolicies_def split: sum.splits prod.splits option.splits)

text \<open>The files the API server asks for.\<close>

definition asks_for :: "(TrustPolicy, 'a) client \<Rightarrow> (string \<Rightarrow> string) \<Rightarrow> string gomap \<Rightarrow> 'a \<Rightarrow> bool" where
  "asks_for cl quote desired a \<longleftrightarrow> (\<exists>items. c_List cl a = Inr items \<and> desiredPolicies quote items [] = Inr desired)"

lemma syncPolicies_still:
  assumes "asks_for cl quote desired (w_api w)" and "policies_match dir desired (disk (w_os w))"
    and "no_faults env" and "range_order ord"
  shows "syncPolicies cl quote env ord dir w = (Inr (), w)"
proof -
  obtain items where l: "c_List cl (w_api w) = Inr items" and d: "desiredPolicies quote items [] = Inr desired"
    using assms(1) by (auto simp: asks_for_def)
  have "syncTrustPolicyFiles env ord dir desired (w_os w) = ((False, None), w_os w)"
    using desiredPolicies_keys [OF d] by (intro syncTrustPolicyFiles_still [OF assms(2-4)]) (simp_all add: wf_map_def)
  with l d show ?thesis by (simp add: syncPolicies_def sent_notify_def)
qed

lemma reconcile_still:
  assumes "\<And>a sent. api_at_sync cl req (w_api w) a \<Longrightarrow>
      sync (w\<lparr> w_api := a, w_sent := sent \<rparr>) = (Inr (), w\<lparr> w_api := a, w_sent := sent \<rparr>)"
  shows "w_os (snd (reconcileWith cl sync req w)) = w_os w \<and> w_chan (snd (reconcileWith cl sync req w)) = w_chan w"
proof (cases "c_Get cl (w_api w) req")
  case (Inl e)
  have "sync w = (Inr (), w)" using assms [of "w_api w" "w_sent w"] by (simp add: api_at_sync_def)
  with Inl show ?thesis by (auto simp: reconcileWith_def split: prod.split)
next
  case (Inr obj)
  define k where "k obj1 w1 = andThen (sync w1) (\<lambda>_ w2. if Deleting obj1
        then (case RemoveFinalizer cl obj1 FinalizerName of
                (obj2, removed) \<Rightarrow> if removed then andThen (update cl obj2 w2) (\<lambda>_ w3. (Inr (), w3)) else (Inr (), w2))
        else (Inr (), w2))" for obj1 w1
  have rest: "w_os (snd (k obj1 w1)) = w_os w \<and> w_chan (snd (k obj1 w1)) = w_chan w"
    if "sync w1 = (Inr (), w1)" and "w_os w1 = w_os w" and "w_chan w1 = w_chan w" for w1 obj1
  proof -
    have "w_os (snd (andThen (update cl y w1) (\<lambda>_ w3. (Inr (), w3)))) = w_os w1
        \<and> w_chan (snd (andThen (update cl y w1) (\<lambda>_ w3. (Inr (), w3)))) = w_chan w1" for y
      by (cases "c_Update cl (w_api w1) y"; cases "fst (c_Update cl (w_api w1) y)") (auto simp: update_def)
    with that show ?thesis by (simp add: k_def split: prod.split)
  qed
  have run: "reconcileWith cl sync req w = andThen
      (if \<not> Deleting obj
       then (case AddFinalizer cl obj FinalizerName of (obj', added) \<Rightarrow> if added then update cl obj' w else (Inr obj', w))
       else (Inr obj, w)) k"
    by (simp add: reconcileWith_def Inr k_def [abs_def])
  obtain obj' added where a: "AddFinalizer cl obj FinalizerName = (obj', added)" by fastforce
  obtain x y where u: "c_Update cl (w_api w) obj' = (x, y)" by fastforce
  have s0: "sync w = (Inr (), w)" using assms [of "w_api w" "w_sent w"] by (simp add: api_at_sync_def)
  have s1: "sync (w\<lparr> w_api := y, w_sent := w_sent w @ [obj'] \<rparr>) = (Inr (), w\<lparr> w_api := y, w_sent := w_sent w @ [obj'] \<rparr>)"
    by (rule assms) (simp add: api_at_sync_def Inr a u)
  show ?thesis
  proof (cases "\<not> Deleting obj \<and> added")
    case True
    with a u rest [OF s1] show ?thesis by (cases x) (simp_all add: run update_def)
  next
    case False
    with a have "reconcileWith cl sync req w = k (if Deleting obj then obj else obj') w" by (auto simp: run)
    with rest [OF s0] show ?thesis by simp
  qed
qed

section \<open>Properties\<close>

text \<open>
  C10. The finalizer of a deleted TrustPolicy is released only after its file is gone: if the
  reconcile of an object that is being deleted sends any update at all, it is the one that
  removes the finalizer, and at that point the policy file does not exist, unless another live
  policy uses the same file name.
\<close>

theorem finalizer_released_last:
  assumes "TrustPolicy_Reconcile cl quote env ord dir req w = (r, w')"
    and "c_Get cl (w_api w) req = Inr policy" and "Deleting policy" and "w_sent w' \<noteq> w_sent w"
    and "range_order ord" and "policy_disk dir (disk (w_os w))" and "c_List cl (w_api w) = Inr items"
    and "\<forall>p \<in> set items. \<not> Deleting p \<longrightarrow> TrustPolicyName (tp_Spec p) \<noteq> TrustPolicyName (tp_Spec policy)"
  shows "w_sent w' = w_sent w @ [fst (RemoveFinalizer cl policy FinalizerName)]
    \<and> map_of (disk (w_os w')) (dir @ [TrustPolicyName (tp_Spec policy) @ ''.json'']) \<in> {None, Some Dir}"
proof -
  note R = policies.release_after_sync [OF assms(1) [unfolded TrustPolicy_Reconcile_def] assms(2-4) conjI [OF assms(5,6)]]
  then obtain desired where d: "desiredPolicies quote items [] = Inr desired"
    and match: "policies_match dir desired (disk (w_os w'))"
    using assms(7) by (auto simp: policies_good_def)
  let ?n = "TrustPolicyName (tp_Spec policy) @ ''.json''"
  have "map_of desired ?n = None"
  proof (cases "map_of desired ?n")
    case (Some x)
    from desiredPolicies_source [OF d this] assms(8) show ?thesis by (auto simp: eligible_def)
  qed
  with match R show ?thesis by (simp add: policies_match_def Ext_json)
qed

theorem finalizer_released_last_witness:
  "map_of (disk (w_os (snd (TrustPolicy_Reconcile demo_client id calm in_order [''n''] ''tp'' (demo_world True)))))
     ([''n''] @ [''tp'' @ ''.json'']) \<in> {None, Some Dir}"
proof -
  let ?r = "TrustPolicy_Reconcile demo_client id calm in_order [''n''] ''tp'' (demo_world True)"
  have sent: "w_sent (snd ?r) \<noteq> w_sent (demo_world True)"
    using demo_release_run by (simp add: demo_world_def)
  have "TrustPolicyName (tp_Spec (demo_policy True)) = ''tp''" by (simp add: demo_policy_def)
  with finalizer_released_last [OF surjective_pairing _ _ sent range_order_in_order demo_policy_disk, of "demo_policy True" "[demo_policy True]"]
  show ?thesis by (simp add: demo_client_def demo_world_def demo_policy_def)
qed

text \<open>
  C11. A reconcile of trust policies that returns no error leaves exactly the policy files the API
  server asks for, as it answered at the time of the sync: every policy that is not being deleted
  and whose name is a single path element has its file, with its own specification in it unless a
  later listed one has the same name, and no other JSON file is left in the directory. Whenever a
  path below the directory changed a notification was sent.
\<close>

theorem TrustPolicy_Reconcile_ok:
  assumes "TrustPolicy_Reconcile cl quote env ord dir req w = (Inr (), w')"
    and "range_order ord" and "policy_disk dir (disk (w_os w))"
  shows "\<exists>a items. api_at_sync cl req (w_api w) a \<and> c_List cl a = Inr items
    \<and> policies_on_disk dir items (disk (w_os w'))
    \<and> (w_chan w' = notify (w_chan w)
        \<or> w_chan w' = w_chan w \<and> (\<forall>q. length dir < length q \<longrightarrow> map_of (disk (w_os w')) q = map_of (disk (w_os w)) q))"
proof -
  obtain a items desired where a: "api_at_sync cl req (w_api w) a"
    and l: "c_List cl a = Inr items" and d: "desiredPolicies quote items [] = Inr desired"
    and match: "policies_match dir desired (disk (w_os w'))"
    and ch: "w_chan w' = notify (w_chan w) \<or> w_chan w' = w_chan w \<and> same_below dir (disk (w_os w)) (disk (w_os w'))"
    using policies.reconcile_ok [OF assms(1) [unfolded TrustPolicy_Reconcile_def] conjI [OF assms(2,3)]]
    unfolding policies_good_def by blast
  with policies_match_on_disk [OF d match] show ?thesis unfolding same_below_def by blast
qed

theorem TrustPolicy_Reconcile_ok_witness:
  "\<exists>w' data m. TrustPolicy_Reconcile demo_client id calm in_order [''n''] ''tp'' (demo_world False) = (Inr (), w')
     \<and> policy_file (tp_Spec (demo_policy False)) = Inr data
     \<and> map_of (disk (w_os w')) ([''n''] @ [''tp'' @ ''.json'']) = Some (File data m)
     \<and> map_of (disk (w_os w')) ([''n''] @ [''other.json'']) \<in> {None, Some Dir}"
proof -
  let ?w = "snd (TrustPolicy_Reconcile demo_client id calm in_order [''n''] ''tp'' (demo_world False))"
  have run: "TrustPolicy_Reconcile demo_client id calm in_order [''n''] ''tp'' (demo_world False) = (Inr (), ?w)"
    using demo_reconcile_run by (metis prod.collapse)
  obtain items where items: "items = [] @ demo_policy False # []"
    and on: "policies_on_disk [''n''] items (disk (w_os ?w))"
    using TrustPolicy_Reconcile_ok [OF run range_order_in_order demo_policy_disk] demo_api_at_sync(1)
    unfolding append_Nil by (elim exE conjE) blast
  have "live_policy (demo_policy False)" by (simp add: live_policy_def valid_name_def demo_policy_def)
  with on items have "\<exists>data m. policy_file (tp_Spec (demo_policy False)) = Inr data
      \<and> map_of (disk (w_os ?w)) ([''n''] @ [TrustPolicyName (tp_Spec (demo_policy False)) @ ''.json'']) = Some (File data m)"
    unfolding policies_on_disk_def by (metis empty_iff list.set(1))
  moreover have "map_of (disk (w_os ?w)) ([''n''] @ [''other.json'']) \<in> {None, Some Dir}"
  proof -
    have "Ext ''other.json'' = ''.json''" using Ext_json [of "''other''"] by simp
    then show ?thesis using on items unfolding policies_on_disk_def by (simp add: demo_policy_def)
  qed
  moreover have "TrustPolicyName (tp_Spec (demo_policy False)) = ''tp''" by (simp add: demo_policy_def)
  ultimately show ?thesis using run by metis
qed

text \<open>
  C12. The same for trust stores, where no symbolic link stands at, above or below the root: a
  reconcile that returns no error leaves the certificate bundle of every store that is not being
  deleted and whose type and name are single path elements in the file of this type and name
  (the last listed one's, if there are several), and nothing at or below any other store of a type
  directory; whenever a path below the root changed a notification was sent. The finalizer of a
  deleted store is released only when the tree is like this.
\<close>

theorem TrustStore_Reconcile_ok:
  fixes dir :: path
  defines "root \<equiv> filepath_Join dir TrustStorePath"
  assumes "TrustStore_Reconcile cl quote env ord dir req w = (r, w')"
    and "range_order ord" and "store_disk root (disk (w_os w))"
  shows "(r = Inr () \<longrightarrow> (\<exists>a items. api_at_sync cl req (w_api w) a
        \<and> c_List cl a = Inr items \<and> stores_on_disk root items (disk (w_os w'))
        \<and> (w_chan w' = notify (w_chan w)
            \<or> w_chan w' = w_chan w \<and> (\<forall>q. length root < length q \<longrightarrow> map_of (disk (w_os w')) q = map_of (disk (w_os w)) q))))
    \<and> (\<forall>store. c_Get cl (w_api w) req = Inr store \<longrightarrow> Deleting store \<longrightarrow> w_sent w' \<noteq> w_sent w \<longrightarrow>
         w_sent w' = w_sent w @ [fst (RemoveFinalizer cl store FinalizerName)]
         \<and> (\<exists>items. c_List cl (w_api w) = Inr items \<and> stores_on_disk root items (disk (w_os w'))))"
proof (intro conjI allI impI)
  assume "r = Inr ()"
  with stores.reconcile_ok [of cl quote env ord dir req w w'] assms(2-4)
  obtain a where a: "api_at_sync cl req (w_api w) a" and good: "stores_good cl quote root a (disk (w_os w'))"
    and ch: "w_chan w' = notify (w_chan w) \<or> w_chan w' = w_chan w \<and> same_below root (disk (w_os w)) (disk (w_os w'))"
    unfolding root_def TrustStore_Reconcile_def by blast
  from good obtain items where "c_List cl a = Inr items" and "stores_on_disk root items (disk (w_os w'))"
    unfolding stores_good_def using stores_match_on_disk by blast
  with a ch show "\<exists>a items. api_at_sync cl req (w_api w) a
        \<and> c_List cl a = Inr items \<and> stores_on_disk root items (disk (w_os w'))
        \<and> (w_chan w' = notify (w_chan w)
            \<or> w_chan w' = w_chan w \<and> (\<forall>q. length root < length q \<longrightarrow> map_of (disk (w_os w')) q = map_of (disk (w_os w)) q))"
    unfolding same_below_def by blast
next
  fix store assume "c_Get cl (w_api w) req = Inr store" and "Deleting store" and "w_sent w' \<noteq> w_sent w"
  with stores.release_after_sync [of cl quote env ord dir req w r w' store] assms(2-4)
  have R: "stores_good cl quote root (w_api w) (disk (w_os w')) \<and> w_sent w' = w_sent w @ [fst (RemoveFinalizer cl store FinalizerName)]"
    unfolding root_def TrustStore_Reconcile_def by blast
  then show "w_sent w' = w_sent w @ [fst (RemoveFinalizer cl store FinalizerName)]" by blast
  from R show "\<exists>items. c_List cl (w_api w) = Inr items \<and> stores_on_disk root items (disk (w_os w'))"
    unfolding stores_good_def using stores_match_on_disk by blast
qed

theorem TrustStore_Reconcile_ok_witness:
  "\<exists>m. map_of (disk (w_os (snd (TrustStore_Reconcile demo_client id calm in_order [''n''] ''s'' demo_store_world))))
     (filepath_Join [''n''] TrustStorePath @ [''ca'', ''aws'', ''certificates.crt'']) = Some (File ''PEM'' m)"
proof -
  let ?w = "snd (TrustStore_Reconcile demo_client id calm in_order [''n''] ''s'' demo_store_world)"
  have run: "TrustStore_Reconcile demo_client id calm in_order [''n''] ''s'' demo_store_world = (Inr (), ?w)"
    using demo_store_run by (metis prod.collapse)
  obtain items t where items: "items = [] @ t # []" and t: "ts_Spec t = ts_Spec demo_store" "Deleting t = Deleting demo_store"
    and on: "stores_on_disk (filepath_Join [''n''] TrustStorePath) items (disk (w_os ?w))"
    using TrustStore_Reconcile_ok [OF run range_order_in_order demo_store_disk] demo_api_at_sync(2)
    by (elim conjE impE exE) (rule refl, blast)
  have "live_store t" using t by (simp add: live_store_def valid_name_def demo_store_def)
  with on items have "\<exists>m. map_of (disk (w_os ?w)) (filepath_Join [''n''] TrustStorePath @ [ts_Type (ts_Spec t), TrustStoreName (ts_Spec t), ''certificates.crt''])
      = Some (File (CABundle (ts_Spec t)) m)"
    unfolding stores_on_disk_def by (metis empty_iff list.set(1))
  then show ?thesis by (simp add: t demo_store_def)
qed

text \<open>
  C39. A change can go unnoticed. A sync of the trust policies that fails sends no notification, whatever
  it wrote before. If it has written all the files the API server asks for, then from there on no
  reconcile of any object that meets no fault changes or notifies anything, as long as the server
  asks for the same files: the new policies stay on the disk and the verifiers are not reloaded.
\<close>

theorem change_without_notification:
  assumes "syncPolicies cl quote env ord dir w = (Inl e, w1)"
    and "policies_match dir desired (disk (w_os w1))"
    and "w_os w2 = w_os w1" and "no_faults env'" and "range_order ord'"
    and "\<forall>a. api_at_sync cl req (w_api w2) a \<longrightarrow> asks_for cl quote desired a"
  shows "w_chan w1 = w_chan w
    \<and> w_os (snd (TrustPolicy_Reconcile cl quote env' ord' dir req w2)) = w_os w1
    \<and> w_chan (snd (TrustPolicy_Reconcile cl quote env' ord' dir req w2)) = w_chan w2"
proof -
  have "syncPolicies cl quote env' ord' dir (w2\<lparr> w_api := a, w_sent := sent \<rparr>) = (Inr (), w2\<lparr> w_api := a, w_sent := sent \<rparr>)"
    if "api_at_sync cl req (w_api w2) a" for a sent
    by (rule syncPolicies_still [OF _ _ assms(4,5), of _ _ desired]) (use that assms in auto)
  from reconcile_still [of cl req w2 "syncPolicies cl quote env' ord' dir", OF this] syncPolicies_fails [OF assms(1)] assms(3)
  show ?thesis by (simp add: TrustPolicy_Reconcile_def)
qed

text \<open>The policy is written and then the directory cannot be read; the retry finds the file in place.\<close>

lemma demo_unnoticed:
  "fst (syncPolicies demo_client id unreadable in_order [''n''] (demo_world False)) = Inl (Err ''input/output error'')
   \<and> disk (w_os (snd (syncPolicies demo_client id unreadable in_order [''n''] (demo_world False))))
       = [([''n''], Dir), ([''n'', ''tp.json''], File (projr (policy_file (tp_Spec (demo_policy False)))) perm600)]"
  unfolding demo_reconcile_defs by code_simp

theorem change_without_notification_witness:
  "let first = syncPolicies demo_client id unreadable in_order [''n''] (demo_world False);
       retry = TrustPolicy_Reconcile demo_client id calm in_order [''n''] ''tp'' (snd first)
   in fst first = Inl (Err ''input/output error'')
      \<and> map_of (disk (w_os (demo_world False))) [''n'', ''tp.json''] = None
      \<and> map_of (disk (w_os (snd retry))) [''n'', ''tp.json''] \<noteq> None
      \<and> w_chan (snd retry) = w_chan (demo_world False)"
proof -
  let ?first = "syncPolicies demo_client id unreadable in_order [''n''] (demo_world False)"
  let ?data = "projr (policy_file (tp_Spec (demo_policy False)))"
  have run: "?first = (Inl (Err ''input/output error''), snd ?first)"
    using demo_unnoticed by (metis prod.collapse)
  have match: "policies_match [''n''] [(''tp.json'', ?data)] (disk (w_os (snd ?first)))"
    using demo_unnoticed by (simp add: policies_match_def dirs_above_prefixes is_dir_def)
  have "w_api (snd ?first) = w_api (demo_world False)" using syncPolicies_fails [OF run] by simp
  moreover have "asks_for demo_client id [(''tp.json'', ?data)] a"
    if "api_at_sync demo_client ''tp'' (w_api (demo_world False)) a" for a
  proof -
    have "c_List demo_client a = Inr [demo_policy False]"
      using demo_api_at_sync(1) [OF that] by (simp add: demo_client_def)
    moreover have "desiredPolicies id [demo_policy False] [] = Inr [(''tp.json'', ?data)]"
      by (simp add: demo_policy_def validateFileName_def ContainsAny_def policy_file_def map_set_def)
    ultimately show ?thesis by (simp add: asks_for_def)
  qed
  ultimately have "w_chan (snd ?first) = w_chan (demo_world False)
      \<and> w_os (snd (TrustPolicy_Reconcile demo_client id calm in_order [''n''] ''tp'' (snd ?first))) = w_os (snd ?first)
      \<and> w_chan (snd (TrustPolicy_Reconcile demo_client id calm in_order [''n''] ''tp'' (snd ?first))) = w_chan (snd ?first)"
    by (intro change_without_notification [OF run match refl no_faults_calm range_order_in_order]) simp
  then show ?thesis using demo_unnoticed by (simp add: Let_def demo_world_def)
qed

end
