(* ===== verification/Plugins.thy ===== *)
theory Plugins
  imports Directory Factory
begin

text \<open>
  Preparation of the notation directory (\<^verbatim>\<open>internal/setup/plugins.go\<close>, \<^verbatim>\<open>internal/setup/setup.go\<close>): the plugin
  binaries are copied below \<^verbatim>\<open>NOTATION_DIR\<close> and notation is pointed there. The directories named by
  the environment are absolute paths. An \<^verbatim>\<open>os.Root\<close> is the path of its directory: a symbolic link
  that leaves it is an error, and creating directories does not go through a link. Modes of
  directories are not modelled. \<open>umask\<close> is what the process mask makes of the mode of a new file.

  \<^verbatim>\<open>fs.WalkDir\<close> visits the entries below the source in lexical order, a directory before its
  contents; the walk is taken of the disk before the copy, which is the same when the destination
  is not inside the source.
\<close>

section \<open>Rooted file access\<close>

definition abs_path :: "string \<Rightarrow> path" where
  "abs_path s = clean_onto [] (Split s (CHR ''/''))"

fun follow_in :: "nat \<Rightarrow> path \<Rightarrow> disk \<Rightarrow> path \<Rightarrow> io_error + path" where
  "follow_in 0 root d p = Inl (ErrOther ''too many levels of symbolic links'')"
| "follow_in (Suc n) root d p =
     (if \<not> prefix root p then Inl (ErrOther ''path escapes from parent'')
      else case map_of d p of Some (Symlink t) \<Rightarrow> follow_in n root d t | _ \<Rightarrow> Inr p)"

definition root_ReadFile :: "os_env \<Rightarrow> os \<Rightarrow> path \<Rightarrow> path \<Rightarrow> io_error + string" where
  "root_ReadFile env s root p =
     (case fault env (ReadOp p) of
        Some f \<Rightarrow> Inl (of_fault f)
      | None \<Rightarrow> (case follow_in 41 root (disk s) p of Inl e \<Rightarrow> Inl e | Inr q \<Rightarrow> read_node (disk s) q))"

text \<open>\<^verbatim>\<open>WriteFile\<close>: open with create and truncate, write, close.\<close>

definition root_OpenFile :: "(nat \<Rightarrow> nat) \<Rightarrow> os_env \<Rightarrow> os \<Rightarrow> path \<Rightarrow> path \<Rightarrow> nat \<Rightarrow> (io_error + path) \<times> os" where
  "root_OpenFile umask env s root p perm =
     (case fault env (OpenOp p) of
        Some f \<Rightarrow> (Inl (of_fault f), s)
      | None \<Rightarrow>
          (case follow_in 41 root (disk s) p of
             Inl e \<Rightarrow> (Inl e, s)
           | Inr q \<Rightarrow>
               (case map_of (disk s) q of
                  Some (File c m) \<Rightarrow> (Inr q, commit s (AList.update q (File [] m) (disk s)))
                | Some _ \<Rightarrow> (Inl (ErrOther ''is a directory''), s)
                | None \<Rightarrow>
                    if is_dir (disk s) (butlast q)
                    then (Inr q, commit s (AList.update q (File [] (umask perm)) (disk s)))
                    else (Inl (missing (disk s) q), s))))"

definition root_WriteFile :: "(nat \<Rightarrow> nat) \<Rightarrow> os_env \<Rightarrow> os \<Rightarrow> path \<Rightarrow> path \<Rightarrow> string \<Rightarrow> nat \<Rightarrow> io_error option \<times> os" where
  "root_WriteFile umask env s root p data perm =
     (case root_OpenFile umask env s root p perm of
        (Inl e, s1) \<Rightarrow> (Some e, s1)
      | (Inr q, s1) \<Rightarrow>
          (case os_Write env s1 q data of
             (Some e, s2) \<Rightarrow> (Some e, s2)
           | (None, s2) \<Rightarrow> (os_Close env s2 q, s2)))"

definition root_Chmod :: "os_env \<Rightarrow> os \<Rightarrow> path \<Rightarrow> path \<Rightarrow> nat \<Rightarrow> io_error option \<times> os" where
  "root_Chmod env s root p perm =
     (case follow_in 41 root (disk s) p of Inl e \<Rightarrow> (Some e, s) | Inr q \<Rightarrow> os_Chmod env s q perm)"

section \<open>Copying\<close>

definition pluginPerm :: nat where
  "pluginPerm = perm755"

definition walk :: "disk \<Rightarrow> path \<Rightarrow> path list" where
  "walk d root =
     map (drop (length root))
       (sort (filter (\<lambda>p. length root < length p \<and> take (length root) p = root) (remdups (map fst d))))"

fun copyEntries :: "(nat \<Rightarrow> nat) \<Rightarrow> os_env \<Rightarrow> path \<Rightarrow> path \<Rightarrow> path list \<Rightarrow> os \<Rightarrow> io_error option \<times> os" where
  "copyEntries umask env source destination [] s = (None, s)"
| "copyEntries umask env source destination (rel # rest) s =
     (if map_of (disk s) (source @ rel) = Some Dir
      then (case os_MkdirAll env s (destination @ rel) of
              (Some e, s1) \<Rightarrow> (Some e, s1)
            | (None, s1) \<Rightarrow>
                (case fault env (ReadDirOp (source @ rel)) of
                   Some f \<Rightarrow> (Some (of_fault f), s1)
                 | None \<Rightarrow> copyEntries umask env source destination rest s1))
      else (case root_ReadFile env s source (source @ rel) of
              Inl e \<Rightarrow> (Some e, s)
            | Inr data \<Rightarrow>
                (case root_WriteFile umask env s destination (destination @ rel) data pluginPerm of
                   (Some e, s1) \<Rightarrow> (Some e, s1)
                 | (None, s1) \<Rightarrow>
                     (case root_Chmod env s1 destination (destination @ rel) pluginPerm of
                        (Some e, s2) \<Rightarrow> (Some e, s2)
                      | (None, s2) \<Rightarrow> copyEntries umask env source destination rest s2))))"

definition os_OpenRoot :: "os_env \<Rightarrow> os \<Rightarrow> path \<Rightarrow> io_error option" where
  "os_OpenRoot env s p =
     (case fault env (OpenOp p) of
        Some f \<Rightarrow> Some (of_fault f)
      | None \<Rightarrow> if is_dir (disk s) p then None
                else if map_of (disk s) p = None then Some (missing (disk s) p) else Some (ErrOther ''not a directory''))"

definition copyTree :: "(nat \<Rightarrow> nat) \<Rightarrow> os_env \<Rightarrow> path \<Rightarrow> path \<Rightarrow> os \<Rightarrow> io_error option \<times> os" where
  "copyTree umask env source destination s =
     (case os_OpenRoot env s source of
        Some e \<Rightarrow> (Some e, s)
      | None \<Rightarrow>
          (case os_OpenRoot env s destination of
             Some e \<Rightarrow> (Some e, s)
           | None \<Rightarrow>
               (case fault env (ReadDirOp source) of
                  Some f \<Rightarrow> (Some (of_fault f), s)
                | None \<Rightarrow> copyEntries umask env source destination (walk (disk s) source) s)))"

definition installPlugins :: "(nat \<Rightarrow> nat) \<Rightarrow> (string \<Rightarrow> string) \<Rightarrow> os_env \<Rightarrow> os \<Rightarrow> gerr option \<times> os" where
  "installPlugins umask Getenv env s =
     (let sourceDir = Getenv ''PLUGINS_DIR''; notationDir = Getenv ''NOTATION_DIR''
      in if sourceDir = [] then (Some (Err ''missing PLUGINS_DIR''), s)
         else if notationDir = [] then (Some (Err ''missing NOTATION_DIR''), s)
         else
           (let destinationDir = filepath_Join (abs_path notationDir) ''plugins''
            in case os_MkdirAll env s destinationDir of
                 (Some e, s1) \<Rightarrow> (Some (io_err e), s1)
               | (None, s1) \<Rightarrow>
                   (case copyTree umask env (abs_path sourceDir) destinationDir s1 of
                      (Some e, s2) \<Rightarrow> (Some (wrap (''failed to copy '' @ sourceDir @ '' to '' @ path_text destinationDir) (io_err e)), s2)
                    | (None, s2) \<Rightarrow> (None, s2))))"

record notation_dirs =
  UserConfigDir :: string
  UserLibexecDir :: string

definition Local ::
    "(nat \<Rightarrow> nat) \<Rightarrow> (string \<Rightarrow> string) \<Rightarrow> os_env \<Rightarrow> os \<Rightarrow> notation_dirs \<Rightarrow> gerr option \<times> os \<times> notation_dirs" where
  "Local umask Getenv env s dirs =
     (case installPlugins umask Getenv env s of
        (Some e, s1) \<Rightarrow> (Some (wrap ''failed to install plugins'' e), s1, dirs)
      | (None, s1) \<Rightarrow>
          (None, s1, dirs\<lparr> UserConfigDir := Getenv ''NOTATION_DIR'', UserLibexecDir := Getenv ''NOTATION_DIR'' \<rparr>))"

section \<open>Lemmas\<close>

lemma follow_in_plain:
  "prefix root p \<Longrightarrow> (\<And>t. map_of d p \<noteq> Some (Symlink t)) \<Longrightarrow> follow_in 41 root d p = Inr p"
  by (simp add: numeral_eq_Suc split: option.splits node.splits)

text \<open>Writing one file below the root and setting its mode.\<close>

lemma root_OpenFile_ok:
  assumes "root_OpenFile umask env s root p perm = (Inr q, s1)" and "prefix root p"
    and "\<And>t. map_of (disk s) p \<noteq> Some (Symlink t)"
  shows "q = p \<and> (\<exists>m. map_of (disk s1) p = Some (File [] m)) \<and> (\<forall>x. x \<noteq> p \<longrightarrow> map_of (disk s1) x = map_of (disk s) x)
    \<and> map_of (disk s) p \<noteq> Some Dir"
  using assms(1) follow_in_plain [OF assms(2,3)]
  by (auto simp: root_OpenFile_def update_conv' split: option.splits node.splits if_splits)

lemma os_Write_ok:
  assumes "os_Write env s p data = (None, s1)" and "map_of (disk s) p = Some (File c m)"
  shows "map_of (disk s1) p = Some (File data m) \<and> (\<forall>x. x \<noteq> p \<longrightarrow> map_of (disk s1) x = map_of (disk s) x)"
  using assms by (auto simp: os_Write_def set_content_def update_conv' split: option.splits)

lemma copy_file:
  assumes wr: "root_WriteFile umask env s root p data perm = (None, s1)" and ch: "root_Chmod env s1 root p perm = (None, s2)"
    and root: "prefix root p" and link: "\<And>t. map_of (disk s) p \<noteq> Some (Symlink t)"
  shows "map_of (disk s2) p = Some (File data perm)" and "q \<noteq> p \<Longrightarrow> map_of (disk s2) q = map_of (disk s) q"
    and "map_of (disk s) p \<noteq> Some Dir"
proof -
  from wr obtain q0 s0 where o0: "root_OpenFile umask env s root p perm = (Inr q0, s0)" and w: "os_Write env s0 q0 data = (None, s1)"
    by (auto simp: root_WriteFile_def split: prod.splits sum.splits option.splits)
  note A = root_OpenFile_ok [OF o0 root link]
  then obtain m where m: "map_of (disk s0) p = Some (File [] m)" and q0: "q0 = p" by blast
  note B = os_Write_ok [OF w [unfolded q0] m]
  have "follow_in 41 root (disk s1) p = Inr p" using B by (intro follow_in_plain [OF root]) auto
  with ch B have C: "map_of (disk s2) p = Some (File data perm) \<and> (\<forall>x. x \<noteq> p \<longrightarrow> map_of (disk s2) x = map_of (disk s1) x)"
    by (auto simp: root_Chmod_def os_Chmod_def update_conv' split: option.splits)
  show "map_of (disk s2) p = Some (File data perm)" and "map_of (disk s) p \<noteq> Some Dir" using A C by auto
  show "map_of (disk s2) q = map_of (disk s) q" if "q \<noteq> p" using A B C that by simp
qed

lemma copyEntries_file:
  assumes "copyEntries umask env source destination (rel # rest) s = (None, s')" and "map_of (disk s) (source @ rel) = Some (File c m)"
    and "source @ rel \<noteq> []"
  obtains s1 s2 where "root_WriteFile umask env s destination (destination @ rel) c pluginPerm = (None, s1)"
    and "root_Chmod env s1 destination (destination @ rel) pluginPerm = (None, s2)"
    and "copyEntries umask env source destination rest s2 = (None, s')"
proof -
  have "follow_in 41 source (disk s) (source @ rel) = Inr (source @ rel)" using assms(2) by (intro follow_in_plain) auto
  then have "root_ReadFile env s source (source @ rel) = Inr c" if "fault env (ReadOp (source @ rel)) = None"
    using that assms(2,3) by (simp add: root_ReadFile_def read_node_File)
  moreover have "\<exists>x. root_ReadFile env s source (source @ rel) = Inr x"
    using assms(1,2) by (auto split: sum.splits)
  ultimately have "root_ReadFile env s source (source @ rel) = Inr c"
    by (cases "fault env (ReadOp (source @ rel))") (auto simp: root_ReadFile_def)
  with assms(1,2) that show ?thesis by (auto split: prod.splits option.splits)
qed

definition copied :: "path \<Rightarrow> path \<Rightarrow> path \<Rightarrow> disk \<Rightarrow> disk \<Rightarrow> bool" where
  "copied source destination rel d d' \<longleftrightarrow>
     (\<forall>c m. map_of d (source @ rel) = Some (File c m) \<longrightarrow> map_of d' (destination @ rel) = Some (File c pluginPerm))
     \<and> (map_of d (source @ rel) = Some Dir \<longrightarrow> map_of d' (destination @ rel) = Some Dir)"

text \<open>Source and destination are apart, nothing but files and directories is copied, and no
  target is a symbolic link.\<close>

definition copyable :: "path \<Rightarrow> path \<Rightarrow> path list \<Rightarrow> disk \<Rightarrow> bool" where
  "copyable source destination rels d \<longleftrightarrow> (\<forall>a b. destination @ a \<noteq> source @ b) \<and> distinct rels
     \<and> (\<forall>rel \<in> set rels. rel \<noteq> [] \<and> (\<forall>t. map_of d (destination @ rel) \<noteq> Some (Symlink t))
          \<and> (map_of d (source @ rel) = Some Dir \<or> (\<exists>c m. map_of d (source @ rel) = Some (File c m))))"

text \<open>The root of the file system has no entry of its own.\<close>

lemma os_MkdirAll_root: "os_MkdirAll env s dir = (e, s') \<Longrightarrow> map_of (disk s') [] = map_of (disk s) []"
  unfolding os_MkdirAll_def using mkdir_each_ok [of env "map (\<lambda>n. take (Suc n) dir) [0..<length dir]" s e s'] by force

lemma copyEntry_ok:
  assumes run: "copyEntries umask env source destination (rel # rest) s = (None, s')"
    and ok: "copyable source destination (rel # rest) (disk s)"
  obtains s2 where "copyEntries umask env source destination rest s2 = (None, s')"
    and "copied source destination rel (disk s) (disk s2)" and "map_of (disk s2) (destination @ rel) \<noteq> None"
    and "\<And>q. q \<noteq> destination @ rel \<Longrightarrow> map_of (disk s2) q = map_of (disk s) q
        \<or> map_of (disk s) q = None \<and> map_of (disk s2) q = Some Dir \<and> q \<noteq> [] \<and> prefix q (destination @ rel)"
    and "\<And>t. map_of (disk s2) (destination @ rel) \<noteq> Some (Symlink t)"
proof (cases "map_of (disk s) (source @ rel) = Some Dir")
  case True
  with run obtain s1 where mk: "os_MkdirAll env s (destination @ rel) = (None, s1)"
    and rest: "copyEntries umask env source destination rest s1 = (None, s')"
    by (auto split: prod.splits option.splits)
  have "rel \<noteq> []" using ok by (simp add: copyable_def)
  with dirs_above_is_dir [OF os_MkdirAll_ok(2) [OF mk refl]] have d: "map_of (disk s1) (destination @ rel) = Some Dir"
    by (simp add: is_dir_def)
  show ?thesis
  proof (rule that [OF rest])
    show "copied source destination rel (disk s) (disk s1)" using True d by (simp add: copied_def)
    show "map_of (disk s1) q = map_of (disk s) q
        \<or> map_of (disk s) q = None \<and> map_of (disk s1) q = Some Dir \<and> q \<noteq> [] \<and> prefix q (destination @ rel)" for q
      using os_MkdirAll_ok(1) [OF mk, of q] os_MkdirAll_root [OF mk] by auto
  qed (use d in auto)
next
  case False
  with ok obtain c m where f: "map_of (disk s) (source @ rel) = Some (File c m)" by (auto simp: copyable_def)
  have ne: "source @ rel \<noteq> []" using ok by (simp add: copyable_def)
  from run f ne obtain s1 s2 where wr: "root_WriteFile umask env s destination (destination @ rel) c pluginPerm = (None, s1)"
    and ch: "root_Chmod env s1 destination (destination @ rel) pluginPerm = (None, s2)"
    and rest: "copyEntries umask env source destination rest s2 = (None, s')"
    by (rule copyEntries_file)
  have "map_of (disk s) (destination @ rel) \<noteq> Some (Symlink t)" for t using ok by (simp add: copyable_def)
  note C = copy_file [OF wr ch prefixI [OF refl] this]
  show ?thesis
    by (rule that [OF rest]) (use C f in \<open>auto simp: copied_def\<close>)
qed

lemma copyEntries_ok:
  assumes "copyEntries umask env source destination rels s = (None, s')" and "copyable source destination rels (disk s)"
  shows "(\<forall>rel \<in> set rels. copied source destination rel (disk s) (disk s'))
    \<and> (\<forall>q. q \<notin> (\<lambda>rel. destination @ rel) ` set rels \<longrightarrow> map_of (disk s') q = map_of (disk s) q
         \<or> map_of (disk s) q = None \<and> map_of (disk s') q = Some Dir \<and> q \<noteq> [] \<and> (\<exists>rel \<in> set rels. prefix q (destination @ rel)))"
  using assms
proof (induction rels arbitrary: s)
  case Nil
  then show ?case by simp
next
  case (Cons rel rels)
  from Cons.prems obtain s2 where run: "copyEntries umask env source destination rels s2 = (None, s')"
    and c: "copied source destination rel (disk s) (disk s2)" and p: "map_of (disk s2) (destination @ rel) \<noteq> None"
    and frame: "\<And>q. q \<noteq> destination @ rel \<Longrightarrow> map_of (disk s2) q = map_of (disk s) q
        \<or> map_of (disk s) q = None \<and> map_of (disk s2) q = Some Dir \<and> q \<noteq> [] \<and> prefix q (destination @ rel)"
    and l: "\<And>t. map_of (disk s2) (destination @ rel) \<noteq> Some (Symlink t)"
    by (rule copyEntry_ok) blast
  note ok = Cons.prems(2) [unfolded copyable_def]
  have src: "map_of (disk s2) (source @ b) = map_of (disk s) (source @ b)" if "map_of (disk s) (source @ b) \<noteq> None" for b
  proof -
    have "source @ b \<noteq> destination @ rel" using ok by metis
    with frame that show ?thesis by metis
  qed
  have srcs: "map_of (disk s2) (source @ k) = map_of (disk s) (source @ k)" if "k \<in> set rels" for k
    using ok that by (intro src) auto
  have "map_of (disk s2) (destination @ k) \<noteq> Some (Symlink t)" if "k \<in> set rels" for k t
    using l frame [of "destination @ k"] ok that by (cases "k = rel") auto
  then have "copyable source destination rels (disk s2)"
    using ok srcs unfolding copyable_def by simp
  note IH = Cons.IH [OF run this]
  have fresh: "destination @ rel \<notin> (\<lambda>rel. destination @ rel) ` set rels" using ok by auto
  then have "map_of (disk s') (destination @ rel) = map_of (disk s2) (destination @ rel)"
    using spec [OF conjunct2 [OF IH], of "destination @ rel"] p by auto
  then have "copied source destination rel (disk s) (disk s')" using c by (simp add: copied_def)
  moreover have "copied source destination k (disk s) (disk s')" if "k \<in> set rels" for k
    using IH that srcs [OF that] by (simp add: copied_def)
  moreover have "map_of (disk s') q = map_of (disk s) q
         \<or> map_of (disk s) q = None \<and> map_of (disk s') q = Some Dir \<and> q \<noteq> [] \<and> (\<exists>k \<in> set (rel # rels). prefix q (destination @ k))"
    if "q \<notin> (\<lambda>k. destination @ k) ` set (rel # rels)" for q
    using that spec [OF conjunct2 [OF IH], of q] frame [of q] by auto
  ultimately show ?case by simp
qed

text \<open>What this frame says outside the destination, and below it beside the copies.\<close>

lemma copied_outside:
  assumes frame: "\<forall>q. q \<notin> (\<lambda>rel. destination @ rel) ` W \<longrightarrow> map_of d' q = map_of d q
         \<or> map_of d q = None \<and> map_of d' q = Some Dir \<and> q \<noteq> [] \<and> (\<exists>rel \<in> W. prefix q (destination @ rel))"
    and dirs: "dirs_above destination d" and out: "\<not> strict_prefix destination q" and W: "[] \<notin> W"
  shows "map_of d' q = map_of d q"
proof -
  have "q \<notin> (\<lambda>rel. destination @ rel) ` W"
    using out W by (auto simp: strict_prefix_def)
  moreover have "map_of d q \<noteq> None" if "q \<noteq> []" and "prefix q (destination @ rel)" for rel
  proof -
    from that(2) out have "prefix q destination"
      using prefix_same_cases [of q "destination @ rel" destination] by (auto simp: strict_prefix_def)
    then have "q = take (length q) destination" and "length q \<le> length destination"
      by (auto simp: prefix_def)
    with dirs have "is_dir d q" unfolding dirs_above_def by metis
    with that(1) show ?thesis by (simp add: is_dir_def)
  qed
  ultimately show ?thesis using spec [OF frame, of q] by blast
qed

lemma copied_beside:
  assumes frame: "\<forall>q. q \<notin> (\<lambda>rel. destination @ rel) ` W \<longrightarrow> map_of d' q = map_of d q
         \<or> map_of d q = None \<and> map_of d' q = Some Dir \<and> q \<noteq> [] \<and> (\<exists>rel \<in> W. prefix q (destination @ rel))"
    and rel: "rel \<notin> W" and W: "\<And>k. k \<in> W \<Longrightarrow> P k"
  shows "map_of d' (destination @ rel) = map_of d (destination @ rel)
     \<or> map_of d (destination @ rel) = None \<and> map_of d' (destination @ rel) = Some Dir \<and> (\<exists>k. strict_prefix rel k \<and> P k)"
proof -
  have "destination @ rel \<notin> (\<lambda>rel. destination @ rel) ` W" using rel by auto
  moreover have "strict_prefix rel k \<and> P k" if "k \<in> W" "prefix (destination @ rel) (destination @ k)" for k
    using that rel W by (auto simp: strict_prefix_def)
  ultimately show ?thesis using spec [OF frame, of "destination @ rel"] by blast
qed

lemma set_walk: "rel \<in> set (walk d root) \<longleftrightarrow> rel \<noteq> [] \<and> map_of d (root @ rel) \<noteq> None"
proof -
  have "rel \<in> set (walk d root) \<longleftrightarrow> (\<exists>p. map_of d p \<noteq> None \<and> length root < length p \<and> take (length root) p = root \<and> rel = drop (length root) p)"
    by (auto simp: walk_def map_of_eq_None_iff)
  also have "\<dots> \<longleftrightarrow> rel \<noteq> [] \<and> map_of d (root @ rel) \<noteq> None"
  proof
    assume "\<exists>p. map_of d p \<noteq> None \<and> length root < length p \<and> take (length root) p = root \<and> rel = drop (length root) p"
    then obtain p where p: "map_of d p \<noteq> None" "length root < length p" "take (length root) p = root" "rel = drop (length root) p" by blast
    then have "root @ rel = p" by (metis append_take_drop_id)
    with p show "rel \<noteq> [] \<and> map_of d (root @ rel) \<noteq> None" by auto
  next
    assume "rel \<noteq> [] \<and> map_of d (root @ rel) \<noteq> None"
    then show "\<exists>p. map_of d p \<noteq> None \<and> length root < length p \<and> take (length root) p = root \<and> rel = drop (length root) p"
      by (intro exI [of _ "root @ rel"]) simp
  qed
  finally show ?thesis .
qed

lemma distinct_walk: "distinct (walk d root)"
proof -
  let ?ps = "sort (filter (\<lambda>p. length root < length p \<and> take (length root) p = root) (remdups (map fst d)))"
  have "inj_on (drop (length root)) (set ?ps)"
    by (rule inj_onI) (auto, metis append_take_drop_id)
  then show ?thesis by (simp add: walk_def distinct_map)
qed

section \<open>Properties\<close>

text \<open>
  C32. A plugin installation that succeeds has copied everything: if the destination and everything
  above it are directories, source and destination are apart and no symbolic link stands below
  either, each regular file below the source is at the same place below the destination with the
  same content and mode 0755, whatever was there before, and each directory is a directory there.
  Nothing outside the destination changed, the source included, and below the destination nothing
  changed that is not such a copy, but for missing directories on the way to one.
\<close>

theorem copyTree_installs:
  assumes "copyTree umask env source destination s = (None, s')"
    and "\<forall>a b. destination @ a \<noteq> source @ b" and "dirs_above destination (disk s)"
    and "\<forall>rel t. map_of (disk s) (source @ rel) \<noteq> Some (Symlink t) \<and> map_of (disk s) (destination @ rel) \<noteq> Some (Symlink t)"
  shows "(\<forall>rel c m. rel \<noteq> [] \<longrightarrow> map_of (disk s) (source @ rel) = Some (File c m) \<longrightarrow>
         map_of (disk s') (destination @ rel) = Some (File c perm755))
    \<and> (\<forall>rel. rel \<noteq> [] \<longrightarrow> map_of (disk s) (source @ rel) = Some Dir \<longrightarrow> map_of (disk s') (destination @ rel) = Some Dir)
    \<and> (\<forall>q. \<not> strict_prefix destination q \<longrightarrow> map_of (disk s') q = map_of (disk s) q)
    \<and> (\<forall>rel. rel \<noteq> [] \<longrightarrow> map_of (disk s) (source @ rel) = None \<longrightarrow>
         map_of (disk s') (destination @ rel) = map_of (disk s) (destination @ rel)
         \<or> map_of (disk s) (destination @ rel) = None \<and> map_of (disk s') (destination @ rel) = Some Dir
           \<and> (\<exists>k. strict_prefix rel k \<and> map_of (disk s) (source @ k) \<noteq> None))"
proof -
  let ?w = "walk (disk s) source"
  have run: "copyEntries umask env source destination ?w s = (None, s')"
    using assms(1) by (auto simp: copyTree_def split: option.splits)
  have "map_of (disk s) (source @ rel) = Some Dir \<or> (\<exists>c m. map_of (disk s) (source @ rel) = Some (File c m))"
    if "map_of (disk s) (source @ rel) \<noteq> None" for rel
    using that assms(4) by (metis node.exhaust option.exhaust)
  then have "copyable source destination ?w (disk s)"
    using assms(2,4) by (simp add: copyable_def distinct_walk set_walk)
  note C = copyEntries_ok [OF run this]
  have copied: "copied source destination rel (disk s) (disk s')" if "rel \<noteq> []" "map_of (disk s) (source @ rel) \<noteq> None" for rel
    using C that by (simp add: set_walk)
  show ?thesis
  proof (intro conjI allI impI)
    show "map_of (disk s') (destination @ rel) = Some (File c perm755)"
      if "rel \<noteq> []" "map_of (disk s) (source @ rel) = Some (File c m)" for rel c m
      using copied [of rel] that by (simp add: copied_def pluginPerm_def)
    show "map_of (disk s') (destination @ rel) = Some Dir" if "rel \<noteq> []" "map_of (disk s) (source @ rel) = Some Dir" for rel
      using copied [of rel] that by (simp add: copied_def)
    show "map_of (disk s') q = map_of (disk s) q" if "\<not> strict_prefix destination q" for q
      by (rule copied_outside [OF conjunct2 [OF C] assms(3) that]) (simp add: set_walk)
    show "map_of (disk s') (destination @ rel) = map_of (disk s) (destination @ rel)
         \<or> map_of (disk s) (destination @ rel) = None \<and> map_of (disk s') (destination @ rel) = Some Dir
           \<and> (\<exists>k. strict_prefix rel k \<and> map_of (disk s) (source @ k) \<noteq> None)"
      if "rel \<noteq> []" "map_of (disk s) (source @ rel) = None" for rel
      by (rule copied_beside [OF conjunct2 [OF C]]) (use that in \<open>auto simp: set_walk\<close>)
  qed
qed

definition demo_plugins :: os where
  "demo_plugins = \<lparr> disk = [([''p''], Dir), ([''p'', ''signer''], Dir), ([''p'', ''signer'', ''notation-signer''], File ''ELF'' perm600),
     ([''n''], Dir), ([''n'', ''plugins''], Dir)], hist = [] \<rparr>"

lemma demo_plugins_run: "fst (copyTree id calm [''p''] [''n'', ''plugins''] demo_plugins) = None"
  unfolding demo_plugins_def calm_def by code_simp

theorem copyTree_installs_witness:
  "map_of (disk (snd (copyTree id calm [''p''] [''n'', ''plugins''] demo_plugins))) ([''n'', ''plugins''] @ [''signer'', ''notation-signer''])
     = Some (File ''ELF'' perm755)"
proof -
  let ?r = "copyTree id calm [''p''] [''n'', ''plugins''] demo_plugins"
  have "?r = (None, snd ?r)" using demo_plugins_run by (metis prod.collapse)
  moreover have "dirs_above [''n'', ''plugins''] (disk demo_plugins)"
    by (simp add: dirs_above_prefixes is_dir_def demo_plugins_def)
  moreover have "\<forall>rel t. map_of (disk demo_plugins) ([''p''] @ rel) \<noteq> Some (Symlink t)
      \<and> map_of (disk demo_plugins) ([''n'', ''plugins''] @ rel) \<noteq> Some (Symlink t)"
    by (simp add: demo_plugins_def)
  ultimately have "map_of (disk (snd ?r)) ([''n'', ''plugins''] @ [''signer'', ''notation-signer'']) = Some (File ''ELF'' perm755)"
    if "map_of (disk demo_plugins) ([''p''] @ [''signer'', ''notation-signer'']) = Some (File ''ELF'' perm600)"
    using that copyTree_installs [of id calm "[''p'']" "[''n'', ''plugins'']" demo_plugins "snd ?r"] by simp
  then show ?thesis by (simp add: demo_plugins_def)
qed

end
