(* ===== verification/Server.thy ===== *)
theory Server
  imports Config Reconcile Plugins
begin

text \<open>
  The parts of \<^verbatim>\<open>run\<close> (\<^verbatim>\<open>main.go\<close>) and of \<^verbatim>\<open>kubenotation.Setup\<close> (\<^verbatim>\<open>internal/kubenotation/manager.go\<close>) that carry
  state or decisions: the certificate of the TLS server, the HTTP servers, the set-up of the
  controller manager and the start-up sequence. Kubernetes, controller-runtime, the leader
  election and \<^verbatim>\<open>crypto/tls\<close> are parameters.
\<close>

section \<open>The certificate of the TLS server\<close>

record tls_secret =
  sec_Type :: string
  ResourceVersion :: string
  sec_Data :: "string gomap"

record 'c parsedCert =
  pc_resourceVersion :: string
  pc_cert :: 'c

definition data_at :: "string gomap \<Rightarrow> string \<Rightarrow> string" where
  "data_at m k = (case map_of m k of None \<Rightarrow> [] | Some d \<Rightarrow> d)"

definition SecretTypeTLS :: string where
  "SecretTypeTLS = ''kubernetes.io/tls''"

text \<open>\<^verbatim>\<open>GetCertificate\<close> of the configuration \<^verbatim>\<open>newTLSConfig\<close> returns: the answer of the secret lister and the
  atomic pointer \<^verbatim>\<open>current\<close> come in, the certificate and the pointer go out.\<close>

definition GetCertificate ::
    "(string \<Rightarrow> string \<Rightarrow> 'c result) \<Rightarrow> tls_secret result \<Rightarrow> 'c parsedCert option \<Rightarrow> 'c result \<times> 'c parsedCert option" where
  "GetCertificate X509KeyPair listed current =
     (case listed of
        Inl e \<Rightarrow> (Inl e, current)
      | Inr secret \<Rightarrow>
          if sec_Type secret \<noteq> SecretTypeTLS then (Inl (Err ''secret is not a TLS secret''), current)
          else
            (let parse =
               (case X509KeyPair (data_at (sec_Data secret) ''tls.crt'') (data_at (sec_Data secret) ''tls.key'') of
                  Inl e \<Rightarrow> (Inl e, current)
                | Inr cert \<Rightarrow> (Inr cert, Some \<lparr> pc_resourceVersion = ResourceVersion secret, pc_cert = cert \<rparr>))
             in case current of
                  Some c \<Rightarrow> if pc_resourceVersion c = ResourceVersion secret then (Inr (pc_cert c), current) else parse
                | None \<Rightarrow> parse))"

fun handshakes ::
    "(string \<Rightarrow> string \<Rightarrow> 'c result) \<Rightarrow> tls_secret result list \<Rightarrow> 'c parsedCert option \<Rightarrow> 'c result list" where
  "handshakes X509KeyPair [] current = []"
| "handshakes X509KeyPair (listed # rest) current =
     (case GetCertificate X509KeyPair listed current of
        (r, current') \<Rightarrow> r # handshakes X509KeyPair rest current')"

text \<open>What the server would present if it parsed the secret at every handshake.\<close>

definition parse_always :: "(string \<Rightarrow> string \<Rightarrow> 'c result) \<Rightarrow> tls_secret result \<Rightarrow> 'c result" where
  "parse_always X509KeyPair listed = fst (GetCertificate X509KeyPair listed None)"

section \<open>HTTP servers\<close>

record http_server =
  Addr :: string
  hasTLS :: bool
  ReadHeaderTimeout :: int
  ReadTimeout :: int
  WriteTimeout :: int
  IdleTimeout :: int

definition newServer :: "string \<Rightarrow> bool \<Rightarrow> http_server" where
  "newServer addr tls =
     \<lparr> Addr = addr, hasTLS = tls, ReadHeaderTimeout = 10 * time_Second, ReadTimeout = 30 * time_Second,
       WriteTimeout = 30 * time_Second, IdleTimeout = 60 * time_Second \<rparr>"

definition httpAddr :: string where
  "httpAddr = '':9080''"

definition httpsAddr :: string where
  "httpsAddr = '':9443''"

definition servers_of :: "options \<Rightarrow> http_server list" where
  "servers_of opts = [newServer httpAddr False] @ (if o_noTLS opts then [] else [newServer httpsAddr True])"

section \<open>The controller manager\<close>

record mgr_options =
  BindAddress :: string
  HealthProbeBindAddress :: string
  LeaderElection :: bool
  LeaderElectionID :: string

record ('c, 'm) ctrl_lib =
  ctl_GetConfig :: "'c result"
  ctl_NewManager :: "'c \<Rightarrow> mgr_options \<Rightarrow> 'm result"
  ctl_SetupPolicies :: "'m \<Rightarrow> gerr option \<times> 'm"
  ctl_SetupStores :: "'m \<Rightarrow> gerr option \<times> 'm"
  ctl_AddHealthzCheck :: "'m \<Rightarrow> string \<Rightarrow> gerr option \<times> 'm"
  ctl_AddReadyzCheck :: "'m \<Rightarrow> string \<Rightarrow> gerr option \<times> 'm"

record 'm SetupResult =
  CRDManager :: 'm
  CRDChangeInformer :: chan

definition Setup :: "('c, 'm) ctrl_lib \<Rightarrow> string \<Rightarrow> string \<Rightarrow> bool \<Rightarrow> 'm SetupResult result" where
  "Setup lib metricsAddr probeAddr enableLeaderElection =
     (case ctl_GetConfig lib of
        Inl e \<Rightarrow> Inl (wrap ''unable to get kubeconfig'' e)
      | Inr cfg \<Rightarrow>
          (case ctl_NewManager lib cfg
                  \<lparr> BindAddress = metricsAddr, HealthProbeBindAddress = probeAddr,
                    LeaderElection = enableLeaderElection, LeaderElectionID = ''d94abea7.nirmata.io'' \<rparr> of
             Inl e \<Rightarrow> Inl (wrap ''unable to create manager'' e)
           | Inr m0 \<Rightarrow>
               (let changes = \<lparr> chan_cap = 1, chan_len = 0 \<rparr>
                in case ctl_SetupPolicies lib m0 of
                     (Some e, m1) \<Rightarrow> Inl (wrap ''unable to create controller TrustPolicy'' e)
                   | (None, m1) \<Rightarrow>
                       (case ctl_SetupStores lib m1 of
                          (Some e, m2) \<Rightarrow> Inl (wrap ''unable to create controller TrustStore'' e)
                        | (None, m2) \<Rightarrow>
                            (case ctl_AddHealthzCheck lib m2 ''healthz'' of
                               (Some e, m3) \<Rightarrow> Inl (wrap ''unable to set up health check'' e)
                             | (None, m3) \<Rightarrow>
                                 (case ctl_AddReadyzCheck lib m3 ''readyz'' of
                                    (Some e, m4) \<Rightarrow> Inl (wrap ''unable to set up ready check'' e)
                                  | (None, m4) \<Rightarrow> Inr \<lparr> CRDManager = m4, CRDChangeInformer = changes \<rparr>))))))"

section \<open>Start-up\<close>

text \<open>
  \<^verbatim>\<open>run\<close> up to the point where the process is ready. The plugins are installed on the disk at
  start; the verifier is constructed later, by attempts that see the disk as the controllers,
  which already run, have left it.
\<close>

record ('c, 'm, 'd, 'n, 'h, 'r) run_ext =
  rest_InClusterConfig :: "'c result"
  client_NewForConfig :: "'c \<Rightarrow> gerr option"
  leaderelection_New :: "gerr option"
  run_ctrl :: "('c, 'm) ctrl_lib"
  run_getenv :: "string \<Rightarrow> string"
  run_umask :: "nat \<Rightarrow> nat"
  run_itoa :: "int \<Rightarrow> string"
  run_ecr :: "int \<Rightarrow> resource \<Rightarrow> authenticator result"
  run_notation :: "('d, 'n) notation_lib"
  run_Retry :: "(nat \<Rightarrow> ('n, 'h, 'r) verifier result) \<Rightarrow> ('n, 'h, 'r) verifier result"
  run_attempt :: "nat \<Rightarrow> ('h, 'r) boot \<times> os_env \<times> os"

record ('m, 'n, 'h, 'r) started =
  st_verifier :: "('n, 'h, 'r) verifier"
  st_servers :: "http_server list"
  st_changes :: chan
  st_manager :: 'm

text \<open>The first part of \<^verbatim>\<open>run\<close>: the lifetime of cache entries, the Kubernetes client, the leader election.\<close>

definition connect :: "('c, 'm, 'd, 'n, 'h, 'r) run_ext \<Rightarrow> options \<Rightarrow> int result" where
  "connect rx opts =
     (case cacheTTL (run_itoa rx) opts of
        Inl e \<Rightarrow> Inl e
      | Inr life \<Rightarrow>
          (case rest_InClusterConfig rx of
             Inl e \<Rightarrow> Inl (wrap ''failed to get kubernetes cluster config'' e)
           | Inr restConfig \<Rightarrow>
               (case client_NewForConfig rx restConfig of
                  Some e \<Rightarrow> Inl (wrap ''failed to initialize kube client'' e)
                | None \<Rightarrow>
                    (case leaderelection_New rx of
                       Some e \<Rightarrow> Inl (wrap ''failed to initialize leader election'' e)
                     | None \<Rightarrow> Inr life))))"

definition startup ::
    "('c, 'm, 'd, 'n, 'h, 'r) run_ext \<Rightarrow> options \<Rightarrow> os_env \<Rightarrow> os \<Rightarrow> notation_dirs
     \<Rightarrow> ('m, 'n, 'h, 'r) started result \<times> os \<times> notation_dirs" where
  "startup rx opts env s dirs =
     (case connect rx opts of
        Inl e \<Rightarrow> (Inl e, s, dirs)
      | Inr life \<Rightarrow>
          (case (if o_local opts then (None, s, dirs) else Local (run_umask rx) (run_getenv rx) env s dirs) of
             (Some e, s1, dirs1) \<Rightarrow> (Inl e, s1, dirs1)
           | (None, s1, dirs1) \<Rightarrow>
               (case Setup (run_ctrl rx) (o_metricsAddr opts) (o_probeAddr opts) (o_leaderElect opts) of
                  Inl e \<Rightarrow> (Inl (wrap ''failed to initialize crds'' e), s1, dirs1)
                | Inr crd \<Rightarrow>
                    (case ctl_AddReadyzCheck (run_ctrl rx) (CRDManager crd) ''verifier'' of
                       (Some e, m1) \<Rightarrow> (Inl (wrap ''failed to add readiness check'' e), s1, dirs1)
                     | (None, m1) \<Rightarrow>
                         (case NewVerifier (run_Retry rx) (run_attempt rx) (run_notation rx)
                                 (notation_dir (run_getenv rx)) (verifierOptions opts life (run_ecr rx)) of
                            Inl e \<Rightarrow> (Inl (wrap ''failed to initialize verifier'' e), s1, dirs1)
                          | Inr v \<Rightarrow>
                              (Inr \<lparr> st_verifier = v, st_servers = servers_of opts,
                                     st_changes = CRDChangeInformer crd, st_manager = m1 \<rparr>,
                               s1, dirs1))))))"

section \<open>Lemmas\<close>

text \<open>The cached certificate is the one its resource version stands for.\<close>

definition cert_inv :: "(string \<Rightarrow> string \<Rightarrow> 'c result) \<Rightarrow> tls_secret set \<Rightarrow> 'c parsedCert option \<Rightarrow> bool" where
  "cert_inv X509KeyPair secrets current \<longleftrightarrow>
     (\<forall>c. current = Some c \<longrightarrow> (\<forall>secret \<in> secrets. ResourceVersion secret = pc_resourceVersion c \<longrightarrow>
        X509KeyPair (data_at (sec_Data secret) ''tls.crt'') (data_at (sec_Data secret) ''tls.key'') = Inr (pc_cert c)))"

definition versioned :: "tls_secret set \<Rightarrow> bool" where
  "versioned secrets \<longleftrightarrow>
     (\<forall>s \<in> secrets. \<forall>t \<in> secrets. ResourceVersion s = ResourceVersion t \<longrightarrow> sec_Data s = sec_Data t)"

lemma GetCertificate_step:
  assumes "cert_inv X509KeyPair secrets current" and "versioned secrets" and "\<And>s. listed = Inr s \<Longrightarrow> s \<in> secrets"
  shows "fst (GetCertificate X509KeyPair listed current) = parse_always X509KeyPair listed
    \<and> cert_inv X509KeyPair secrets (snd (GetCertificate X509KeyPair listed current))"
proof (cases listed)
  case (Inl e)
  with assms(1) show ?thesis by (simp add: GetCertificate_def parse_always_def)
next
  case (Inr s)
  note s = assms(3) [OF this]
  let ?pair = "X509KeyPair (data_at (sec_Data s) ''tls.crt'') (data_at (sec_Data s) ''tls.key'')"
  have new: "cert_inv X509KeyPair secrets (Some \<lparr> pc_resourceVersion = ResourceVersion s, pc_cert = c \<rparr>)" if "?pair = Inr c" for c
    using that assms(2) s unfolding cert_inv_def versioned_def by (metis option.inject parsedCert.select_convs)
  have hit: "?pair = Inr (pc_cert c)" if "current = Some c" "pc_resourceVersion c = ResourceVersion s" for c
    using assms(1) that s by (simp add: cert_inv_def)
  show ?thesis
    using assms(1) new hit Inr
    by (auto simp: GetCertificate_def parse_always_def Let_def split: sum.splits option.splits)
qed

lemma handshakes_eq:
  "cert_inv X509KeyPair secrets current \<Longrightarrow> versioned secrets \<Longrightarrow> {s. Inr s \<in> set ls} \<subseteq> secrets \<Longrightarrow>
     handshakes X509KeyPair ls current = map (parse_always X509KeyPair) ls"
proof (induction ls arbitrary: current)
  case (Cons l ls)
  have "s \<in> secrets" if "l = Inr s" for s using Cons.prems(3) that by auto
  note G = GetCertificate_step [OF Cons.prems(1,2) this, of l, simplified]
  have "{s. Inr s \<in> set ls} \<subseteq> secrets" using Cons.prems(3) by auto
  with Cons.IH [OF conjunct2 [OF G] Cons.prems(2)] G show ?case by (simp add: split_beta)
qed simp

section \<open>Properties\<close>

text \<open>
  C27. Caching the parsed certificate is invisible: over any sequence of handshakes, with the secret
  missing, of the wrong type or renewed at any point, the server presents exactly what it would
  present by parsing the secret anew each time, provided that the resource version identifies the
  content, as the API server guarantees. In particular a renewed certificate is used at once.
\<close>

theorem certificate_cache_invisible:
  assumes "versioned {s. Inr s \<in> set listed}"
  shows "handshakes X509KeyPair listed None = map (parse_always X509KeyPair) listed"
  by (rule handshakes_eq [OF _ assms]) (simp_all add: cert_inv_def)

definition demo_secret :: "string \<Rightarrow> string \<Rightarrow> tls_secret" where
  "demo_secret rv crt = \<lparr> sec_Type = ''kubernetes.io/tls'', ResourceVersion = rv, sec_Data = [(''tls.crt'', crt), (''tls.key'', ''K'')] \<rparr>"

theorem certificate_cache_invisible_witness:
  "handshakes (\<lambda>c k. Inr c) [Inr (demo_secret ''1'' ''A''), Inr (demo_secret ''1'' ''A''), Inr (demo_secret ''2'' ''B'')] None
     = [Inr ''A'', Inr ''A'', Inr ''B'']"
proof -
  have "versioned {s. Inr s \<in> set [Inr (demo_secret ''1'' ''A''), Inr (demo_secret ''1'' ''A''), Inr (demo_secret ''2'' ''B'')]}"
    by (auto simp: versioned_def demo_secret_def)
  from certificate_cache_invisible [OF this, of "\<lambda>c k. Inr c"] show ?thesis
    by (simp add: parse_always_def GetCertificate_def demo_secret_def SecretTypeTLS_def data_at_def)
qed

end
