(* ===== verification/Process.thy ===== *)
theory Process
  imports Server
begin

text \<open>
  The running process as a state machine: the loop of \<^verbatim>\<open>run\<close> (\<^verbatim>\<open>main.go\<close>), the requests its servers
  handle, the controllers that sync the disk and notify, and evictions of the verdict cache. A
  request and a reload are one step each here; \<open>Overlap\<close> takes requests apart. \<open>E\<close> is the set of states of the registries and libraries
  that requests of the run meet.
\<close>

datatype phase = Serving | Draining "gerr option" | Exited "gerr option"

record ('n, 'h, 'r) process =
  p_phase :: phase
  p_ready :: bool
  p_verifier :: "('n, 'h, 'r) verifier"
  p_chan :: chan
  p_os :: os

text \<open>The readiness check that \<^verbatim>\<open>run\<close> registers.\<close>

definition readyz :: "('n, 'h, 'r) process \<Rightarrow> gerr option" where
  "readyz p = (if \<not> p_ready p then Some (Err ''verifier not serving'') else None)"

definition serving :: "('m, 'n, 'h, 'r) started \<Rightarrow> os \<Rightarrow> ('n, 'h, 'r) process" where
  "serving st s =
     \<lparr> p_phase = Serving, p_ready = True, p_verifier = st_verifier st, p_chan = st_changes st, p_os = s \<rparr>"

definition manager_error :: "gerr option \<Rightarrow> bool \<Rightarrow> gerr option" where
  "manager_error err ctxDone =
     map_option (wrap ''problem running manager'')
       (if err = None \<and> \<not> ctxDone then Some (Err ''manager stopped unexpectedly'') else err)"

text \<open>
  The end of \<^verbatim>\<open>run\<close>. Times are instants in nanoseconds, and a server is known by the instant from
  which on it has no active connection, if there is one, and by what closing its listeners reports.
  \<^verbatim>\<open>Shutdown\<close> of \<^verbatim>\<open>net/http\<close> waits for that instant, or for the end of its context: without a deadline
  and with a connection that stays active it never returns. \<open>None\<close> is a call that never returns.
  \<^verbatim>\<open>stop\<close> and \<^verbatim>\<open>cancel\<close> end contexts and always return; the deferred \<^verbatim>\<open>v.Stop\<close> runs last.
\<close>

record http_Server =
  srv_Addr :: string
  srv_idle :: "int option"
  srv_lnerr :: "gerr option"

definition srv_Shutdown :: "int option \<Rightarrow> int \<Rightarrow> http_Server \<Rightarrow> (gerr option \<times> int) option" where
  "srv_Shutdown deadline now srv =
     (case (srv_idle srv, deadline) of
        (Some t, None) \<Rightarrow> Some (srv_lnerr srv, max now t)
      | (Some t, Some d) \<Rightarrow>
          Some (if t \<le> now \<or> t \<le> d then (srv_lnerr srv, max now t) else (Some (Err ''context deadline exceeded''), max now d))
      | (None, Some d) \<Rightarrow> Some (Some (Err ''context deadline exceeded''), max now d)
      | (None, None) \<Rightarrow> None)"

fun shutdownServers :: "int option \<Rightarrow> int \<Rightarrow> http_Server list \<Rightarrow> (string list \<times> int) option" where
  "shutdownServers deadline now [] = Some ([], now)"
| "shutdownServers deadline now (srv # servers) =
     (case srv_Shutdown deadline now srv of
        None \<Rightarrow> None
      | Some (err, now1) \<Rightarrow>
          (case shutdownServers deadline now1 servers of
             None \<Rightarrow> None
           | Some (warnings, now2) \<Rightarrow>
               Some ((case err of None \<Rightarrow> [] | Some e \<Rightarrow> [''failed to shut down server '' @ srv_Addr srv @ '': '' @ gerr_text e]) @ warnings,
                     now2)))"

definition shutdownTimeout :: int where
  "shutdownTimeout = 20 * time_Second"

definition shutdown ::
    "(bool \<Rightarrow> bool) \<Rightarrow> int \<Rightarrow> http_Server list \<Rightarrow> gerr option \<Rightarrow> ('n, 'h, 'r) verifier \<Rightarrow> ((gerr option, ('n, 'h, 'r) verifier) call \<times> int) option" where
  "shutdown waits now servers runErr v =
     (case shutdownServers (Some (now + shutdownTimeout)) now servers of
        None \<Rightarrow> None
      | Some (warnings, now1) \<Rightarrow>
          (case Stop waits v of
             None \<Rightarrow> None
           | Some (Inl e, v1) \<Rightarrow> Some ((Inl e, v1), now1)
           | Some (Inr _, v1) \<Rightarrow> Some ((Inr runErr, v1), now1)))"

text \<open>How the process ends: with the error \<^verbatim>\<open>run\<close> returns, or in a panic.\<close>

definition exit_of :: "gerr option result \<Rightarrow> gerr option" where
  "exit_of r = (case r of Inl e \<Rightarrow> Some e | Inr err \<Rightarrow> err)"

text \<open>Requests whose names contain no semicolon (see the note on cache keys) and whose images are
  maps, as decoded JSON objects are.\<close>

definition well_formed :: "http_ext \<Rightarrow> ('n, 'h) ext \<Rightarrow> httpRequest \<Rightarrow> bool" where
  "well_formed hx ext r \<longleftrightarrow> range_order (order ext)
     \<and> (\<forall>rd. decode_RequestData hx (MaxBytesReader (Body r) maxRequestBodyBytes) = Inr rd \<longrightarrow>
          wf_images (rd_Images rd) \<and> (\<forall>vr. processRequestData (fmt_attestation hx) rd = Inr vr \<longrightarrow> admissible ext vr))"

definition evicted :: "'r cache \<Rightarrow> 'r cache \<Rightarrow> bool" where
  "evicted c c' \<longleftrightarrow> (\<exists>r. c' = c\<lparr> ristretto := r \<rparr>
     \<and> (\<forall>k x. ristretto_Get (cache_ops c) r k = Some x \<longrightarrow> ristretto_Get (cache_ops c) (ristretto c) k = Some x))"

inductive process_step ::
    "('n, 'h) ext set \<Rightarrow> ('d, 'n) notation_lib \<Rightarrow> path \<Rightarrow> (TrustPolicy, 'a) client \<Rightarrow> (TrustStore, 'b) client \<Rightarrow> (string \<Rightarrow> string)
     \<Rightarrow> ('n, 'h, 'r) process \<Rightarrow> ('n, 'h, 'r) process \<Rightarrow> bool"
  for E lib dir pcl scl quote where
  request: "process_step E lib dir pcl scl quote p (p\<lparr> p_verifier := v \<rparr>)"
    if "\<forall>e. p_phase p \<noteq> Exited e" and "ext \<in> E" and "well_formed hx ext r"
    and "HandleCheckImages hx ext r (p_verifier p) = (x, v)"
| changed: "process_step E lib dir pcl scl quote p
      (p\<lparr> p_verifier := v, p_chan := (p_chan p)\<lparr> chan_len := chan_len (p_chan p) - 1 \<rparr> \<rparr>)"
    if "p_phase p = Serving" and "0 < chan_len (p_chan p)"
    and "UpdateNotationVerifier lib env (p_os p) dir (p_verifier p) = (err, v)"
| policies: "process_step E lib dir pcl scl quote p (p\<lparr> p_os := w_os w', p_chan := ch \<rparr>)"
    if "TrustPolicy_Reconcile pcl quote env ord dir req w = (res, w')"
    and "w_os w = p_os p" and "w_chan w = Some (p_chan p)" and "w_chan w' = Some ch"
| stores: "process_step E lib dir pcl scl quote p (p\<lparr> p_os := w_os w', p_chan := ch \<rparr>)"
    if "TrustStore_Reconcile scl quote env ord dir req w = (res, w')"
    and "w_os w = p_os p" and "w_chan w = Some (p_chan p)" and "w_chan w' = Some ch"
| evict: "process_step E lib dir pcl scl quote p (p\<lparr> p_verifier := (p_verifier p)\<lparr> v_cache := c \<rparr> \<rparr>)"
    if "evicted (v_cache (p_verifier p)) c"
| server_failed: "process_step E lib dir pcl scl quote p (p\<lparr> p_phase := Draining (Some e), p_ready := False \<rparr>)"
    if "p_phase p = Serving"
| manager_stopped: "process_step E lib dir pcl scl quote p
      (p\<lparr> p_phase := Draining (manager_error err ctxDone), p_ready := False \<rparr>)"
    if "p_phase p = Serving"
| signalled: "process_step E lib dir pcl scl quote p (p\<lparr> p_phase := Draining None, p_ready := False \<rparr>)"
    if "p_phase p = Serving"
| leave: "process_step E lib dir pcl scl quote p (p\<lparr> p_phase := Exited (exit_of res), p_verifier := v \<rparr>)"
    if "p_phase p = Draining err" and "shutdown waits now servers err (p_verifier p) = Some ((res, v), later)"

section \<open>What a request leaves behind\<close>

lemma verify_frame:
  "\<exists>c k. snd (verifyImagesAndAttestations ext req v) = v\<lparr> v_cache := c, providerKeychain := k \<rparr>"
proof (cases rule: verifyImagesAndAttestations_cases [of ext req v])
  case (failed e)
  have "v = v\<lparr> v_cache := v_cache v, providerKeychain := providerKeychain v \<rparr>" by simp
  with failed(1) show ?thesis by (metis snd_conv)
next
  case (run nv kc opts pc)
  have "same_request (start_request ext req v nv kc opts pc) (snd (verifyWith ext req (start_request ext req v nv kc opts pc)))"
    using verifyWith_response by blast
  then show ?thesis
    unfolding run(2) same_request_iff by (elim exE) (simp add: set_cache_def set_provider_def, blast)
qed

text \<open>The verdicts that the verifiers of \<open>R\<close>, a set of trust policies with verifiers, can have put into a cache.\<close>

definition image_earned :: "('n, 'h) ext set \<Rightarrow> (string \<times> 'n) set \<Rightarrow> image_verdicts" where
  "image_earned E R k img \<longleftrightarrow> (\<exists>ext \<in> E. \<exists>opts nv. (fst k, nv) \<in> R \<and> verified_as ext opts nv (snd k) (img_Digest img))"

definition attestation_earned :: "('n, 'h) ext set \<Rightarrow> (string \<times> 'n) set \<Rightarrow> attestation_verdicts" where
  "attestation_earned E R k u \<longleftrightarrow>
     (case k of (tp, img, ty, cs) \<Rightarrow> \<exists>ext \<in> E. \<exists>opts nv. (tp, nv) \<in> R \<and> attestation_verified ext opts nv img ty cs)"

definition vouched :: "('n, 'h) ext set \<Rightarrow> (string \<times> 'n) set \<Rightarrow> 'r cache \<Rightarrow> bool" where
  "vouched E R c \<longleftrightarrow> cache_inv (image_earned E R) (attestation_earned E R) c"

definition in_force :: "('n, 'h, 'r) verifier \<Rightarrow> (string \<times> 'n) set" where
  "in_force v = {(tp, nv). map_of (verifiers (notationVerifierFactory v)) tp = Some nv}"

definition earned :: "('n, 'h) ext set \<Rightarrow> ('n, 'h, 'r) verifier \<Rightarrow> bool" where
  "earned E v \<longleftrightarrow> vouched E (in_force v) (v_cache v)"

lemma earned_covers:
  "ext \<in> E \<Longrightarrow> (tp, nv) \<in> R \<Longrightarrow> covers ext opts nv tp (image_earned E R) (attestation_earned E R)"
  by (auto simp: covers_def image_earned_def attestation_earned_def)

lemma in_force_verifier:
  "GetVerifier (getenv ext) (notationVerifierFactory v) req = Inr nv \<Longrightarrow> (getTrustPolicy (getenv ext) req, nv) \<in> in_force v"
  by (simp add: in_force_def getTrustPolicy_verifier)

lemma vouched_verify:
  assumes "vouched E R (v_cache v)" and "in_force v \<subseteq> R" and "ext \<in> E"
    and "admissible ext req" and "range_order (order ext)" and "wf_images (Images req)"
  shows "vouched E R (v_cache (snd (verifyImagesAndAttestations ext req v)))"
  unfolding vouched_def
proof (rule verify_keeps_cache_inv [OF assms(1) [unfolded vouched_def] assms(4-6)])
  fix nv and opts :: "'b gcrOption list"
  assume "GetVerifier (getenv ext) (notationVerifierFactory v) req = Inr nv"
  from subsetD [OF assms(2) in_force_verifier [OF this]] have "(getTrustPolicy (getenv ext) req, nv) \<in> R" .
  then show "covers ext opts nv (getTrustPolicy (getenv ext) req) (image_earned E R) (attestation_earned E R)"
    using assms(3) by (intro earned_covers)
qed

lemma vouched_mono:
  assumes "vouched E R c" and "R \<subseteq> R'"
  shows "vouched E R' c"
proof -
  have "image_earned E R' k x" if "image_earned E R k x" for k x
    using that assms(2) unfolding image_earned_def by blast
  moreover have "attestation_earned E R' k x" if "attestation_earned E R k x" for k x
    using that assms(2) unfolding attestation_earned_def by (cases k) auto
  ultimately show ?thesis
    using assms(1) unfolding vouched_def cache_inv_def by (simp add: justified_def)
qed

lemma earned_verify:
  assumes "earned E v" and "ext \<in> E" and "admissible ext req" and "range_order (order ext)" and "wf_images (Images req)"
  shows "earned E (snd (verifyImagesAndAttestations ext req v))"
proof -
  obtain c k where "snd (verifyImagesAndAttestations ext req v) = v\<lparr> v_cache := c, providerKeychain := k \<rparr>"
    using verify_frame by blast
  with vouched_verify [of E "in_force v" v, OF _ _ assms(2-5)] assms(1) show ?thesis
    by (simp add: earned_def in_force_def)
qed

text \<open>Everything but the two caches is fixed between reloads.\<close>

definition same_conf :: "('n, 'h, 'r) verifier \<Rightarrow> ('n, 'h, 'r) verifier \<Rightarrow> bool" where
  "same_conf v v' \<longleftrightarrow> (\<exists>c k. v' = v\<lparr> v_cache := c, providerKeychain := k \<rparr>)"

lemma same_conf_refl [simp]: "same_conf v v"
  unfolding same_conf_def by (intro exI [of _ "v_cache v"] exI [of _ "providerKeychain v"]) simp

lemma same_confD:
  "same_conf v v' \<Longrightarrow> notationVerifierFactory v' = notationVerifierFactory v \<and> stopCh_closed v' = stopCh_closed v
     \<and> listers_ready v' = listers_ready v"
  by (auto simp: same_conf_def listers_ready_def)

lemma respond_verifier:
  "snd (respond hx ext rd v) = v
   \<or> (\<exists>vr. processRequestData (fmt_attestation hx) rd = Inr vr \<and> snd (respond hx ext rd v) = snd (verifyImagesAndAttestations ext vr v))"
  by (auto simp: respond_def split: sum.splits prod.splits gerr.splits)

lemma handle_run:
  assumes "HandleCheckImages hx ext r v = (x, v')" and "well_formed hx ext r"
  obtains "v' = v"
  | vr where "v' = snd (verifyImagesAndAttestations ext vr v)" "admissible ext vr" "range_order (order ext)" "wf_images (Images vr)"
  using handle_authorized [OF assms(1)]
proof (elim disjE conjE exE)
  assume "v' = v"
  then show thesis by (rule that(1))
next
  fix rd assume rd: "decode_RequestData hx (MaxBytesReader (Body r) maxRequestBodyBytes) = Inr rd"
    and run: "respond hx ext rd v = (x, v')"
  from respond_verifier [of hx ext rd v] run consider "v' = v"
    | vr where "processRequestData (fmt_attestation hx) rd = Inr vr" "v' = snd (verifyImagesAndAttestations ext vr v)" by auto
  then show thesis
  proof cases
    case (2 vr)
    with assms(2) rd processRequestData_fields [OF 2(1)] show thesis by (intro that(2) [of vr]) (auto simp: well_formed_def)
  qed (rule that(1))
qed

lemma handle_keeps:
  assumes "HandleCheckImages hx ext r v = (x, v')" and "well_formed hx ext r" and "ext \<in> E"
  shows "same_conf v v' \<and> (earned E v \<longrightarrow> earned E v')"
  using assms(1,2)
proof (cases rule: handle_run)
  case (2 vr)
  with earned_verify [OF _ assms(3) 2(2-4), of v] verify_frame [of ext vr v] show ?thesis by (auto simp: same_conf_def)
qed simp

lemma handle_vouched:
  assumes "HandleCheckImages hx ext r v = (x, v')" and "well_formed hx ext r" and "ext \<in> E"
    and "vouched E R (v_cache v)" and "in_force v \<subseteq> R"
  shows "vouched E R (v_cache v')"
  using assms(1,2)
proof (cases rule: handle_run)
  case (2 vr)
  with vouched_verify [OF assms(4,5,3) 2(2-4)] show ?thesis by simp
qed (use assms(4) in simp)

lemma vouched_evicted:
  assumes "vouched E R c0" and "evicted c0 c"
  shows "vouched E R c"
proof -
  from assms(2) obtain r where c: "c = c0\<lparr> ristretto := r \<rparr>"
    and less: "\<And>k x. ristretto_Get (cache_ops c0) r k = Some x \<Longrightarrow> ristretto_Get (cache_ops c0) (ristretto c0) k = Some x"
    by (auto simp: evicted_def)
  have img: "GetImage c tp ref = Some i \<Longrightarrow> GetImage c0 tp ref = Some i" for tp ref i
    using less by (auto simp: c GetImage_def split: option.splits if_splits cache_entry.splits)
  have att: "GetAttestation c tp ref ty cs \<Longrightarrow> GetAttestation c0 tp ref ty cs" for tp ref ty cs
    using less by (auto simp: c GetAttestation_def split: option.splits if_splits cache_entry.splits sum.splits)
  have "cache_ok c" using assms(1) by (simp add: vouched_def cache_inv_def cache_ok_def c)
  then show ?thesis
    using assms(1) img att
    by (auto simp: vouched_def cache_inv_def justified_def image_lookup_def split: if_splits)
qed

lemma earned_evicted: "earned E v \<Longrightarrow> evicted (v_cache v) c \<Longrightarrow> earned E (v\<lparr> v_cache := c \<rparr>)"
  using vouched_evicted [of E "in_force v" "v_cache v" c] by (simp add: earned_def in_force_def)

section \<open>The invariant\<close>

definition process_inv :: "('n, 'h) ext set \<Rightarrow> ('n, 'h, 'r) process \<Rightarrow> bool" where
  "process_inv E p \<longleftrightarrow> (p_ready p \<longleftrightarrow> p_phase p = Serving)
     \<and> chan_cap (p_chan p) = 1 \<and> chan_len (p_chan p) \<le> 1
     \<and> ((\<forall>e. p_phase p \<noteq> Exited e) \<longrightarrow>
          \<not> stopCh_closed (p_verifier p) \<and> listers_ready (p_verifier p) \<and> earned E (p_verifier p))"

text \<open>A new store is empty (documented behaviour of \<^verbatim>\<open>ristretto.NewCache\<close>).\<close>

definition starts_empty :: "'r ristretto_ops \<Rightarrow> bool" where
  "starts_empty ops \<longleftrightarrow> (\<forall>conf r k. ristretto_NewCache ops conf = Inr r \<longrightarrow> ristretto_Get ops r k = None)"

lemma vouched_empty:
  "cache_ok c \<Longrightarrow> (\<And>tp ref ty cs. GetImage c tp ref = None \<and> \<not> GetAttestation c tp ref ty cs) \<Longrightarrow> vouched E R c"
  by (auto simp: vouched_def cache_inv_def justified_def image_lookup_def split: if_splits)

lemma vouched_Clear: "cache_ok c \<Longrightarrow> vouched E R (Clear c)"
  by (rule vouched_empty) (auto simp: cache_ok_def GetImage_Clear GetAttestation_Clear)

lemma New_cache_empty:
  assumes "New_cache ops options = Inr c" and "starts_empty ops"
  shows "GetImage c tp ref = None \<and> \<not> GetAttestation c tp ref ty cs \<and> cache_ops c = ops"
  using assms
  by (auto simp: New_cache_def Let_def starts_empty_def GetImage_def GetAttestation_def cache_conf.defs split: sum.splits if_splits)

lemma newVerifier_earned:
  assumes "newVerifier b lib env s dir opts = Inr v" and "wf_names (disk s)"
    and "store_laws (boot_ristretto b)" and "starts_empty (boot_ristretto b)"
  shows "earned E v \<and> listers_ready v \<and> \<not> stopCh_closed v"
proof -
  have "earned E v"
    using New_cache_empty [OF newVerifier_cache [OF assms(1)] assms(4)] assms(3)
    unfolding earned_def by (intro vouched_empty) (auto simp: cache_ok_def)
  with newVerifier_ready [OF assms(1,2)] show ?thesis by (simp add: ready_def)
qed

lemma update_keeps:
  assumes "UpdateNotationVerifier lib env s dir v = (err, v')" and "earned E v"
  shows "earned E v' \<and> stopCh_closed v' = stopCh_closed v \<and> listers_ready v' = listers_ready v"
proof -
  obtain e f where r: "RefreshVerifiers lib env s dir (notationVerifierFactory v) = (e, f)" by fastforce
  show ?thesis
  proof (cases e)
    case (Some x)
    with r RefreshVerifiers_err [of lib env s dir "notationVerifierFactory v" x f] assms show ?thesis
      by (simp add: UpdateNotationVerifier_def)
  next
    case None
    with r assms(1) have v': "v' = v\<lparr> notationVerifierFactory := f, v_cache := Clear (v_cache v) \<rparr>"
      by (simp add: UpdateNotationVerifier_def)
    have "cache_ok (v_cache v)" using assms(2) by (simp add: earned_def vouched_def cache_inv_def)
    then have "earned E v'" by (simp add: earned_def v' vouched_Clear)
    then show ?thesis by (simp add: v' listers_ready_def)
  qed
qed

lemma notify_chan:
  "notify (Some c) = Some ch \<Longrightarrow> chan_cap c = 1 \<Longrightarrow> chan_len c \<le> 1 \<Longrightarrow> chan_cap ch = 1 \<and> chan_len ch = 1"
  by (auto simp: notify_def split: if_splits)

lemma sync_chan:
  "w_chan (snd (syncPolicies cl quote env ord dir w)) \<in> {w_chan w, notify (w_chan w)}"
  "w_chan (snd (syncStores cl2 quote env ord dir w2)) \<in> {w_chan w2, notify (w_chan w2)}"
  by (auto simp: syncPolicies_def syncStores_def sent_notify_def split: sum.splits prod.splits option.splits)

lemma update_chan [simp]: "w_chan (snd (update cl obj w)) = w_chan w"
  by (simp add: update_def split_beta)

lemma reconcile_chan:
  assumes "\<And>w. w_chan (snd (sync w)) \<in> {w_chan w, notify (w_chan w)}"
  shows "w_chan (snd (reconcileWith cl sync req w)) \<in> {w_chan w, notify (w_chan w)}"
proof (cases "c_Get cl (w_api w) req")
  case (Inl e)
  then show ?thesis using assms [of w] by (auto simp: reconcileWith_def split: prod.splits)
next
  case (Inr obj)
  let ?first = "if \<not> Deleting obj
      then (case AddFinalizer cl obj FinalizerName of (obj', added) \<Rightarrow> if added then update cl obj' w else (Inr obj', w))
      else (Inr obj, w)"
  have first: "w_chan (snd ?first) = w_chan w" by (auto split: prod.splits)
  have rest: "w_chan (snd (andThen (sync w1) (\<lambda>_ w2. if Deleting obj1
        then (case RemoveFinalizer cl obj1 FinalizerName of
                (obj2, removed) \<Rightarrow> if removed then andThen (update cl obj2 w2) (\<lambda>_ w3. (Inr (), w3)) else (Inr (), w2))
        else (Inr (), w2)))) \<in> {w_chan w1, notify (w_chan w1)}" for obj1 w1
  proof -
    obtain x w2 where s: "sync w1 = (x, w2)" by fastforce
    have w2: "w_chan w2 \<in> {w_chan w1, notify (w_chan w1)}" using assms [of w1] s by simp
    have upd: "w_chan (snd (andThen (update cl y w2) (\<lambda>_ w3. (Inr (), w3)))) = w_chan w2" for y
      using update_chan [of cl y w2] by (cases "update cl y w2"; cases "fst (update cl y w2)") auto
    show ?thesis using w2 s upd by (cases x) (auto split: prod.splits)
  qed
  obtain x w1 where f: "?first = (x, w1)" by fastforce
  have "reconcileWith cl sync req w = andThen (x, w1) (\<lambda>obj1 w1. andThen (sync w1) (\<lambda>_ w2. if Deleting obj1
        then (case RemoveFinalizer cl obj1 FinalizerName of
                (obj2, removed) \<Rightarrow> if removed then andThen (update cl obj2 w2) (\<lambda>_ w3. (Inr (), w3)) else (Inr (), w2))
        else (Inr (), w2)))"
    using Inr f by (simp add: reconcileWith_def)
  moreover have "w_chan w1 = w_chan w" using first f by simp
  ultimately show ?thesis using rest [of w1] by (cases x) auto
qed

lemma process_inv_step:
  assumes "process_step E lib dir pcl scl quote p p'" and "process_inv E p"
  shows "process_inv E p'"
  using assms
proof (induction rule: process_step.induct)
  case (request p ext hx r x v)
  from handle_keeps [OF request(4,3,2)] same_confD [of "p_verifier p" v] request show ?case
    by (auto simp: process_inv_def)
next
  case (changed p env err v)
  from update_keeps [OF changed(3), of E] changed show ?case by (auto simp: process_inv_def)
next
  case (policies env ord req w res w' p ch)
  have "Some ch \<in> {Some (p_chan p), notify (Some (p_chan p))}"
    using reconcile_chan [of "syncPolicies pcl quote env ord dir" pcl req w, OF sync_chan(1)] policies
    by (simp add: TrustPolicy_Reconcile_def)
  with policies notify_chan [of "p_chan p" ch] show ?case by (auto simp: process_inv_def)
next
  case (stores env ord req w res w' p ch)
  have "Some ch \<in> {Some (p_chan p), notify (Some (p_chan p))}"
    using reconcile_chan [of "syncStores scl quote env ord dir" scl req w, OF sync_chan(2)] stores
    by (simp add: TrustStore_Reconcile_def)
  with stores notify_chan [of "p_chan p" ch] show ?case by (auto simp: process_inv_def)
next
  case (evict p c)
  with earned_evicted [of E "p_verifier p" c] show ?case by (auto simp: process_inv_def listers_ready_def)
qed (auto simp: process_inv_def)

lemma process_inv_reachable:
  "(process_step E lib dir pcl scl quote)\<^sup>*\<^sup>* p p' \<Longrightarrow> process_inv E p \<Longrightarrow> process_inv E p'"
  by (induction rule: rtranclp_induct) (auto intro: process_inv_step)

text \<open>What the start-up relies on: \<^verbatim>\<open>backoff\<close> retries, the cache library keeps its laws and starts empty,
  and file names are single path elements.\<close>

definition run_ok :: "('c, 'm, 'd, 'n, 'h, 'r) run_ext \<Rightarrow> bool" where
  "run_ok rx \<longleftrightarrow> retries (run_Retry rx)
     \<and> (\<forall>i. case run_attempt rx i of (b, env, s) \<Rightarrow>
          wf_names (disk s) \<and> store_laws (boot_ristretto b) \<and> starts_empty (boot_ristretto b))"

lemma startup_ok:
  assumes "startup rx opts env s dirs = (Inr st, s1, dirs1)"
  obtains life crd where "cacheTTL (run_itoa rx) opts = Inr life"
    and "Setup (run_ctrl rx) (o_metricsAddr opts) (o_probeAddr opts) (o_leaderElect opts) = Inr crd"
    and "st_changes st = CRDChangeInformer crd"
    and "NewVerifier (run_Retry rx) (run_attempt rx) (run_notation rx) (notation_dir (run_getenv rx))
          (verifierOptions opts life (run_ecr rx)) = Inr (st_verifier st)"
  using assms unfolding startup_def connect_def by (auto split: sum.splits option.splits prod.splits)

lemma Setup_chan: "Setup lib m p l = Inr crd \<Longrightarrow> CRDChangeInformer crd = \<lparr> chan_cap = 1, chan_len = 0 \<rparr>"
  by (auto simp: Setup_def Let_def split: sum.splits option.splits prod.splits)

lemma run_ok_attempt:
  "run_ok rx \<Longrightarrow> run_attempt rx n = (b, env, s) \<Longrightarrow>
     wf_names (disk s) \<and> store_laws (boot_ristretto b) \<and> starts_empty (boot_ristretto b)"
  unfolding run_ok_def by (elim conjE allE [where x = n]) simp

lemma NewVerifier_attempt:
  assumes "NewVerifier Retry attempt lib dir opts = Inr v" and "retries Retry"
  obtains n b env s where "attempt n = (b, env, s)" and "newVerifier b lib env s dir opts = Inr v"
proof -
  let ?op = "\<lambda>i. case attempt i of (b, env, s) \<Rightarrow> newVerifier b lib env s dir opts"
  obtain n where n: "Retry ?op = ?op n" using assms(2) unfolding retries_def by blast
  obtain b env s where a: "attempt n = (b, env, s)" by (metis prod_cases3)
  with n assms(1) have "newVerifier b lib env s dir opts = Inr v" by (simp add: NewVerifier_def)
  with a show ?thesis by (rule that)
qed

lemma started_verifier:
  assumes "startup rx opts env s dirs = (Inr st, s1, dirs1)" and "run_ok rx"
  obtains life n b env' s' where "run_attempt rx n = (b, env', s')" and "wf_names (disk s')"
    and "store_laws (boot_ristretto b)" and "starts_empty (boot_ristretto b)"
    and "newVerifier b (run_notation rx) env' s' (notation_dir (run_getenv rx)) (verifierOptions opts life (run_ecr rx))
      = Inr (st_verifier st)"
proof -
  obtain life crd where v: "NewVerifier (run_Retry rx) (run_attempt rx) (run_notation rx) (notation_dir (run_getenv rx))
          (verifierOptions opts life (run_ecr rx)) = Inr (st_verifier st)"
    using assms(1) by (rule startup_ok)
  have "retries (run_Retry rx)" using assms(2) by (simp add: run_ok_def)
  with v obtain n b env' s' where a: "run_attempt rx n = (b, env', s')"
    and run: "newVerifier b (run_notation rx) env' s' (notation_dir (run_getenv rx)) (verifierOptions opts life (run_ecr rx))
      = Inr (st_verifier st)"
    by (rule NewVerifier_attempt)
  from run_ok_attempt [OF assms(2) a] show ?thesis by (intro that [OF a _ _ _ run]) simp_all
qed

lemma process_inv_start:
  assumes "startup rx opts env s dirs = (Inr st, s1, dirs1)" and "run_ok rx"
  shows "process_inv E (serving st s2)"
proof -
  obtain crd where crd: "Setup (run_ctrl rx) (o_metricsAddr opts) (o_probeAddr opts) (o_leaderElect opts) = Inr crd"
    and ch: "st_changes st = CRDChangeInformer crd"
    using assms(1) by (rule startup_ok)
  have "earned E (st_verifier st) \<and> listers_ready (st_verifier st) \<and> \<not> stopCh_closed (st_verifier st)"
    using assms by (rule started_verifier) (rule newVerifier_earned)
  then show ?thesis using Setup_chan [OF crd] ch by (simp add: process_inv_def serving_def)
qed

lemma reload_enabled:
  assumes "p_phase p = Serving" and "0 < chan_len (p_chan p)"
  shows "\<exists>v. process_step E lib dir pcl scl quote p
     (p\<lparr> p_verifier := v, p_chan := (p_chan p)\<lparr> chan_len := chan_len (p_chan p) - 1 \<rparr> \<rparr>)"
proof -
  obtain e v where "UpdateNotationVerifier lib calm (p_os p) dir (p_verifier p) = (e, v)" by fastforce
  from process_step.changed [OF assms this] show ?thesis by blast
qed

text \<open>Within the deadline every server is done with, and then nothing holds up \<^verbatim>\<open>Stop\<close>.\<close>

lemma srv_Shutdown_returns:
  "now \<le> d \<Longrightarrow> \<exists>e later. srv_Shutdown (Some d) now srv = Some (e, later) \<and> now \<le> later \<and> later \<le> d"
  by (cases "srv_idle srv") (auto simp: srv_Shutdown_def max_def)

lemma shutdownServers_returns:
  "now \<le> d \<Longrightarrow> \<exists>warnings later. shutdownServers (Some d) now servers = Some (warnings, later) \<and> now \<le> later \<and> later \<le> d"
proof (induction servers arbitrary: now)
  case (Cons srv servers)
  obtain e now1 where s: "srv_Shutdown (Some d) now srv = Some (e, now1)" and "now \<le> now1" "now1 \<le> d"
    using srv_Shutdown_returns [OF Cons.prems, of srv] by (elim exE conjE) (rule that)
  with Cons.IH [of now1] show ?case by (auto simp: s)
qed simp

lemma shutdown_returns:
  assumes "\<not> stopCh_closed v" and "waits True"
  shows "\<exists>later. shutdown waits now servers err v
      = Some ((Inr err, v\<lparr> stopCh_closed := True, v_cache := Close (v_cache v) \<rparr>), later)
    \<and> now \<le> later \<and> later \<le> now + shutdownTimeout"
proof -
  obtain warnings later where "shutdownServers (Some (now + shutdownTimeout)) now servers = Some (warnings, later)"
    and "now \<le> later" "later \<le> now + shutdownTimeout"
    using shutdownServers_returns [of now "now + shutdownTimeout" servers] by (auto simp: shutdownTimeout_def time_Second_def)
  with assms show ?thesis by (simp add: shutdown_def)
qed

text \<open>A process that no longer serves only drains until it exits for the reason it had.\<close>

lemma draining_step:
  assumes "process_step E lib dir pcl scl quote p p'" and "p_phase p = Draining err" and "\<not> stopCh_closed (p_verifier p)"
  shows "p_phase p' = Draining err \<or> p_phase p' = Exited err \<and> stopCh_closed (p_verifier p')"
  using assms
proof cases
  case (leave err' waits now servers res v later)
  then have "waits True" using assms(3) by (auto simp: shutdown_def split: option.splits if_splits)
  with shutdown_returns [OF assms(3), of waits now servers err'] leave assms(2) show ?thesis by (auto simp: exit_of_def)
qed auto

section \<open>The configuration in force\<close>

abbreviation conf_of :: "'z verifier_conf_scheme \<Rightarrow> verifier_conf" where
  "conf_of v \<equiv> verifier_conf.truncate v"

lemma conf_step:
  assumes "process_step E lib dir pcl scl quote p p'"
  shows "conf_of (p_verifier p') = conf_of (p_verifier p)"
  using assms
proof cases
  case (request ext hx r x v)
  with handle_keeps [of hx ext r "p_verifier p" x v E] show ?thesis
    by (auto simp: same_conf_def verifier_conf.truncate_def)
next
  case (leave err waits now servers res v later)
  then have "conf_of v = conf_of (p_verifier p)"
    by (cases "stopCh_closed (p_verifier p)") (auto simp: shutdown_def verifier_conf.truncate_def split: option.splits prod.splits if_splits)
  with leave show ?thesis by simp
qed (auto simp: UpdateNotationVerifier_def verifier_conf.truncate_def split: prod.splits option.splits if_splits)

lemma startup_conf:
  assumes "startup rx opts env s dirs = (Inr st, s1, dirs1)" and "run_ok rx"
  shows "reviewToken (st_verifier st) = o_reviewKyvernoToken opts
    \<and> tokenReviewAudiences (st_verifier st) = splitList (o_tokenReviewAudiences opts)
    \<and> allowedUsers (st_verifier st) = splitList (o_allowedUsers opts)"
proof -
  obtain life n b env' s' where "wf_names (disk s')"
    and run: "newVerifier b (run_notation rx) env' s' (notation_dir (run_getenv rx)) (verifierOptions opts life (run_ecr rx))
      = Inr (st_verifier st)"
    using assms by (rule started_verifier)
  with newVerifier_ready [OF run] have "conf_of (st_verifier st) = conf_of (applyAll (verifierOptions opts life (run_ecr rx)) zero_setup)"
    by (simp add: ready_def)
  then show ?thesis unfolding verifierOptions_setup by (simp add: verifier_conf.truncate_def)
qed

text \<open>The request carries a token of a user that the command line allows.\<close>

definition authorized_by :: "options \<Rightarrow> http_ext \<Rightarrow> string \<Rightarrow> bool" where
  "authorized_by opts hx header \<longleftrightarrow>
     (\<exists>token st. bearer header = Some token
        \<and> TokenReviews_Create hx token (splitList (o_tokenReviewAudiences opts)) = Inr st
        \<and> Authenticated st \<and> tr_Username st \<in> set (splitList (o_allowedUsers opts)))"

lemma authorized_conf:
  assumes "startup rx opts env s dirs = (Inr st, s1, dirs1)" and "run_ok rx" and "conf_of v = conf_of (st_verifier st)"
  shows "reviewToken v = o_reviewKyvernoToken opts"
    and "authorized hx v header \<longleftrightarrow> authorized_by opts hx header"
proof -
  have "reviewToken v = reviewToken (st_verifier st)" "tokenReviewAudiences v = tokenReviewAudiences (st_verifier st)"
      "allowedUsers v = allowedUsers (st_verifier st)"
    using assms(3) by (simp_all add: verifier_conf.truncate_def)
  with startup_conf [OF assms(1,2)] show "reviewToken v = o_reviewKyvernoToken opts"
    and "authorized hx v header \<longleftrightarrow> authorized_by opts hx header"
    by (simp_all add: authorized_def authorized_by_def)
qed

section \<open>Verified responses of a running process\<close>

text \<open>Image \<open>ref\<close> with digest \<open>d\<close>, and an attestation of it, as verified by \<open>nv\<close> at some time of the run.\<close>

definition verified_in :: "('n, 'h) ext set \<Rightarrow> 'n \<Rightarrow> string \<Rightarrow> string \<Rightarrow> bool" where
  "verified_in E nv ref d \<longleftrightarrow> (\<exists>ext \<in> E. \<exists>opts. verified_as ext opts nv ref d)"

definition attested_in :: "('n, 'h) ext set \<Rightarrow> 'n \<Rightarrow> string \<Rightarrow> string \<Rightarrow> AnyAllConditions list \<Rightarrow> bool" where
  "attested_in E nv ref ty cs \<longleftrightarrow>
     (\<exists>ext \<in> E. \<exists>opts. attestation_verified ext opts nv ref ty cs \<or> attestation_skipped ext opts nv ref ty)"

definition all_verified :: "('n, 'h) ext set \<Rightarrow> ('n, 'h) ext \<Rightarrow> 'n \<Rightarrow> VerificationRequest \<Rightarrow> verdict list \<Rightarrow> bool" where
  "all_verified E ext nv vr vs \<longleftrightarrow>
     fst ` set vs = selects ext vr
     \<and> (\<forall>(info, img) \<in> set vs. verified_in E nv (image_String ext (info_Image info)) (img_Digest img)
          \<and> (img_Digest img \<noteq> [] \<longrightarrow>
              (\<forall>ty cs. required (required_types (wildcard_Match ext) (Attestations vr) (image_String ext (info_Image info))) ty = Some cs \<longrightarrow>
                 attested_in E nv (image_String ext (info_Image info)) ty cs)))"

section \<open>Properties\<close>

text \<open>
  C7. From a successful start on, whatever requests, reloads, syncs, evictions and failures happen in
  whatever order: the process reports ready exactly while it serves; at most one notification is
  pending and while it serves a pending one can be taken, and then none is; the request path
  finds every lister it needs. Once it stops serving it never serves again and ends only with the
  error it stopped for; whenever the shutdown is run, and however long connections stay active, the
  servers are done with within \<^verbatim>\<open>shutdownTimeout\<close>, and the shutdown returns, neither waiting forever for
  informers that end once their channel is closed nor panicking on a closed channel.
\<close>

theorem process_lifecycle:
  assumes "startup rx opts env s dirs = (Inr st, s1, dirs1)" and "run_ok rx"
    and "(process_step E lib dir pcl scl quote)\<^sup>*\<^sup>* (serving st s2) p"
  shows "(readyz p = None \<longleftrightarrow> p_phase p = Serving) \<and> chan_len (p_chan p) \<le> 1
    \<and> (p_phase p = Serving \<longrightarrow> chan_len (p_chan p) = 1 \<longrightarrow>
         (\<exists>p'. process_step E lib dir pcl scl quote p p' \<and> chan_len (p_chan p') = 0 \<and> p_phase p' = Serving))
    \<and> ((\<forall>e. p_phase p \<noteq> Exited e) \<longrightarrow> listers_ready (p_verifier p))
    \<and> (\<forall>err. p_phase p = Draining err \<longrightarrow>
         (\<forall>p'. process_step E lib dir pcl scl quote p p' \<longrightarrow>
            p_phase p' = Draining err \<or> p_phase p' = Exited err \<and> stopCh_closed (p_verifier p'))
         \<and> (\<forall>waits now servers. waits True \<longrightarrow> (\<exists>v later. shutdown waits now servers err (p_verifier p) = Some ((Inr err, v), later)
              \<and> later \<le> now + 20 * 1000000000 \<and> stopCh_closed v
              \<and> process_step E lib dir pcl scl quote p (p\<lparr> p_phase := Exited err, p_verifier := v \<rparr>))))"
proof -
  have inv: "process_inv E p" using process_inv_reachable [OF assms(3) process_inv_start [OF assms(1,2)]] .
  have reload: "\<exists>p'. process_step E lib dir pcl scl quote p p' \<and> chan_len (p_chan p') = 0 \<and> p_phase p' = Serving"
    if sv: "p_phase p = Serving" and one: "chan_len (p_chan p) = 1"
  proof -
    obtain v where "process_step E lib dir pcl scl quote p
       (p\<lparr> p_verifier := v, p_chan := (p_chan p)\<lparr> chan_len := chan_len (p_chan p) - 1 \<rparr> \<rparr>)" (is "process_step _ _ _ _ _ _ _ ?p'")
      using reload_enabled [of p E lib dir pcl scl quote] sv one by auto
    moreover have "chan_len (p_chan ?p') = 0" and "p_phase ?p' = Serving" using sv one by simp_all
    ultimately show ?thesis by blast
  qed
  have drain: "p_phase p' = Draining err \<or> p_phase p' = Exited err \<and> stopCh_closed (p_verifier p')"
    if "p_phase p = Draining err" and "process_step E lib dir pcl scl quote p p'" for err p'
    using draining_step [OF that(2,1)] inv that(1) by (simp add: process_inv_def)
  have leave: "\<exists>v later. shutdown waits now servers err (p_verifier p) = Some ((Inr err, v), later)
      \<and> later \<le> now + 20 * 1000000000 \<and> stopCh_closed v
      \<and> process_step E lib dir pcl scl quote p (p\<lparr> p_phase := Exited err, p_verifier := v \<rparr>)"
    if d: "p_phase p = Draining err" and w: "waits True" for err waits now servers
  proof -
    have "\<not> stopCh_closed (p_verifier p)" using inv d by (simp add: process_inv_def)
    from shutdown_returns [of "p_verifier p" waits now servers err, OF this w] obtain v later where
      run: "shutdown waits now servers err (p_verifier p) = Some ((Inr err, v), later)"
      and "later \<le> now + shutdownTimeout" "stopCh_closed v" by fastforce
    with process_step.leave [OF d run, of E lib dir pcl scl quote] show ?thesis
      by (intro exI [of _ v] exI [of _ later]) (simp add: exit_of_def shutdownTimeout_def time_Second_def)
  qed
  show ?thesis using inv reload drain leave by (auto simp: process_inv_def readyz_def)
qed

section \<open>A small process\<close>

definition demo_ctrl :: "(string, string) ctrl_lib" where
  "demo_ctrl = \<lparr> ctl_GetConfig = Inr ''cfg'', ctl_NewManager = (\<lambda>c m. Inr c), ctl_SetupPolicies = (\<lambda>m. (None, m)),
     ctl_SetupStores = (\<lambda>m. (None, m)), ctl_AddHealthzCheck = (\<lambda>m n. (None, m)), ctl_AddReadyzCheck = (\<lambda>m n. (None, m)) \<rparr>"

definition demo_rx :: "(string, string, string, string, string, (string \<times> cache_entry) list) run_ext" where
  "demo_rx = \<lparr> rest_InClusterConfig = Inr ''cfg'', client_NewForConfig = (\<lambda>c. None), leaderelection_New = None,
     run_ctrl = demo_ctrl, run_getenv = (\<lambda>x. if x = ''NOTATION_DIR'' then ''/n'' else []), run_umask = id, run_itoa = (\<lambda>i. []),
     run_ecr = (\<lambda>i r. Inl (Err [])), run_notation = demo_lib, run_Retry = retry_once, run_attempt = demo_attempt \<rparr>"

lemma demo_run_ok: "run_ok demo_rx"
  by (simp add: run_ok_def demo_rx_def retries_retry_once demo_attempt_def demo_boot_def wf_names_demo starts_empty_def
      list_store_def [unfolded] store_laws_def split: if_splits)

lemma demo_startup:
  obtains st where "startup demo_rx (demo_options\<lparr> o_local := True \<rparr>) calm demo_os dirs = (Inr st, demo_os, dirs)"
proof -
  obtain f where f: "RefreshVerifiers demo_lib calm demo_os [''n''] NewNotationVerifierFactory = (None, f)"
    by (metis demo_refreshes)
  have dir: "notation_dir (\<lambda>x. if x = ''NOTATION_DIR'' then ''/n'' else []) = [''n'']"
    by code_simp
  have "is_ok (NewVerifier retry_once demo_attempt demo_lib [''n''] opts)" for opts
    by (simp add: NewVerifier_def retry_once_def demo_attempt_def newVerifier_def demo_boot_def f New_cache_def
        WithCacheEnabled_cache_def WithMaxSize_def WithTTLDuration_def list_store_def Let_def)
  then obtain v where v: "NewVerifier retry_once demo_attempt demo_lib [''n'']
      (verifierOptions (demo_options\<lparr> o_local := True \<rparr>) 3600000000000 (\<lambda>i r. Inl (Err []))) = Inr v"
    unfolding is_ok_iff by blast
  have life: "cacheTTL (\<lambda>i. []) (demo_options\<lparr> o_local := True \<rparr>) = Inr 3600000000000"
    by (simp add: cacheTTL_def demo_options_def time_Second_def int64_def)
  show ?thesis
    by (rule that) (simp add: startup_def connect_def demo_rx_def life v dir Setup_def demo_ctrl_def Let_def)
qed

definition demo_dirs :: notation_dirs where
  "demo_dirs = \<lparr> UserConfigDir = ''/n'', UserLibexecDir = ''/n'' \<rparr>"

text \<open>A process that is signalled while one server keeps an active connection forever.\<close>

theorem process_lifecycle_witness:
  "\<exists>st. startup demo_rx (demo_options\<lparr> o_local := True \<rparr>) calm demo_os demo_dirs = (Inr st, demo_os, demo_dirs)
     \<and> readyz (serving st demo_os) = None
     \<and> (let p = (serving st demo_os)\<lparr> p_phase := Draining None, p_ready := False \<rparr>
        in readyz p \<noteq> None
           \<and> (\<exists>v later. shutdown (\<lambda>closed. closed) 7 [\<lparr> srv_Addr = '':9080'', srv_idle = None, srv_lnerr = None \<rparr>] None (p_verifier p) = Some ((Inr None, v), later)
                \<and> later \<le> 7 + 20 * 1000000000))"
proof -
  obtain st where st: "startup demo_rx (demo_options\<lparr> o_local := True \<rparr>) calm demo_os demo_dirs = (Inr st, demo_os, demo_dirs)"
    by (rule demo_startup)
  let ?step = "process_step {} demo_lib [''n''] demo_client demo_client id"
  let ?p = "(serving st demo_os)\<lparr> p_phase := Draining None, p_ready := False \<rparr>"
  have sv: "p_phase (serving st demo_os) = Serving" by (simp add: serving_def)
  then have "?step\<^sup>*\<^sup>* (serving st demo_os) ?p" by (intro r_into_rtranclp process_step.signalled)
  note end_run = process_lifecycle [OF st demo_run_ok this]
  have "readyz (serving st demo_os) = None"
    using conjunct1 [OF process_lifecycle [OF st demo_run_ok rtranclp.rtrancl_refl
        [of ?step "serving st demo_os"]]] sv by simp
  moreover have "readyz ?p \<noteq> None" using conjunct1 [OF end_run] by simp
  moreover have "p_phase ?p = Draining None" by simp
  with end_run have all: "\<forall>waits now servers. waits True \<longrightarrow> (\<exists>v later. shutdown waits now servers None (p_verifier ?p) = Some ((Inr None, v), later)
      \<and> later \<le> now + 20 * 1000000000)" by blast
  have "\<exists>v later. shutdown (\<lambda>closed. closed) 7 [\<lparr> srv_Addr = '':9080'', srv_idle = None, srv_lnerr = None \<rparr>] None (p_verifier ?p) = Some ((Inr None, v), later)
      \<and> later \<le> 7 + 20 * 1000000000"
    by (rule all [rule_format, of "\<lambda>closed. closed"]) simp
  ultimately show ?thesis using st unfolding Let_def by blast
qed

end
