(* ===== verification/Overlap.thy ===== *)
theory Overlap
  imports Process
begin

text \<open>
  Requests that overlap reloads. The handler is taken apart at the point where a request has
  picked the verifier of its trust policy (\<^verbatim>\<open>GetVerifier\<close> in \<^verbatim>\<open>verifyImagesAndAttestations\<close>, which holds the
  lock of the factory only for the lookup): from there on it runs with that verifier, whatever is
  loaded meanwhile. Any number of requests may be in flight between the two parts. Runs in which no
  reload changes the verifiers under a request, and what happens to the verdicts of the others.
\<close>

section \<open>The two parts of a request\<close>

definition admit ::
    "http_ext \<Rightarrow> httpRequest \<Rightarrow> ('n, 'h, 'r) verifier \<Rightarrow> httpResponse result + VerificationRequest" where
  "admit hx r v =
     (if Method r \<noteq> ''POST'' then Inl (Inr (http_Error ''Method Not Allowed'' 405))
      else (case (if reviewToken v then fst (authenticate hx v (AuthorizationHeader r)) else Inr (200, [])) of
              Inl e \<Rightarrow> Inl (Inl e)
            | Inr (status, msg) \<Rightarrow>
                if status \<noteq> 200 then Inl (Inr (http_Error msg status))
                else (case decode_RequestData hx (MaxBytesReader (Body r) maxRequestBodyBytes) of
                        Inl (Panic p) \<Rightarrow> Inl (Inl (Panic p))
                      | Inl (Err e) \<Rightarrow> Inl (Inr (http_Error (''failed to decode request body: '' @ e) 406))
                      | Inr requestData \<Rightarrow>
                          (case processRequestData (fmt_attestation hx) requestData of
                             Inl e \<Rightarrow> Inl (Inr (http_Error (gerr_text e) 406))
                           | Inr vr \<Rightarrow> Inr vr))))"

definition resume ::
    "('n, 'h) ext \<Rightarrow> VerificationRequest \<Rightarrow> 'n \<Rightarrow> ('n, 'h, 'r) verifier \<Rightarrow> (ResponseData, ('n, 'h, 'r) verifier) call" where
  "resume ext requestData nv v =
     (case getKeychain ext v of
        Inl e \<Rightarrow> (failed NewResponse (wrap ''failed to get remote options: failed to retrieve credentials'' e), v)
      | Inr kc \<Rightarrow>
          (case getRemoteOpts ext kc of
             Inl e \<Rightarrow> (failed NewResponse (wrap ''failed to get remote options'' e), v)
           | Inr remoteOpts \<Rightarrow>
               (case getPluginConfig ext v of
                  Inl e \<Rightarrow> (failed NewResponse e, v)
                | Inr pluginConfig \<Rightarrow>
                    map_prod id rv_verifier (verifyWith ext requestData (start_request ext requestData v nv kc remoteOpts pluginConfig)))))"

definition answer :: "http_ext \<Rightarrow> ResponseData result \<Rightarrow> httpResponse result" where
  "answer hx x =
     (case x of
        Inl (Panic p) \<Rightarrow> Inl (Panic p)
      | Inl (Err e) \<Rightarrow> Inr (http_Error e 500)
      | Inr respData \<Rightarrow>
          if \<not> Verified respData then Inr (http_Error (ErrorMessage respData) 406)
          else (case marshal_ResponseData hx respData of
                  Inl (Panic p) \<Rightarrow> Inl (Panic p)
                | Inl (Err e) \<Rightarrow> Inr (http_Error e 500)
                | Inr data \<Rightarrow> Inr \<lparr> Status = 200, ContentType = ''application/json'', ResponseBody = data \<rparr>))"

lemma verify_resume:
  "verifyImagesAndAttestations ext vr v =
     (case GetVerifier (getenv ext) (notationVerifierFactory v) vr of
        Inl e \<Rightarrow> (failed NewResponse (wrap ''failed to create notation verifier'' e), v)
      | Inr nv \<Rightarrow> resume ext vr nv v)"
  by (simp add: verifyImagesAndAttestations_def resume_def start_request_def map_prod_def id_def split: sum.splits prod.splits)

lemma respond_answer:
  "respond hx ext rd v =
     (case processRequestData (fmt_attestation hx) rd of
        Inl e \<Rightarrow> (Inr (http_Error (gerr_text e) 406), v)
      | Inr vr \<Rightarrow> map_prod (answer hx) id (verifyImagesAndAttestations ext vr v))"
  by (auto simp: respond_def answer_def split: sum.splits prod.splits gerr.splits)

text \<open>With nothing in between, the two parts are the handler.\<close>

lemma handle_split:
  "HandleCheckImages hx ext r v =
     (case admit hx r v of
        Inl x \<Rightarrow> (x, v)
      | Inr vr \<Rightarrow>
          (case GetVerifier (getenv ext) (notationVerifierFactory v) vr of
             Inl e \<Rightarrow> (answer hx (failed NewResponse (wrap ''failed to create notation verifier'' e)), v)
           | Inr nv \<Rightarrow> map_prod (answer hx) id (resume ext vr nv v)))"
  by (auto simp: HandleCheckImages_def admit_def respond_answer verify_resume split: sum.splits prod.splits gerr.splits if_splits)

section \<open>Many requests at once\<close>

text \<open>A request in flight, with the verifier it picked; the process with the requests in flight and all
  the verifiers that have been in force so far.\<close>

record ('n, 'h) flight =
  fl_hx :: http_ext
  fl_ext :: "('n, 'h) ext"
  fl_request :: VerificationRequest
  fl_verifier :: 'n

record ('n, 'h, 'r) crowd =
  cr_process :: "('n, 'h, 'r) process"
  cr_flights :: "('n, 'h) flight list"
  cr_past :: "(string \<times> 'n) set"

definition crowd_of :: "('n, 'h, 'r) process \<Rightarrow> ('n, 'h, 'r) crowd" where
  "crowd_of p = \<lparr> cr_process = p, cr_flights = [], cr_past = in_force (p_verifier p) \<rparr>"

inductive crowd_step ::
    "('n, 'h) ext set \<Rightarrow> ('d, 'n) notation_lib \<Rightarrow> path \<Rightarrow> (TrustPolicy, 'a) client \<Rightarrow> (TrustStore, 'b) client \<Rightarrow> (string \<Rightarrow> string)
     \<Rightarrow> ('n, 'h, 'r) crowd \<Rightarrow> ('n, 'h, 'r) crowd \<Rightarrow> bool"
  for E lib dir pcl scl quote where
  arrive: "crowd_step E lib dir pcl scl quote c
      (c\<lparr> cr_flights := \<lparr> fl_hx = hx, fl_ext = ext, fl_request = vr, fl_verifier = nv \<rparr> # cr_flights c \<rparr>)"
    if "\<forall>e. p_phase (cr_process c) \<noteq> Exited e" and "ext \<in> E" and "well_formed hx ext r"
    and "admit hx r (p_verifier (cr_process c)) = Inr vr"
    and "GetVerifier (getenv ext) (notationVerifierFactory (p_verifier (cr_process c))) vr = Inr nv"
| finish: "crowd_step E lib dir pcl scl quote c
      (c\<lparr> cr_process := (cr_process c)\<lparr> p_verifier := v \<rparr>, cr_flights := remove1 fl (cr_flights c) \<rparr>)"
    if "fl \<in> set (cr_flights c)" and "\<forall>e. p_phase (cr_process c) \<noteq> Exited e"
    and "resume (fl_ext fl) (fl_request fl) (fl_verifier fl) (p_verifier (cr_process c)) = (x, v)"
| between: "crowd_step E lib dir pcl scl quote c (c\<lparr> cr_process := p, cr_past := cr_past c \<union> in_force (p_verifier p) \<rparr>)"
    if "process_step E lib dir pcl scl quote (cr_process c) p"

section \<open>The invariant\<close>

definition flight_ok :: "('n, 'h) ext set \<Rightarrow> (string \<times> 'n) set \<Rightarrow> ('n, 'h) flight \<Rightarrow> bool" where
  "flight_ok E R fl \<longleftrightarrow> fl_ext fl \<in> E \<and> (getTrustPolicy (getenv (fl_ext fl)) (fl_request fl), fl_verifier fl) \<in> R
     \<and> admissible (fl_ext fl) (fl_request fl) \<and> range_order (order (fl_ext fl)) \<and> wf_images (Images (fl_request fl))"

definition crowd_inv :: "('n, 'h) ext set \<Rightarrow> ('n, 'h, 'r) crowd \<Rightarrow> bool" where
  "crowd_inv E c \<longleftrightarrow>
     in_force (p_verifier (cr_process c)) \<subseteq> cr_past c
     \<and> (\<forall>fl \<in> set (cr_flights c). flight_ok E (cr_past c) fl)
     \<and> ((\<forall>e. p_phase (cr_process c) \<noteq> Exited e) \<longrightarrow> vouched E (cr_past c) (v_cache (p_verifier (cr_process c))))"

lemma resume_cases:
  obtains (failed) e where "resume ext vr nv v = (failed NewResponse e, v)"
  | (run) kc opts pc where "resume ext vr nv v = map_prod id rv_verifier (verifyWith ext vr (start_request ext vr v nv kc opts pc))"
proof (cases "\<exists>kc opts pc. getKeychain ext v = Inr kc \<and> getRemoteOpts ext kc = Inr opts \<and> getPluginConfig ext v = Inr pc")
  case True
  then obtain kc opts pc where "getKeychain ext v = Inr kc" "getRemoteOpts ext kc = Inr opts" "getPluginConfig ext v = Inr pc"
    by blast
  then show thesis by (intro run) (simp add: resume_def)
next
  case False
  then have "\<exists>e. resume ext vr nv v = (failed NewResponse e, v)"
    by (auto simp: resume_def split: sum.splits)
  then show thesis using failed by blast
qed

text \<open>Every selected image and every required attestation was accepted by a verifier of \<open>R\<close> for the trust
  policy of the request.\<close>

definition all_vouched ::
    "('n, 'h) ext set \<Rightarrow> (string \<times> 'n) set \<Rightarrow> ('n, 'h) ext \<Rightarrow> VerificationRequest \<Rightarrow> verdict list \<Rightarrow> bool" where
  "all_vouched E R ext vr vs \<longleftrightarrow>
     fst ` set vs = selects ext vr
     \<and> (\<forall>(info, img) \<in> set vs.
          (\<exists>nv. (getTrustPolicy (getenv ext) vr, nv) \<in> R \<and> verified_in E nv (image_String ext (info_Image info)) (img_Digest img))
          \<and> (img_Digest img \<noteq> [] \<longrightarrow>
              (\<forall>ty cs. required (required_types (wildcard_Match ext) (Attestations vr) (image_String ext (info_Image info))) ty = Some cs \<longrightarrow>
                 (\<exists>nv. (getTrustPolicy (getenv ext) vr, nv) \<in> R \<and> attested_in E nv (image_String ext (info_Image info)) ty cs))))"

lemma response_vouched:
  assumes "response_sound ext vr rv (image_earned E R) (attestation_earned E R) resp"
    and "rv_trustPolicy rv = getTrustPolicy (getenv ext) vr" and "(getTrustPolicy (getenv ext) vr, notationVerifier rv) \<in> R"
    and "ext \<in> E"
  shows "\<exists>vs. all_vouched E R ext vr vs \<and> Results resp = patches ext vs"
proof -
  let ?tp = "getTrustPolicy (getenv ext) vr"
  from assms(1,2) obtain vs where vs: "fst ` set vs = selects ext vr" "Results resp = patches ext vs"
    and img: "good_verdicts ext ?tp (image_earned E R) vs"
    and att: "\<forall>img \<in> pinned ext vs. \<forall>ty cs. required (required_types (wildcard_Match ext) (Attestations vr) img) ty = Some cs \<longrightarrow>
       attested ext rv (attestation_earned E R) img ty cs"
    by (auto simp: response_sound_def)
  have "\<exists>nv. (?tp, nv) \<in> R \<and> verified_in E nv (image_String ext (info_Image info)) (img_Digest i)" if "(info, i) \<in> set vs" for info i
    using img that by (fastforce simp: good_verdicts_def image_earned_def verified_in_def)
  moreover have "\<exists>nv. (?tp, nv) \<in> R \<and> attested_in E nv (image_String ext (info_Image info)) ty cs"
    if mem: "(info, i) \<in> set vs" and pin: "img_Digest i \<noteq> []"
      and req: "required (required_types (wildcard_Match ext) (Attestations vr) (image_String ext (info_Image info))) ty = Some cs"
    for info i ty cs
  proof -
    have "image_String ext (info_Image info) \<in> pinned ext vs" using mem pin by (force simp: pinned_def)
    with att req have "attested ext rv (attestation_earned E R) (image_String ext (info_Image info)) ty cs" by blast
    then show ?thesis
      using assms(2-4) unfolding attested_def attestation_earned_def attested_in_def by auto
  qed
  ultimately have "all_vouched E R ext vr vs" using vs(1) by (auto simp: all_vouched_def)
  with vs(2) show ?thesis by blast
qed

text \<open>A request keeps the cache vouched for, and a positive response is vouched for.\<close>

lemma resume_sound:
  assumes "flight_ok E R fl" and "vouched E R (v_cache v)"
    and "resume (fl_ext fl) (fl_request fl) (fl_verifier fl) v = (x, v')"
  shows "vouched E R (v_cache v') \<and> same_conf v v' \<and> (\<forall>resp. x = Inr resp \<longrightarrow> Verified resp \<longrightarrow>
      (\<exists>vs. all_vouched E R (fl_ext fl) (fl_request fl) vs \<and> Results resp = patches (fl_ext fl) vs))"
proof (cases rule: resume_cases [of "fl_ext fl" "fl_request fl" "fl_verifier fl" v])
  case (failed e)
  with assms show ?thesis by (auto dest: failed_cases)
next
  case (run kc opts pc)
  let ?P = "image_earned E R" and ?Q = "attestation_earned E R"
  let ?ext = "fl_ext fl" and ?req = "fl_request fl" and ?nv = "fl_verifier fl"
  let ?rv = "start_request ?ext ?req v ?nv kc opts pc"
  have x: "x = fst (verifyWith ?ext ?req ?rv)" and v': "v' = rv_verifier (snd (verifyWith ?ext ?req ?rv))"
    using run assms(3) by (cases "verifyWith ?ext ?req ?rv"; simp)+
  have "covers ?ext opts ?nv (getTrustPolicy (getenv ?ext) ?req) ?P ?Q"
    using assms(1) by (intro earned_covers) (auto simp: flight_ok_def)
  with verifyWith_sound [of ?ext ?rv ?P ?Q ?req] assms(1,2)
  have s: "sound_step ?P ?Q ?rv (snd (verifyWith ?ext ?req ?rv))"
    and r: "\<And>resp. x = Inr resp \<Longrightarrow> Verified resp \<Longrightarrow> response_sound ?ext ?req ?rv ?P ?Q resp"
    by (simp_all add: flight_ok_def vouched_def x)
  have "vouched E R (v_cache v')"
    using sound_stepD [OF s] assms(2) by (simp add: vouched_def v')
  moreover have "same_conf v v'"
  proof -
    have "same_request ?rv (snd (verifyWith ?ext ?req ?rv))" using s by (simp add: sound_step_def)
    then obtain c k where "snd (verifyWith ?ext ?req ?rv) = set_provider (set_cache ?rv c) k"
      unfolding same_request_iff by blast
    then show ?thesis unfolding v' same_conf_def by (auto simp: set_cache_def set_provider_def)
  qed
  moreover have "\<exists>vs. all_vouched E R ?ext ?req vs \<and> Results resp = patches ?ext vs" if "x = Inr resp" "Verified resp" for resp
    by (rule response_vouched [OF r [OF that]]) (use assms(1) in \<open>simp_all add: flight_ok_def\<close>)
  ultimately show ?thesis by blast
qed

lemma process_step_vouched:
  assumes "process_step E lib dir pcl scl quote p p'" and "vouched E R (v_cache (p_verifier p))"
    and "in_force (p_verifier p) \<subseteq> R" and "\<forall>e. p_phase p' \<noteq> Exited e"
  shows "vouched E (R \<union> in_force (p_verifier p')) (v_cache (p_verifier p'))"
  using assms(1)
proof cases
  case (request ext hx r x v)
  with handle_vouched [OF request(5,4,3) assms(2,3)] show ?thesis by (auto intro: vouched_mono)
next
  case (changed env err v)
  have "v_cache v = v_cache (p_verifier p) \<or> v_cache v = Clear (v_cache (p_verifier p))"
    using changed(4) by (auto simp: UpdateNotationVerifier_def split: prod.splits option.splits)
  moreover have "cache_ok (v_cache (p_verifier p))" using assms(2) by (simp add: vouched_def cache_inv_def)
  ultimately show ?thesis using changed(1) assms(2) by (auto intro: vouched_mono vouched_Clear)
next
  case (evict c)
  with vouched_evicted [OF assms(2)] show ?thesis by (auto intro: vouched_mono)
qed (use assms in \<open>auto intro: vouched_mono\<close>)

lemma process_step_exited:
  "process_step E lib dir pcl scl quote p p' \<Longrightarrow> \<forall>e. p_phase p' \<noteq> Exited e \<Longrightarrow> \<forall>e. p_phase p \<noteq> Exited e"
  by (induction rule: process_step.induct) auto

lemma flight_ok_mono: "flight_ok E R fl \<Longrightarrow> R \<subseteq> R' \<Longrightarrow> flight_ok E R' fl"
  by (auto simp: flight_ok_def)

lemma admit_well_formed:
  "admit hx r v = Inr vr \<Longrightarrow> well_formed hx ext r \<Longrightarrow> admissible ext vr \<and> range_order (order ext) \<and> wf_images (Images vr)"
  using processRequestData_fields(2)
  by (fastforce simp: admit_def well_formed_def split: if_splits sum.splits gerr.splits prod.splits)

lemma crowd_inv_step:
  assumes "crowd_step E lib dir pcl scl quote c c'" and "crowd_inv E c"
  shows "crowd_inv E c'"
  using assms(1)
proof cases
  case (arrive ext hx r vr nv)
  have "flight_ok E (cr_past c) \<lparr> fl_hx = hx, fl_ext = ext, fl_request = vr, fl_verifier = nv \<rparr>"
    using assms(2) admit_well_formed [OF arrive(5,4)] in_force_verifier [OF arrive(6)] arrive(3)
    by (auto simp: flight_ok_def crowd_inv_def)
  with assms(2) show ?thesis by (simp add: arrive(1) crowd_inv_def)
next
  case (finish fl x v)
  have "flight_ok E (cr_past c) fl" "vouched E (cr_past c) (v_cache (p_verifier (cr_process c)))"
    using assms(2) finish(2,3) by (auto simp: crowd_inv_def)
  from resume_sound [OF this finish(4)] have v: "vouched E (cr_past c) (v_cache v)" "same_conf (p_verifier (cr_process c)) v" by blast+
  have "in_force v = in_force (p_verifier (cr_process c))" using same_confD [OF v(2)] by (simp add: in_force_def)
  with v(1) assms(2) show ?thesis
    using set_remove1_subset [of fl "cr_flights c"] by (auto simp: finish(1) crowd_inv_def)
next
  case (between p)
  have "vouched E (cr_past c \<union> in_force (p_verifier p)) (v_cache (p_verifier p))" if "\<forall>e. p_phase p \<noteq> Exited e"
    using process_step_vouched [OF between(2)] process_step_exited [OF between(2)] that assms(2) by (simp add: crowd_inv_def)
  with assms(2) show ?thesis by (auto simp: between(1) crowd_inv_def intro: flight_ok_mono)
qed

lemma crowd_inv_reachable:
  "(crowd_step E lib dir pcl scl quote)\<^sup>*\<^sup>* c c' \<Longrightarrow> crowd_inv E c \<Longrightarrow> crowd_inv E c'"
  by (induction rule: rtranclp_induct) (auto intro: crowd_inv_step)

lemma crowd_inv_start:
  assumes "startup rx opts env s dirs = (Inr st, s1, dirs1)" and "run_ok rx"
  shows "crowd_inv E (crowd_of (serving st s2))"
  using process_inv_start [OF assms, of E s2]
  by (auto simp: crowd_inv_def crowd_of_def process_inv_def earned_def)

lemma answer_200:
  "answer hx x = Inr resp \<Longrightarrow> Status resp = 200 \<Longrightarrow>
     \<exists>rdata. x = Inr rdata \<and> Verified rdata \<and> marshal_ResponseData hx rdata = Inr (ResponseBody resp)"
  by (auto simp: answer_def http_Error_def split: sum.splits gerr.splits if_splits)

lemma admit_refuses: "admit hx r v = Inl (Inr resp) \<Longrightarrow> Status resp \<noteq> 200"
  by (auto simp: admit_def http_Error_def split: if_splits sum.splits gerr.splits prod.splits)

lemma failed_refuses: "answer hx (failed r (wrap m e)) = Inr resp \<Longrightarrow> Status resp \<noteq> 200"
  by (cases e) (auto simp: answer_def VerificationFailed_def http_Error_def split: sum.splits gerr.splits if_splits)

text \<open>A request that is answered 200 has gone through both parts.\<close>

lemma served_in_two_parts:
  assumes "HandleCheckImages hx ext r v = (Inr resp, v')" and "Status resp = 200"
  obtains vr nv x where "admit hx r v = Inr vr" and "GetVerifier (getenv ext) (notationVerifierFactory v) vr = Inr nv"
    and "resume ext vr nv v = (x, v')" and "answer hx x = Inr resp"
proof (cases "admit hx r v")
  case (Inl y)
  with assms show thesis using admit_refuses [of hx r v resp] by (simp add: handle_split)
next
  case (Inr vr)
  show thesis
  proof (cases "GetVerifier (getenv ext) (notationVerifierFactory v) vr")
    case (Inl e)
    with assms Inr show thesis
      using failed_refuses [of hx NewResponse "''failed to create notation verifier''" e resp] by (simp add: handle_split)
  next
    case nv: (Inr nv)
    obtain x w where run: "resume ext vr nv v = (x, w)" by fastforce
    with assms(1) Inr nv have "answer hx x = Inr resp" and "w = v'" by (simp_all add: handle_split)
    with that Inr nv run show thesis by blast
  qed
qed

section \<open>Runs in which reloads do not meet requests\<close>

text \<open>
  No reload changes the verifiers while a request is in flight; everything else may overlap. Then the
  verdicts in the cache are those of the verifiers in force, and so is the verifier of every request.
\<close>

definition settled_step ::
    "('n, 'h) ext set \<Rightarrow> ('d, 'n) notation_lib \<Rightarrow> path \<Rightarrow> (TrustPolicy, 'a) client \<Rightarrow> (TrustStore, 'b) client \<Rightarrow> (string \<Rightarrow> string)
     \<Rightarrow> ('n, 'h, 'r) crowd \<Rightarrow> ('n, 'h, 'r) crowd \<Rightarrow> bool" where
  "settled_step E lib dir pcl scl quote c c' \<longleftrightarrow> crowd_step E lib dir pcl scl quote c c'
     \<and> (cr_flights c \<noteq> [] \<longrightarrow>
          notationVerifierFactory (p_verifier (cr_process c')) = notationVerifierFactory (p_verifier (cr_process c)))"

definition settled_inv :: "('n, 'h) ext set \<Rightarrow> ('n, 'h, 'r) crowd \<Rightarrow> bool" where
  "settled_inv E c \<longleftrightarrow> process_inv E (cr_process c)
     \<and> (\<forall>fl \<in> set (cr_flights c). flight_ok E (in_force (p_verifier (cr_process c))) fl)"

lemma process_inv_earned: "process_inv E p \<Longrightarrow> \<forall>e. p_phase p \<noteq> Exited e \<Longrightarrow> vouched E (in_force (p_verifier p)) (v_cache (p_verifier p))"
  by (simp add: process_inv_def earned_def)

lemma in_force_cong: "notationVerifierFactory v' = notationVerifierFactory v \<Longrightarrow> in_force v' = in_force v"
  by (simp add: in_force_def)

lemma arrived_ok:
  assumes "admit hx r v = Inr vr" and "well_formed hx ext r" and "ext \<in> E"
    and "GetVerifier (getenv ext) (notationVerifierFactory v) vr = Inr nv"
  shows "flight_ok E (in_force v) \<lparr> fl_hx = hx, fl_ext = ext, fl_request = vr, fl_verifier = nv \<rparr>"
  using admit_well_formed [OF assms(1,2)] in_force_verifier [OF assms(4)] assms(3) by (simp add: flight_ok_def)

lemma settled_inv_step:
  assumes "settled_step E lib dir pcl scl quote c c'" and inv: "settled_inv E c"
  shows "settled_inv E c'"
proof -
  have step: "crowd_step E lib dir pcl scl quote c c'" and same: "cr_flights c \<noteq> [] \<Longrightarrow>
      notationVerifierFactory (p_verifier (cr_process c')) = notationVerifierFactory (p_verifier (cr_process c))"
    using assms(1) by (auto simp: settled_step_def)
  show ?thesis
    using step
  proof cases
    case (arrive ext hx r vr nv)
    with inv arrived_ok [OF arrive(5,4,3,6)] show ?thesis by (simp add: settled_inv_def)
  next
    case (finish fl x v)
    let ?p = "cr_process c"
    have "flight_ok E (in_force (p_verifier ?p)) fl" and "vouched E (in_force (p_verifier ?p)) (v_cache (p_verifier ?p))"
      using inv finish(2,3) process_inv_earned [of E ?p] by (auto simp: settled_inv_def)
    from resume_sound [OF this finish(4)] have v: "vouched E (in_force (p_verifier ?p)) (v_cache v)" "same_conf (p_verifier ?p) v" by blast+
    note conf = same_confD [OF v(2)]
    then have "in_force v = in_force (p_verifier ?p)" by (intro in_force_cong) simp
    with v(1) conf inv have "process_inv E (?p\<lparr> p_verifier := v \<rparr>)"
      by (auto simp: settled_inv_def process_inv_def earned_def)
    moreover have "\<forall>f \<in> set (remove1 fl (cr_flights c)). flight_ok E (in_force v) f"
      using inv set_remove1_subset [of fl "cr_flights c"] \<open>in_force v = in_force (p_verifier ?p)\<close>
      unfolding settled_inv_def by fastforce
    ultimately show ?thesis by (simp add: finish(1) settled_inv_def)
  next
    case (between p)
    have "process_inv E p" using process_inv_step [OF between(2)] inv by (simp add: settled_inv_def)
    moreover have "in_force (p_verifier p) = in_force (p_verifier (cr_process c))" if "cr_flights c \<noteq> []"
      using same [OF that] by (intro in_force_cong) (simp add: between(1))
    then have "\<forall>fl \<in> set (cr_flights c). flight_ok E (in_force (p_verifier p)) fl"
      using inv by (cases "cr_flights c") (simp_all add: settled_inv_def)
    ultimately show ?thesis by (simp add: between(1) settled_inv_def)
  qed
qed

lemma settled_inv_reachable:
  "(settled_step E lib dir pcl scl quote)\<^sup>*\<^sup>* c c' \<Longrightarrow> settled_inv E c \<Longrightarrow> settled_inv E c'"
  by (induction rule: rtranclp_induct) (auto intro: settled_inv_step)

text \<open>What the command line set stays as it is.\<close>

lemma crowd_conf_step:
  assumes "crowd_step E lib dir pcl scl quote c c'" and "settled_inv E c"
  shows "conf_of (p_verifier (cr_process c')) = conf_of (p_verifier (cr_process c))"
  using assms(1)
proof cases
  case (finish fl x v)
  have "flight_ok E (in_force (p_verifier (cr_process c))) fl"
    and "vouched E (in_force (p_verifier (cr_process c))) (v_cache (p_verifier (cr_process c)))"
    using assms(2) finish(2,3) process_inv_earned [of E "cr_process c"] by (auto simp: settled_inv_def)
  from resume_sound [OF this finish(4)] have "same_conf (p_verifier (cr_process c)) v" by blast
  then show ?thesis by (auto simp: finish(1) same_conf_def verifier_conf.truncate_def)
next
  case (between p)
  with conf_step [OF between(2)] show ?thesis by simp
qed simp

lemma settled_conf:
  "(settled_step E lib dir pcl scl quote)\<^sup>*\<^sup>* c c' \<Longrightarrow> settled_inv E c \<Longrightarrow>
     conf_of (p_verifier (cr_process c')) = conf_of (p_verifier (cr_process c))"
proof (induction rule: rtranclp_induct)
  case (step c1 c2)
  then show ?case
    using crowd_conf_step [of E lib dir pcl scl quote c1 c2] settled_inv_reachable [OF step(1)] by (simp add: settled_step_def)
qed simp

text \<open>
  The whole handler over a run: the request arrives in the state \<open>c0\<close> and its response is decided in the
  state \<open>c\<close>, at once if it is refused or no verifier is loaded for its trust policy, and otherwise when
  it finishes, after any number of steps of others. Without any, it is \<open>HandleCheckImages\<close> (\<open>handle_split\<close>).
\<close>

inductive answered ::
    "(('n, 'h, 'r) crowd \<Rightarrow> ('n, 'h, 'r) crowd \<Rightarrow> bool) \<Rightarrow> http_ext \<Rightarrow> ('n, 'h) ext \<Rightarrow> httpRequest
     \<Rightarrow> ('n, 'h, 'r) crowd \<Rightarrow> ('n, 'h, 'r) crowd \<Rightarrow> httpResponse result \<Rightarrow> bool"
  for step hx ext r c0 where
  refused: "answered step hx ext r c0 c0 x"
    if "admit hx r (p_verifier (cr_process c0)) = Inl x"
| no_verifier: "answered step hx ext r c0 c0 (answer hx (failed NewResponse (wrap ''failed to create notation verifier'' e)))"
    if "admit hx r (p_verifier (cr_process c0)) = Inr vr"
    and "GetVerifier (getenv ext) (notationVerifierFactory (p_verifier (cr_process c0))) vr = Inl e"
| finished: "answered step hx ext r c0 c (answer hx x)"
    if "admit hx r (p_verifier (cr_process c0)) = Inr vr"
    and "GetVerifier (getenv ext) (notationVerifierFactory (p_verifier (cr_process c0))) vr = Inr nv"
    and "step\<^sup>*\<^sup>* (c0\<lparr> cr_flights := \<lparr> fl_hx = hx, fl_ext = ext, fl_request = vr, fl_verifier = nv \<rparr> # cr_flights c0 \<rparr>) c"
    and "\<lparr> fl_hx = hx, fl_ext = ext, fl_request = vr, fl_verifier = nv \<rparr> \<in> set (cr_flights c)"
    and "\<forall>e. p_phase (cr_process c) \<noteq> Exited e"
    and "resume ext vr nv (p_verifier (cr_process c)) = (x, v')"

lemma answered_at_once:
  assumes "HandleCheckImages hx ext r (p_verifier (cr_process c)) = (x, v')" and "\<forall>e. p_phase (cr_process c) \<noteq> Exited e"
  shows "\<exists>c'. answered step hx ext r c c' x"
proof (cases "admit hx r (p_verifier (cr_process c))")
  case (Inl y)
  with assms(1) have "y = x" by (simp add: handle_split)
  with answered.refused [OF Inl, of step ext] show ?thesis by blast
next
  case (Inr vr)
  show ?thesis
  proof (cases "GetVerifier (getenv ext) (notationVerifierFactory (p_verifier (cr_process c))) vr")
    case (Inl e)
    with assms(1) Inr have "x = answer hx (failed NewResponse (wrap ''failed to create notation verifier'' e))"
      by (simp add: handle_split)
    with answered.no_verifier [OF Inr Inl, of step] show ?thesis by blast
  next
    case nv: (Inr nv)
    obtain y w where run: "resume ext vr nv (p_verifier (cr_process c)) = (y, w)" by fastforce
    with assms(1) Inr nv have "x = answer hx y" by (simp add: handle_split)
    with answered.finished [OF Inr nv rtranclp.rtrancl_refl, where x = y and v' = w] run assms(2) show ?thesis
      by (intro exI) simp
  qed
qed

lemma admitted:
  assumes "admit hx r v = Inr vr"
  shows "Method r = ''POST'' \<and> (reviewToken v \<longrightarrow> authorized hx v (AuthorizationHeader r))
     \<and> (\<exists>rd. decode_RequestData hx (MaxBytesReader (Body r) maxRequestBodyBytes) = Inr rd
          \<and> processRequestData (fmt_attestation hx) rd = Inr vr \<and> valid_request rd)"
proof -
  have post: "Method r = ''POST''"
    using assms by (auto simp: admit_def split: if_splits)
  have auth: "\<exists>msg. fst (authenticate hx v (AuthorizationHeader r)) = Inr (200, msg)" if "reviewToken v"
    using assms post that
    by (cases "fst (authenticate hx v (AuthorizationHeader r))") (auto simp: admit_def split: gerr.splits prod.splits if_splits)
  obtain rd where rd: "decode_RequestData hx (MaxBytesReader (Body r) maxRequestBodyBytes) = Inr rd"
    "processRequestData (fmt_attestation hx) rd = Inr vr"
    using assms post by (auto simp: admit_def split: sum.splits gerr.splits prod.splits if_splits)
  with processRequestData_ok_iff [of "fmt_attestation hx" rd] have "valid_request rd" by simp
  with post rd auth show ?thesis by (auto simp: authenticate_ok_iff)
qed

text \<open>There is one verifier in force for a trust policy.\<close>

lemma vouched_in_force:
  assumes "all_vouched E (in_force v) ext vr vs"
    and nv: "map_of (verifiers (notationVerifierFactory v)) (getTrustPolicy (getenv ext) vr) = Some nv"
  shows "all_verified E ext nv vr vs"
proof -
  have "(getTrustPolicy (getenv ext) vr, nv') \<in> in_force v \<longleftrightarrow> nv' = nv" for nv'
    using nv by (auto simp: in_force_def)
  with assms(1) show ?thesis by (fastforce simp: all_vouched_def all_verified_def)
qed

section \<open>Verdicts that outlive a reload\<close>

text \<open>The images with the references \<open>S\<close> are in a cache that keeps its entries.\<close>

definition cached :: "string set \<Rightarrow> ('n, 'h, 'r) requestVerifier \<Rightarrow> bool" where
  "cached S rv \<longleftrightarrow> useCache (rv_cache rv) \<and> keeps_entries (cache_ops (rv_cache rv)) \<and> no_sep (rv_trustPolicy rv)
     \<and> (\<forall>ref \<in> S. no_sep ref \<and> GetImage (rv_cache rv) (rv_trustPolicy rv) ref \<noteq> None)"

lemma GetImage_kept:
  assumes "keeps_entries (cache_ops c)" and "no_sep tp" and "no_sep ref" and "no_sep tp'" and "GetImage c tp ref \<noteq> None"
  shows "GetImage (snd (AddImage c tp' ref' img)) tp ref \<noteq> None"
    and "GetImage (snd (AddAttestation c tp' ref' ty cs)) tp ref \<noteq> None"
proof -
  show "GetImage (snd (AddImage c tp' ref' img)) tp ref \<noteq> None"
    using assms(1,5) by (auto simp: GetImage_def AddImage_def store_def keeps_entries_get split: option.splits if_splits)
  show "GetImage (snd (AddAttestation c tp' ref' ty cs)) tp ref \<noteq> None"
  proof (cases "useCache c \<and> is_ok (createAttestationKey (cache_ops c) tp' ref' ty cs)")
    case True
    then obtain key where key: "createAttestationKey (cache_ops c) tp' ref' ty cs = Inr key" by (auto simp: is_ok_iff)
    with True assms(1,5) image_key_not_attestation_key [OF assms(2-4) key] show ?thesis
      by (auto simp: GetImage_def AddAttestation_def store_def keeps_entries_get)
  next
    case False
    with assms(5) show ?thesis by (auto simp: AddAttestation_def split: sum.splits)
  qed
qed

lemma cached_quiet: "cached S rv \<Longrightarrow> quiet rv rv' \<Longrightarrow> cached S rv'"
  by (auto simp: cached_def dest: quietD)

lemma cached_verifyReferrer:
  assumes "cached S rv" and "verifyReferrer ext img ref r cs rv = (Inr u, rv1)"
  shows "cached S rv1"
proof -
  have tp: "rv_trustPolicy rv1 = rv_trustPolicy rv"
    using same_request_verifyReferrer [of rv ext img ref r cs] assms(2) by (simp add: same_request_fields)
  have "rv_cache rv1 = rv_cache rv
      \<or> rv_cache rv1 = snd (AddAttestation (rv_cache rv) (rv_trustPolicy rv) img (desc_ArtifactType r) cs)"
    using verifyReferrer_success [OF assms(2)] by (auto split: if_splits)
  then show ?thesis
    using assms(1) GetImage_kept(2) [of "rv_cache rv" "rv_trustPolicy rv" _ "rv_trustPolicy rv"]
    by (auto simp: cached_def tp)
qed

lemma cached_verifyReferrers:
  "cached S rv \<Longrightarrow> verifyReferrers ext img ref atts rs rv = (Inr u, rv') \<Longrightarrow> cached S rv'"
  by (induction rs arbitrary: rv)
    (auto simp: andThen_ok_iff split: option.splits if_splits dest: cached_verifyReferrer)

lemma cached_verifyAttestation:
  assumes "cached S rv" and "verifyAttestation ext img atts rv = (Inr u, rv')"
  shows "cached S rv'"
proof (cases "atts = [] \<or> checkAllAttestationsForImage ext rv img atts")
  case True
  then have "verifyAttestation ext img atts rv = (Inr (), rv)" by (auto simp: verifyAttestation_def)
  with assms show ?thesis by simp
next
  case False
  obtain ref where ref: "name_ParseReference ext img = Inr ref"
    using assms(2) False by (cases "name_ParseReference ext img") (auto simp: verifyAttestation_def)
  with assms(2) False obtain hd rv1 where h: "remote (gcr_Head ext (rv_remoteOpts rv) ref) rv = (Inr hd, rv1)"
    by (auto simp: verifyAttestation_def andThen_ok_iff)
  with assms(2) False ref obtain referrers rv2 where
    r: "remote (gcr_Referrers ext (rv_remoteOpts rv1) (Context_Digest ext (ref_Context ref) (desc_Digest hd))) rv1 = (Inr referrers, rv2)"
    by (auto simp: verifyAttestation_def andThen_ok_iff)
  have "cached S rv2" using cached_quiet [OF cached_quiet [OF assms(1) remote_quiet [OF h]] remote_quiet [OF r]] .
  moreover obtain rs where "verifyReferrers ext img ref atts rs rv2 = (Inr u, rv')"
    using assms(2) False ref h r
    by (cases referrers; cases "matchAttestations (order ext) img atts (projr referrers)") (auto simp: verifyAttestation_def)
  ultimately show ?thesis by (rule cached_verifyReferrers)
qed

lemma cached_verifyAttestationsLoop:
  "cached S rv \<Longrightarrow> verifyAttestationsLoop ext xs rv = (Inr u, rv') \<Longrightarrow> cached S rv'"
proof (induction xs arbitrary: rv)
  case (Cons x xs)
  obtain img lst where x: "x = (img, lst)" by fastforce
  with Cons.prems(2) obtain rv1 where "verifyAttestation ext img lst rv = (Inr (), rv1)"
    and rest: "verifyAttestationsLoop ext xs rv1 = (Inr u, rv')" by (auto simp: andThen_ok_iff)
  with Cons.IH [OF cached_verifyAttestation [OF Cons.prems(1)] rest] show ?case by blast
qed simp

lemma cached_verifyImageInfo:
  assumes "cached S rv" and "no_sep (image_String ext (info_Image info))" and "verifyImageInfo ext info rv = (Inr i, rv')"
  shows "cached (insert (image_String ext (info_Image info)) S) rv'"
proof (cases "GetImage (rv_cache rv) (rv_trustPolicy rv) (image_String ext (info_Image info))")
  case (Some img)
  with assms show ?thesis by (auto simp: verifyImageInfo_def cached_def)
next
  case None
  let ?ref = "image_String ext (info_Image info)"
  from assms(3) None obtain d rv1 where v: "verifyReferences ext ?ref rv = (Inr d, rv1)"
    by (simp add: verifyImageInfo_def Let_def andThen_ok_iff) blast
  let ?img = "(info_Image info)\<lparr> img_Digest := d \<rparr>"
  have "verifyImageInfo ext info rv =
        (Inr (info\<lparr> info_Image := ?img \<rparr>), set_cache rv1 (snd (AddImage (rv_cache rv1) (rv_trustPolicy rv1) ?ref ?img)))"
    by (cases "AddImage (rv_cache rv1) (rv_trustPolicy rv1) ?ref ?img")
      (use ops_AddImage(3) [of "rv_cache rv1" "rv_trustPolicy rv1" ?ref ?img] in \<open>simp add: verifyImageInfo_def Let_def None v\<close>)
  with assms(3) have rv': "rv' = set_cache rv1 (snd (AddImage (rv_cache rv1) (rv_trustPolicy rv1) ?ref ?img))" by simp
  have "cached S rv1" using cached_quiet [OF assms(1)] verifyReferences_ok [OF v] by blast
  then show ?thesis
    using assms(2) GetImage_added [of "rv_cache rv1"] GetImage_kept(1) [of "rv_cache rv1" "rv_trustPolicy rv1" _ "rv_trustPolicy rv1"]
    by (auto simp: cached_def rv')
qed

lemma cached_verifyGroup:
  assumes "cached S rv" and "\<forall>info \<in> set infos. no_sep (image_String ext (info_Image info))"
    and "verifyGroup ext refs kind infos (response, rv) = (Inr u, response', rv')"
  shows "cached (S \<union> (\<lambda>info. image_String ext (info_Image info)) ` set (selected ext refs infos)) rv'"
  using assms
proof (induction infos arbitrary: S response rv)
  case (Cons info infos)
  let ?ref = "image_String ext (info_Image info)"
  show ?case
  proof (cases "matchImageReferences (wildcard_Match ext) refs ?ref")
    case False
    with Cons show ?thesis by simp
  next
    case True
    with Cons.prems(3) obtain res rv1 response1 where v: "verifyImageInfo ext info rv = (Inr res, rv1)"
      and rest: "verifyGroup ext refs kind infos (response1, rv1) = (Inr u, response', rv')"
      by (auto split: prod.splits sum.splits if_splits)
    have "cached (insert ?ref S) rv1" using Cons.prems(1,2) v by (intro cached_verifyImageInfo) simp_all
    from Cons.IH [OF this _ rest] Cons.prems(2) True show ?thesis by simp
  qed
qed simp

lemma cached_verifyGroups:
  assumes "cached S rv" and "\<forall>(kind, infos) \<in> set gs. \<forall>info \<in> set infos. no_sep (image_String ext (info_Image info))"
    and "verifyGroups ext refs gs (response, rv) = (Inr u, response', rv')"
  shows "cached (S \<union> (\<lambda>info. image_String ext (info_Image info)) ` set (selected ext refs (concat (map snd gs)))) rv'"
  using assms
proof (induction gs arbitrary: S response rv)
  case (Cons g gs)
  obtain kind infos where g: "g = (kind, infos)" by fastforce
  with Cons.prems(3) obtain response1 rv1 where v: "verifyGroup ext refs kind infos (response, rv) = (Inr (), response1, rv1)"
    and rest: "verifyGroups ext refs gs (response1, rv1) = (Inr u, response', rv')"
    by (auto simp: andThen_ok_iff)
  have "cached (S \<union> (\<lambda>info. image_String ext (info_Image info)) ` set (selected ext refs infos)) rv1"
    using Cons.prems(1,2) v by (intro cached_verifyGroup) (auto simp: g)
  from Cons.IH [OF this _ rest] Cons.prems(2) show ?case by (simp add: g image_Un Un_assoc)
qed simp

lemma cached_verifyWith:
  assumes "cached {} rv" and "admissible ext vr" and "range_order (order ext)" and "wf_images (Images vr)"
    and "verifyWith ext vr rv = (Inr resp, rv')" and "Verified resp"
  shows "cached ((\<lambda>info. image_String ext (info_Image info)) ` selects ext vr) rv'"
proof -
  let ?gs = "groups (order ext) (Images vr)"
  obtain x r1 rv1 where g: "verifyGroups ext (ImageReferences vr) ?gs (NewResponse, rv) = (x, r1, rv1)" by (metis prod_cases3)
  have x: "x = Inr ()" using assms(5,6) g by (cases x) (auto simp: verifyWith_def dest: failed_cases)
  obtain r2 where r2: "BuildAttestationList (wildcard_Match ext) (order ext) (Attestations vr) r1 = Inr r2"
    using assms(5,6) g x by (auto simp: verifyWith_def dest: failed_cases split: sum.splits)
  obtain y rv2 where a: "verifyAttestations ext r2 rv1 = (y, rv2)" by fastforce
  have y: "y = Inr ()" and rv': "rv' = rv2"
    using assms(5,6) g x r2 a by (cases y; auto simp: verifyWith_def dest: failed_cases)+
  have sel: "set (selected ext (ImageReferences vr) (concat (map snd ?gs))) = selects ext vr"
    using set_groups [OF assms(3,4)] by (auto simp: selects_def)
  have "\<forall>info \<in> set (concat (map snd ?gs)). no_sep (image_String ext (info_Image info))"
    unfolding set_groups [OF assms(3,4)] using assms(2) by (auto simp: admissible_def)
  then have "\<forall>(kind, infos) \<in> set ?gs. \<forall>info \<in> set infos. no_sep (image_String ext (info_Image info))" by fastforce
  from cached_verifyGroups [OF assms(1) this g [unfolded x]] have "cached ((\<lambda>info. image_String ext (info_Image info)) ` selects ext vr) rv1"
    unfolding sel by simp
  from cached_verifyAttestationsLoop [OF this a [unfolded verifyAttestations_def y]] show ?thesis by (simp add: rv')
qed

text \<open>A request that is answered positively leaves its images in the cache.\<close>

lemma resume_cached:
  assumes "resume ext vr nv v = (Inr resp, v')" and "Verified resp" and "useCache (v_cache v)" and "keeps_entries (cache_ops (v_cache v))"
    and "admissible ext vr" and "range_order (order ext)" and "wf_images (Images vr)" and "info \<in> selects ext vr"
  shows "\<exists>img. GetImage (v_cache v') (getTrustPolicy (getenv ext) vr) (image_String ext (info_Image info)) = Some img"
proof (cases rule: resume_cases [of ext vr nv v])
  case (failed e)
  with assms(1,2) show ?thesis by (auto dest: failed_cases)
next
  case (run kc opts pc)
  let ?rv = "start_request ext vr v nv kc opts pc"
  obtain rv' where w: "verifyWith ext vr ?rv = (Inr resp, rv')" and v': "v' = rv_verifier rv'"
    using run assms(1) by (cases "verifyWith ext vr ?rv") auto
  have "cached {} ?rv" using assms(3-5) by (simp add: cached_def admissible_def)
  from cached_verifyWith [OF this assms(5-7) w assms(2)] assms(8)
  have "GetImage (rv_cache rv') (rv_trustPolicy rv') (image_String ext (info_Image info)) \<noteq> None" by (auto simp: cached_def)
  moreover have "same_request ?rv rv'" using verifyWith_response [of ?rv ext vr] by (simp add: w)
  then have "rv_trustPolicy rv' = getTrustPolicy (getenv ext) vr" by (simp add: same_request_fields)
  ultimately show ?thesis by (auto simp: v')
qed

end
