(* ===== verification/Deepcopy.thy ===== *)
theory Deepcopy
  imports Stores
begin

text \<open>
  The generated deep copies of the custom resources (\<^verbatim>\<open>api/v1alpha1/zz_generated.deepcopy.go\<close>), which let
  a reconciler modify an object it got from the shared cache of the API client. Here slices and
  maps are what they are in Go: references to memory that other values may refer to as well. The
  memory is a list of cells, an address is an index and an allocation appends a cell. A struct is
  a value; a pointer to a freshly allocated struct is represented by the struct. The metadata
  types belong to the Kubernetes libraries: their deep copies are parameters.
\<close>

section \<open>Memory\<close>

record slice =
  sl_addr :: nat
  sl_off :: nat
  sl_len :: nat

record g_sig =
  gv_VerificationLevel :: string
  gv_Override :: "nat option"

record g_statement =
  gs_Name :: string
  gs_RegistryScopes :: "slice option"
  gs_SignatureVerification :: g_sig
  gs_TrustStores :: "slice option"
  gs_TrustedIdentities :: "slice option"

record g_document =
  gd_Version :: string
  gd_TrustPolicyName :: string
  gd_TrustPolicies :: "slice option"

record 'm g_policy =
  gp_TypeMeta :: "string \<times> string"
  gp_ObjectMeta :: 'm
  gp_Spec :: g_document

record 'm g_store =
  gt_TypeMeta :: "string \<times> string"
  gt_ObjectMeta :: 'm
  gt_Spec :: TrustStoreSpec

text \<open>\<^verbatim>\<open>TrustPolicyList\<close> and \<^verbatim>\<open>TrustStoreList\<close> have the same fields up to the type of the items.\<close>

record 'l g_list =
  gl_TypeMeta :: "string \<times> string"
  gl_ListMeta :: 'l
  gl_Items :: "slice option"

datatype ('m, 'x) cell =
    StringArray "string list"
  | OverrideMap "string gomap"
  | StatementArray "g_statement list"
  | PolicyArray "'m g_policy list"
  | StoreArray "'m g_store list"
  | Foreign 'x

fun strings_of :: "('m, 'x) cell \<Rightarrow> string list" where
  "strings_of (StringArray xs) = xs" | "strings_of c = []"

fun overrides_of :: "('m, 'x) cell \<Rightarrow> string gomap" where
  "overrides_of (OverrideMap m) = m" | "overrides_of c = []"

fun statements_of :: "('m, 'x) cell \<Rightarrow> g_statement list" where
  "statements_of (StatementArray xs) = xs" | "statements_of c = []"

fun policies_of :: "('m, 'x) cell \<Rightarrow> 'm g_policy list" where
  "policies_of (PolicyArray xs) = xs" | "policies_of c = []"

fun stores_of :: "('m, 'x) cell \<Rightarrow> 'm g_store list" where
  "stores_of (StoreArray xs) = xs" | "stores_of c = []"

text \<open>The elements a slice shows of an array.\<close>

definition elems :: "('c \<Rightarrow> 'e list) \<Rightarrow> 'c list \<Rightarrow> slice \<Rightarrow> 'e list" where
  "elems dest h s = take (sl_len s) (drop (sl_off s) (dest (h ! sl_addr s)))"

text \<open>The built-in \<^verbatim>\<open>copy\<close>.\<close>

definition go_copy :: "'e list \<Rightarrow> 'e list \<Rightarrow> 'e list" where
  "go_copy dst src = take (length dst) src @ drop (length src) dst"

section \<open>Copies of slices and maps\<close>

text \<open>\<^verbatim>\<open>*out = make([]string, len(*in)); copy(*out, *in)\<close>\<close>

definition copyStrings :: "slice option \<Rightarrow> ('m, 'x) cell list \<Rightarrow> slice option \<times> ('m, 'x) cell list" where
  "copyStrings ss h =
     (case ss of
        None \<Rightarrow> (None, h)
      | Some s \<Rightarrow>
          (Some \<lparr> sl_addr = length h, sl_off = 0, sl_len = sl_len s \<rparr>,
           h @ [StringArray (go_copy (replicate (sl_len s) []) (elems strings_of h s))]))"

text \<open>\<^verbatim>\<open>*out = make(map, len(*in)); for key, val := range *in { (*out)[key] = val }\<close>\<close>

definition copyOverride :: "orders \<Rightarrow> nat option \<Rightarrow> ('m, 'x) cell list \<Rightarrow> nat option \<times> ('m, 'x) cell list" where
  "copyOverride ord mp h =
     (case mp of
        None \<Rightarrow> (None, h)
      | Some a \<Rightarrow>
          (Some (length h),
           h @ [OverrideMap (fold (\<lambda>(key, val) out. map_set out key val)
                  (range_map ord AtOverride (overrides_of (h ! a))) [])]))"

text \<open>\<^verbatim>\<open>*out = make([]T, len(*in)); for i := range *in { (*in)[i].DeepCopyInto(&(*out)[i]) }\<close>\<close>

fun copyLoop ::
    "('e list \<Rightarrow> 'c) \<Rightarrow> ('c \<Rightarrow> 'e list) \<Rightarrow> ('e \<Rightarrow> 'c list \<Rightarrow> 'e \<times> 'c list) \<Rightarrow> slice \<Rightarrow> nat \<Rightarrow> nat list \<Rightarrow> 'c list \<Rightarrow> 'c list" where
  "copyLoop mk dest into s a [] h = h"
| "copyLoop mk dest into s a (i # rest) h =
     (case into (elems dest h s ! i) h of
        (y, h1) \<Rightarrow> copyLoop mk dest into s a rest (h1[a := mk ((dest (h1 ! a))[i := y])]))"

definition copySlice ::
    "('e list \<Rightarrow> 'c) \<Rightarrow> ('c \<Rightarrow> 'e list) \<Rightarrow> 'e \<Rightarrow> ('e \<Rightarrow> 'c list \<Rightarrow> 'e \<times> 'c list) \<Rightarrow> slice option \<Rightarrow> 'c list
       \<Rightarrow> slice option \<times> 'c list" where
  "copySlice mk dest zero into ss h =
     (case ss of
        None \<Rightarrow> (None, h)
      | Some s \<Rightarrow>
          (Some \<lparr> sl_addr = length h, sl_off = 0, sl_len = sl_len s \<rparr>,
           copyLoop mk dest into s (length h) [0..<sl_len s] (h @ [mk (replicate (sl_len s) zero)])))"

section \<open>Copies of the resources\<close>

type_synonym ('t, 'c) copier = "'t \<Rightarrow> 'c list \<Rightarrow> 't \<times> 'c list"

record ('m, 'l, 'c) meta_lib =
  om_zero :: 'm
  om_DeepCopyInto :: "('m, 'c) copier"
  lm_DeepCopyInto :: "('l, 'c) copier"

definition DeepCopyInto_SignatureVerification :: "orders \<Rightarrow> (g_sig, ('m, 'x) cell) copier" where
  "DeepCopyInto_SignatureVerification ord v h =
     (case copyOverride ord (gv_Override v) h of (m, h1) \<Rightarrow> (v\<lparr> gv_Override := m \<rparr>, h1))"

definition DeepCopyInto_TrustPolicyStatement :: "orders \<Rightarrow> (g_statement, ('m, 'x) cell) copier" where
  "DeepCopyInto_TrustPolicyStatement ord st h =
     (case copyStrings (gs_RegistryScopes st) h of (scopes, h1) \<Rightarrow>
      (case DeepCopyInto_SignatureVerification ord (gs_SignatureVerification st) h1 of (sv, h2) \<Rightarrow>
      (case copyStrings (gs_TrustStores st) h2 of (stores, h3) \<Rightarrow>
      (case copyStrings (gs_TrustedIdentities st) h3 of (ids, h4) \<Rightarrow>
        (st\<lparr> gs_RegistryScopes := scopes, gs_SignatureVerification := sv, gs_TrustStores := stores,
             gs_TrustedIdentities := ids \<rparr>, h4)))))"

definition zero_statement :: g_statement where
  "zero_statement =
     \<lparr> gs_Name = [], gs_RegistryScopes = None, gs_SignatureVerification = \<lparr> gv_VerificationLevel = [], gv_Override = None \<rparr>,
       gs_TrustStores = None, gs_TrustedIdentities = None \<rparr>"

definition DeepCopyInto_TrustDocument :: "orders \<Rightarrow> (g_document, ('m, 'x) cell) copier" where
  "DeepCopyInto_TrustDocument ord d h =
     (case copySlice StatementArray statements_of zero_statement (DeepCopyInto_TrustPolicyStatement ord) (gd_TrustPolicies d) h of
        (ss, h1) \<Rightarrow> (d\<lparr> gd_TrustPolicies := ss \<rparr>, h1))"

definition DeepCopyInto_TrustPolicy ::
    "('m, 'l, ('m, 'x) cell) meta_lib \<Rightarrow> orders \<Rightarrow> ('m g_policy, ('m, 'x) cell) copier" where
  "DeepCopyInto_TrustPolicy lib ord p h =
     (case om_DeepCopyInto lib (gp_ObjectMeta p) h of (om, h1) \<Rightarrow>
      (case DeepCopyInto_TrustDocument ord (gp_Spec p) h1 of (sp, h2) \<Rightarrow>
        (p\<lparr> gp_ObjectMeta := om, gp_Spec := sp \<rparr>, h2)))"

definition DeepCopyInto_TrustStoreSpec :: "(TrustStoreSpec, ('m, 'x) cell) copier" where
  "DeepCopyInto_TrustStoreSpec sp h = (sp, h)"

definition DeepCopyInto_TrustStore ::
    "('m, 'l, ('m, 'x) cell) meta_lib \<Rightarrow> ('m g_store, ('m, 'x) cell) copier" where
  "DeepCopyInto_TrustStore lib t h =
     (case om_DeepCopyInto lib (gt_ObjectMeta t) h of (om, h1) \<Rightarrow> (t\<lparr> gt_ObjectMeta := om \<rparr>, h1))"

definition zero_policy :: "('m, 'l, ('m, 'x) cell) meta_lib \<Rightarrow> 'm g_policy" where
  "zero_policy lib = \<lparr> gp_TypeMeta = ([], []), gp_ObjectMeta = om_zero lib,
     gp_Spec = \<lparr> gd_Version = [], gd_TrustPolicyName = [], gd_TrustPolicies = None \<rparr> \<rparr>"

definition zero_store :: "('m, 'l, ('m, 'x) cell) meta_lib \<Rightarrow> 'm g_store" where
  "zero_store lib = \<lparr> gt_TypeMeta = ([], []), gt_ObjectMeta = om_zero lib,
     gt_Spec = \<lparr> TrustStoreName = [], ts_Type = [], CABundle = [] \<rparr> \<rparr>"

definition DeepCopyInto_TrustPolicyList ::
    "('m, 'l, ('m, 'x) cell) meta_lib \<Rightarrow> orders \<Rightarrow> ('l g_list, ('m, 'x) cell) copier" where
  "DeepCopyInto_TrustPolicyList lib ord ls h =
     (case lm_DeepCopyInto lib (gl_ListMeta ls) h of (lm, h1) \<Rightarrow>
      (case copySlice PolicyArray policies_of (zero_policy lib) (DeepCopyInto_TrustPolicy lib ord) (gl_Items ls) h1 of
         (items, h2) \<Rightarrow> (ls\<lparr> gl_ListMeta := lm, gl_Items := items \<rparr>, h2)))"

definition DeepCopyInto_TrustStoreList ::
    "('m, 'l, ('m, 'x) cell) meta_lib \<Rightarrow> ('l g_list, ('m, 'x) cell) copier" where
  "DeepCopyInto_TrustStoreList lib ls h =
     (case lm_DeepCopyInto lib (gl_ListMeta ls) h of (lm, h1) \<Rightarrow>
      (case copySlice StoreArray stores_of (zero_store lib) (DeepCopyInto_TrustStore lib) (gl_Items ls) h1 of
         (items, h2) \<Rightarrow> (ls\<lparr> gl_ListMeta := lm, gl_Items := items \<rparr>, h2)))"

text \<open>\<^verbatim>\<open>DeepCopy\<close> of a pointer, and \<^verbatim>\<open>DeepCopyObject\<close>, whose interface value is nil for a nil pointer.\<close>

definition DeepCopy :: "('t, 'c) copier \<Rightarrow> ('t option, 'c) copier" where
  "DeepCopy into p h = (case p of None \<Rightarrow> (None, h) | Some x \<Rightarrow> (case into x h of (y, h1) \<Rightarrow> (Some y, h1)))"

datatype 't iface = NilInterface | Iface "'t option"

definition DeepCopyObject :: "('t option, 'c) copier \<Rightarrow> 't option \<Rightarrow> 'c list \<Rightarrow> 't iface \<times> 'c list" where
  "DeepCopyObject deepCopy p h =
     (case deepCopy p h of (c, h1) \<Rightarrow> (if c \<noteq> None then Iface c else NilInterface, h1))"

text \<open>The methods that the generator emits for each type.\<close>

definition DeepCopy_SignatureVerification :: "orders \<Rightarrow> (g_sig option, ('m, 'x) cell) copier" where
  "DeepCopy_SignatureVerification ord = DeepCopy (DeepCopyInto_SignatureVerification ord)"

definition DeepCopy_TrustDocument :: "orders \<Rightarrow> (g_document option, ('m, 'x) cell) copier" where
  "DeepCopy_TrustDocument ord = DeepCopy (DeepCopyInto_TrustDocument ord)"

definition DeepCopy_TrustPolicyStatement :: "orders \<Rightarrow> (g_statement option, ('m, 'x) cell) copier" where
  "DeepCopy_TrustPolicyStatement ord = DeepCopy (DeepCopyInto_TrustPolicyStatement ord)"

definition DeepCopy_TrustStoreSpec :: "(TrustStoreSpec option, ('m, 'x) cell) copier" where
  "DeepCopy_TrustStoreSpec = DeepCopy DeepCopyInto_TrustStoreSpec"

definition DeepCopy_TrustPolicy ::
    "('m, 'l, ('m, 'x) cell) meta_lib \<Rightarrow> orders \<Rightarrow> ('m g_policy option, ('m, 'x) cell) copier" where
  "DeepCopy_TrustPolicy lib ord = DeepCopy (DeepCopyInto_TrustPolicy lib ord)"

definition DeepCopyObject_TrustPolicy ::
    "('m, 'l, ('m, 'x) cell) meta_lib \<Rightarrow> orders \<Rightarrow> 'm g_policy option \<Rightarrow> ('m, 'x) cell list \<Rightarrow> 'm g_policy iface \<times> ('m, 'x) cell list" where
  "DeepCopyObject_TrustPolicy lib ord = DeepCopyObject (DeepCopy_TrustPolicy lib ord)"

definition DeepCopy_TrustPolicyList ::
    "('m, 'l, ('m, 'x) cell) meta_lib \<Rightarrow> orders \<Rightarrow> ('l g_list option, ('m, 'x) cell) copier" where
  "DeepCopy_TrustPolicyList lib ord = DeepCopy (DeepCopyInto_TrustPolicyList lib ord)"

definition DeepCopyObject_TrustPolicyList ::
    "('m, 'l, ('m, 'x) cell) meta_lib \<Rightarrow> orders \<Rightarrow> 'l g_list option \<Rightarrow> ('m, 'x) cell list \<Rightarrow> 'l g_list iface \<times> ('m, 'x) cell list" where
  "DeepCopyObject_TrustPolicyList lib ord = DeepCopyObject (DeepCopy_TrustPolicyList lib ord)"

definition DeepCopy_TrustStore ::
    "('m, 'l, ('m, 'x) cell) meta_lib \<Rightarrow> ('m g_store option, ('m, 'x) cell) copier" where
  "DeepCopy_TrustStore lib = DeepCopy (DeepCopyInto_TrustStore lib)"

definition DeepCopyObject_TrustStore ::
    "('m, 'l, ('m, 'x) cell) meta_lib \<Rightarrow> 'm g_store option \<Rightarrow> ('m, 'x) cell list \<Rightarrow> 'm g_store iface \<times> ('m, 'x) cell list" where
  "DeepCopyObject_TrustStore lib = DeepCopyObject (DeepCopy_TrustStore lib)"

definition DeepCopy_TrustStoreList ::
    "('m, 'l, ('m, 'x) cell) meta_lib \<Rightarrow> ('l g_list option, ('m, 'x) cell) copier" where
  "DeepCopy_TrustStoreList lib = DeepCopy (DeepCopyInto_TrustStoreList lib)"

definition DeepCopyObject_TrustStoreList ::
    "('m, 'l, ('m, 'x) cell) meta_lib \<Rightarrow> 'l g_list option \<Rightarrow> ('m, 'x) cell list \<Rightarrow> 'l g_list iface \<times> ('m, 'x) cell list" where
  "DeepCopyObject_TrustStoreList lib = DeepCopyObject (DeepCopy_TrustStoreList lib)"

lemmas object_copies = DeepCopy_TrustPolicy_def DeepCopy_TrustPolicyList_def DeepCopy_TrustStore_def DeepCopy_TrustStoreList_def
  DeepCopyObject_TrustPolicy_def DeepCopyObject_TrustPolicyList_def
  DeepCopyObject_TrustStore_def DeepCopyObject_TrustStoreList_def

section \<open>What a deep copy promises\<close>

definition same_on :: "nat set \<Rightarrow> 'c list \<Rightarrow> 'c list \<Rightarrow> bool" where
  "same_on A h g \<longleftrightarrow> (\<forall>a \<in> A. a < length g \<and> g ! a = h ! a)"

lemma same_on_subset: "same_on A h g \<Longrightarrow> B \<subseteq> A \<Longrightarrow> same_on B h g"
  by (auto simp: same_on_def)

lemma same_on_append: "A \<subseteq> {..<length h} \<Longrightarrow> same_on A h (h @ e)"
  by (auto simp: same_on_def nth_append)

text \<open>
  \<open>value_in h x\<close> is what \<open>x\<close> looks like in memory \<open>h\<close>, \<open>foot h x\<close> the addresses it depends on, and \<open>ok h x\<close>
  says that its references are allocated cells of the right type. A copy allocates, but changes no
  existing cell.
\<close>

locale deep_copier =
  fixes into :: "'t \<Rightarrow> 'c list \<Rightarrow> 't \<times> 'c list"
    and value_in :: "'c list \<Rightarrow> 't \<Rightarrow> 'v"
    and foot :: "'c list \<Rightarrow> 't \<Rightarrow> nat set"
    and ok :: "'c list \<Rightarrow> 't \<Rightarrow> bool"
  assumes bounded: "ok h x \<Longrightarrow> foot h x \<subseteq> {..<length h}"
    and stable: "ok h x \<Longrightarrow> same_on (foot h x) h g \<Longrightarrow> ok g x \<and> value_in g x = value_in h x \<and> foot g x = foot h x"
    and copied: "ok h x \<Longrightarrow> into x h = (y, g) \<Longrightarrow>
      (\<exists>e. g = h @ e) \<and> ok g y \<and> value_in g y = value_in h x \<and> foot g y \<subseteq> {length h..<length g}"
begin

lemma stable_append:
  "ok h x \<Longrightarrow> ok (h @ e) x \<and> value_in (h @ e) x = value_in h x \<and> foot (h @ e) x = foot h x"
  using stable [of h x "h @ e"] bounded [of h x] same_on_append by blast

text \<open>Original and copy can be modified independently.\<close>

lemma independent:
  assumes "ok h x" and "into x h = (y, g)"
  shows "value_in g x = value_in h x \<and> value_in g y = value_in h x \<and> foot g x \<inter> foot g y = {}
    \<and> (\<forall>w. same_on (foot g x) g w \<longrightarrow> value_in w x = value_in h x)
    \<and> (\<forall>w. same_on (foot g y) g w \<longrightarrow> value_in w y = value_in h x)"
proof -
  obtain e where e: "g = h @ e" and y: "ok g y" "value_in g y = value_in h x" "foot g y \<subseteq> {length h..<length g}"
    using copied [OF assms] by blast
  have x: "ok g x \<and> value_in g x = value_in h x \<and> foot g x = foot h x"
    unfolding e by (rule stable_append [OF assms(1)])
  then have "foot g x \<subseteq> {..<length h}" using bounded [OF assms(1)] by simp
  then have "foot g x \<inter> foot g y = {}" using y(3) by fastforce
  with x y stable [of g x] stable [of g y] show ?thesis by simp
qed

end

section \<open>Structs\<close>

text \<open>Copying one thing after another.\<close>

definition copy2 :: "('s, 'c) copier \<Rightarrow> ('t, 'c) copier \<Rightarrow> ('s \<times> 't, 'c) copier" where
  "copy2 f g p h = (case f (fst p) h of (x, h1) \<Rightarrow> (case g (snd p) h1 of (y, h2) \<Rightarrow> ((x, y), h2)))"

definition value2 :: "('c list \<Rightarrow> 's \<Rightarrow> 'v) \<Rightarrow> ('c list \<Rightarrow> 't \<Rightarrow> 'w) \<Rightarrow> 'c list \<Rightarrow> 's \<times> 't \<Rightarrow> 'v \<times> 'w" where
  "value2 v w h p = (v h (fst p), w h (snd p))"

definition foot2 :: "('c list \<Rightarrow> 's \<Rightarrow> nat set) \<Rightarrow> ('c list \<Rightarrow> 't \<Rightarrow> nat set) \<Rightarrow> 'c list \<Rightarrow> 's \<times> 't \<Rightarrow> nat set" where
  "foot2 f g h p = f h (fst p) \<union> g h (snd p)"

definition ok2 :: "('c list \<Rightarrow> 's \<Rightarrow> bool) \<Rightarrow> ('c list \<Rightarrow> 't \<Rightarrow> bool) \<Rightarrow> 'c list \<Rightarrow> 's \<times> 't \<Rightarrow> bool" where
  "ok2 f g h p \<longleftrightarrow> f h (fst p) \<and> g h (snd p)"

lemma deep_copier_pair:
  assumes "deep_copier i1 v1 f1 o1" and "deep_copier i2 v2 f2 o2"
  shows "deep_copier (copy2 i1 i2) (value2 v1 v2) (foot2 f1 f2) (ok2 o1 o2)"
proof
  fix h p assume "ok2 o1 o2 h p"
  then show "foot2 f1 f2 h p \<subseteq> {..<length h}"
    using deep_copier.bounded [OF assms(1)] deep_copier.bounded [OF assms(2)] by (simp add: ok2_def foot2_def)
next
  fix h g p assume "ok2 o1 o2 h p" and s: "same_on (foot2 f1 f2 h p) h g"
  moreover have "same_on (f1 h (fst p)) h g" "same_on (f2 h (snd p)) h g"
    using s by (auto simp: foot2_def intro: same_on_subset)
  ultimately show "ok2 o1 o2 g p \<and> value2 v1 v2 g p = value2 v1 v2 h p \<and> foot2 f1 f2 g p = foot2 f1 f2 h p"
    using deep_copier.stable [OF assms(1), of h "fst p" g] deep_copier.stable [OF assms(2), of h "snd p" g]
    by (simp add: ok2_def foot2_def value2_def)
next
  fix h p q g assume ok: "ok2 o1 o2 h p" and run: "copy2 i1 i2 p h = (q, g)"
  obtain x h1 where r1: "i1 (fst p) h = (x, h1)" by fastforce
  obtain y where r2: "i2 (snd p) h1 = (y, g)" and q: "q = (x, y)"
    using run r1 by (auto simp: copy2_def split: prod.splits)
  obtain e1 where e1: "h1 = h @ e1" and x: "o1 h1 x" "v1 h1 x = v1 h (fst p)" "f1 h1 x \<subseteq> {length h..<length h1}"
    using deep_copier.copied [OF assms(1) _ r1] ok by (auto simp: ok2_def)
  have p: "o2 h1 (snd p) \<and> v2 h1 (snd p) = v2 h (snd p)"
    using deep_copier.stable_append [OF assms(2)] ok by (simp add: e1 ok2_def)
  obtain e2 where e2: "g = h1 @ e2" and y: "o2 g y" "v2 g y = v2 h1 (snd p)" "f2 g y \<subseteq> {length h1..<length g}"
    using deep_copier.copied [OF assms(2) _ r2] p by blast
  have "o1 g x \<and> v1 g x = v1 h1 x \<and> f1 g x = f1 h1 x"
    unfolding e2 by (rule deep_copier.stable_append [OF assms(1) x(1)])
  with x y p e1 e2 q show "(\<exists>e. g = h @ e) \<and> ok2 o1 o2 g q \<and> value2 v1 v2 g q = value2 v1 v2 h p
      \<and> foot2 f1 f2 g q \<subseteq> {length h..<length g}"
    by (force simp: ok2_def value2_def foot2_def)
qed

text \<open>A struct of which the parts \<open>get\<close> refer to memory and the rest, \<open>plain\<close>, does not.\<close>

lemma deep_copier_struct:
  assumes "deep_copier i v f ok" and "\<And>r t. get (put r t) = t" and "\<And>r t. plain (put r t) = plain r"
    and "\<And>r h. into r h = (case i (get r) h of (t, h1) \<Rightarrow> (put r t, h1))"
  shows "deep_copier into (\<lambda>h r. (plain r, v h (get r))) (\<lambda>h r. f h (get r)) (\<lambda>h r. ok h (get r))"
proof
  fix h r assume "ok h (get r)"
  then show "f h (get r) \<subseteq> {..<length h}" by (rule deep_copier.bounded [OF assms(1)])
next
  fix h g r assume "ok h (get r)" and "same_on (f h (get r)) h g"
  from deep_copier.stable [OF assms(1) this]
  show "ok g (get r) \<and> (plain r, v g (get r)) = (plain r, v h (get r)) \<and> f g (get r) = f h (get r)" by simp
next
  fix h r q g assume ok: "ok h (get r)" and "into r h = (q, g)"
  then obtain t where t: "i (get r) h = (t, g)" and q: "q = put r t" by (auto simp: assms(4) split: prod.splits)
  from deep_copier.copied [OF assms(1) ok t] show "(\<exists>e. g = h @ e) \<and> ok g (get q)
      \<and> (plain q, v g (get q)) = (plain r, v h (get r)) \<and> f g (get q) \<subseteq> {length h..<length g}"
    by (simp add: q assms(2,3))
qed

section \<open>Arrays and maps\<close>

definition sl_value :: "('c \<Rightarrow> 'e list) \<Rightarrow> ('c list \<Rightarrow> 'e \<Rightarrow> 'v) \<Rightarrow> 'c list \<Rightarrow> slice option \<Rightarrow> 'v list option" where
  "sl_value dest v h ss = map_option (\<lambda>s. map (v h) (elems dest h s)) ss"

definition sl_foot :: "('c \<Rightarrow> 'e list) \<Rightarrow> ('c list \<Rightarrow> 'e \<Rightarrow> nat set) \<Rightarrow> 'c list \<Rightarrow> slice option \<Rightarrow> nat set" where
  "sl_foot dest f h ss = (case ss of None \<Rightarrow> {} | Some s \<Rightarrow> insert (sl_addr s) (\<Union>x \<in> set (elems dest h s). f h x))"

definition sl_ok :: "('e list \<Rightarrow> 'c) \<Rightarrow> ('c \<Rightarrow> 'e list) \<Rightarrow> ('c list \<Rightarrow> 'e \<Rightarrow> bool) \<Rightarrow> 'c list \<Rightarrow> slice option \<Rightarrow> bool" where
  "sl_ok mk dest ok h ss \<longleftrightarrow>
     (case ss of
        None \<Rightarrow> True
      | Some s \<Rightarrow> sl_addr s < length h \<and> h ! sl_addr s = mk (dest (h ! sl_addr s))
          \<and> sl_off s + sl_len s \<le> length (dest (h ! sl_addr s)) \<and> (\<forall>x \<in> set (elems dest h s). ok h x))"

lemma elems_same: "g ! sl_addr s = h ! sl_addr s \<Longrightarrow> elems dest g s = elems dest h s"
  by (simp add: elems_def)

lemma elems_full: "elems dest h \<lparr> sl_addr = a, sl_off = 0, sl_len = n \<rparr> = take n (dest (h ! a))"
  by (simp add: elems_def)

text \<open>The memory after some elements have been copied: the old cells, the new array, and cells of its
  own for each copied element.\<close>

definition copied_upto ::
    "('e list \<Rightarrow> 'c) \<Rightarrow> ('c list \<Rightarrow> 'e \<Rightarrow> 'v) \<Rightarrow> ('c list \<Rightarrow> 'e \<Rightarrow> nat set) \<Rightarrow> ('c list \<Rightarrow> 'e \<Rightarrow> bool)
       \<Rightarrow> 'e \<Rightarrow> 'e list \<Rightarrow> 'c list \<Rightarrow> 'e list \<Rightarrow> 'c list \<Rightarrow> bool" where
  "copied_upto mk v f ok zero xs h ys g \<longleftrightarrow>
     (\<exists>e. g = h @ mk (ys @ replicate (length xs - length ys) zero) # e) \<and> length ys \<le> length xs
     \<and> (\<forall>j < length ys. ok g (ys ! j) \<and> v g (ys ! j) = v h (xs ! j) \<and> f g (ys ! j) \<subseteq> {Suc (length h)..<length g})"

locale array_copier = deep_copier into value_in foot ok
  for into :: "'t \<Rightarrow> 'c list \<Rightarrow> 't \<times> 'c list" and value_in :: "'c list \<Rightarrow> 't \<Rightarrow> 'v"
    and foot :: "'c list \<Rightarrow> 't \<Rightarrow> nat set" and ok :: "'c list \<Rightarrow> 't \<Rightarrow> bool" +
  fixes mk :: "'t list \<Rightarrow> 'c" and dest :: "'c \<Rightarrow> 't list"
  assumes dest_mk: "dest (mk xs) = xs"
begin

lemma copied_step:
  assumes inv: "copied_upto mk value_in foot ok zero xs h ys g" and less: "length ys < length xs"
    and xs: "\<forall>x \<in> set xs. ok h x" and run: "into (xs ! length ys) g = (y, g1)"
  shows "copied_upto mk value_in foot ok zero xs h (ys @ [y]) (g1[length h := mk ((dest (g1 ! length h))[length ys := y])])"
proof -
  let ?i = "length ys" and ?x = "xs ! length ys"
  obtain e where g: "g = h @ mk (ys @ replicate (length xs - ?i) zero) # e"
    and prior: "\<And>j. j < ?i \<Longrightarrow> ok g (ys ! j) \<and> value_in g (ys ! j) = value_in h (xs ! j) \<and> foot g (ys ! j) \<subseteq> {Suc (length h)..<length g}"
    using inv by (auto simp: copied_upto_def)
  have x: "ok g ?x \<and> value_in g ?x = value_in h ?x"
    using stable_append [of h ?x] xs less unfolding g by simp
  then obtain e1 where g1: "g1 = g @ e1" and y: "ok g1 y" "value_in g1 y = value_in h ?x" "foot g1 y \<subseteq> {length g..<length g1}"
    using copied [OF _ run] by auto
  have "length xs - ?i = Suc (length xs - Suc ?i)" using less by simp
  then have upd: "(dest (g1 ! length h))[?i := y] = (ys @ [y]) @ replicate (length xs - length (ys @ [y])) zero"
    by (simp add: g1 g dest_mk nth_append list_update_append)
  let ?g = "g1[length h := mk ((dest (g1 ! length h))[?i := y])]"
  have shape: "?g = h @ mk ((ys @ [y]) @ replicate (length xs - length (ys @ [y])) zero) # e @ e1"
    unfolding upd by (simp add: g1 g list_update_append)
  have keep: "ok ?g z \<and> value_in ?g z = value_in g1 z \<and> foot ?g z = foot g1 z"
    if "ok g1 z" "foot g1 z \<subseteq> {Suc (length h)..<length g1}" for z
    using that by (intro stable) (auto simp: same_on_def)
  have old: "ok g1 (ys ! j) \<and> value_in g1 (ys ! j) = value_in h (xs ! j) \<and> foot g1 (ys ! j) \<subseteq> {Suc (length h)..<length g1}" if "j < ?i" for j
    using prior [OF that] stable_append [of g "ys ! j" e1] unfolding g1 by auto
  have new: "foot g1 y \<subseteq> {Suc (length h)..<length g1}" using y(3) by (auto simp: g)
  have "ok ?g ((ys @ [y]) ! j) \<and> value_in ?g ((ys @ [y]) ! j) = value_in h (xs ! j)
      \<and> foot ?g ((ys @ [y]) ! j) \<subseteq> {Suc (length h)..<length ?g}" if "j < length (ys @ [y])" for j
  proof (cases "j < ?i")
    case True
    with old [OF True] keep [of "ys ! j"] show ?thesis by (simp add: nth_append)
  next
    case False
    with that have "j = ?i" by simp
    with keep [OF y(1) new] y(2) new show ?thesis by simp
  qed
  then show ?thesis unfolding copied_upto_def using shape less by auto
qed

lemma copyLoop_copies:
  assumes "copied_upto mk value_in foot ok zero (elems dest h s) h ys g" and "sl_addr s < length h"
    and "\<forall>x \<in> set (elems dest h s). ok h x"
  shows "\<exists>zs. length zs = length (elems dest h s)
    \<and> copied_upto mk value_in foot ok zero (elems dest h s) h zs
        (copyLoop mk dest into s (length h) [length ys..<length (elems dest h s)] g)"
  using assms(1)
proof (induction "length (elems dest h s) - length ys" arbitrary: ys g)
  case 0
  then have "length ys = length (elems dest h s)" by (simp add: copied_upto_def)
  with 0 show ?case by auto
next
  case (Suc k)
  let ?xs = "elems dest h s"
  from Suc.hyps(2) have less: "length ys < length ?xs" by simp
  obtain y g1 where run: "into (?xs ! length ys) g = (y, g1)" by fastforce
  have same: "elems dest g s = ?xs"
    using Suc.prems assms(2) by (auto simp: copied_upto_def nth_append intro: elems_same)
  let ?g = "g1[length h := mk ((dest (g1 ! length h))[length ys := y])]"
  have "copied_upto mk value_in foot ok zero ?xs h (ys @ [y]) ?g"
    by (rule copied_step [OF Suc.prems less assms(3) run])
  moreover have "k = length ?xs - length (ys @ [y])" using Suc.hyps(2) by simp
  ultimately obtain zs where "length zs = length ?xs"
    and "copied_upto mk value_in foot ok zero ?xs h zs (copyLoop mk dest into s (length h) [Suc (length ys)..<length ?xs] ?g)"
    using Suc.hyps(1) [of "ys @ [y]" ?g] by auto
  moreover have "copyLoop mk dest into s (length h) [length ys..<length ?xs] g
      = copyLoop mk dest into s (length h) [Suc (length ys)..<length ?xs] ?g"
    using less run same by (simp add: upt_conv_Cons)
  ultimately show ?case by auto
qed

lemma slice_copied:
  assumes "sl_ok mk dest ok h ss" and "copySlice mk dest zero into ss h = (tt, g)"
  shows "(\<exists>e. g = h @ e) \<and> sl_ok mk dest ok g tt \<and> sl_value dest value_in g tt = sl_value dest value_in h ss
    \<and> sl_foot dest foot g tt \<subseteq> {length h..<length g}"
proof (cases ss)
  case None
  with assms show ?thesis by (auto simp: copySlice_def sl_ok_def sl_value_def sl_foot_def)
next
  case (Some s)
  let ?xs = "elems dest h s"
  have s: "sl_addr s < length h" "sl_off s + sl_len s \<le> length (dest (h ! sl_addr s))" "\<forall>x \<in> set ?xs. ok h x"
    using assms(1) Some by (auto simp: sl_ok_def)
  then have len: "length ?xs = sl_len s" by (simp add: elems_def)
  have tt: "tt = Some \<lparr> sl_addr = length h, sl_off = 0, sl_len = sl_len s \<rparr>"
    and g: "g = copyLoop mk dest into s (length h) [length ([] :: 't list)..<length ?xs] (h @ [mk (replicate (sl_len s) zero)])"
    using assms(2) Some len by (simp_all add: copySlice_def)
  have "copied_upto mk value_in foot ok zero ?xs h [] (h @ [mk (replicate (sl_len s) zero)])"
    by (simp add: copied_upto_def len)
  from copyLoop_copies [OF this s(1,3)] obtain zs where zs: "length zs = length ?xs"
    and inv: "copied_upto mk value_in foot ok zero ?xs h zs g" unfolding g by blast
  then obtain e where e: "g = h @ mk zs # e" by (auto simp: copied_upto_def)
  have each: "ok g (zs ! j) \<and> value_in g (zs ! j) = value_in h (?xs ! j) \<and> foot g (zs ! j) \<subseteq> {Suc (length h)..<length g}" if "j < length ?xs" for j
    using inv that zs by (simp add: copied_upto_def)
  have el: "elems dest g \<lparr> sl_addr = length h, sl_off = 0, sl_len = sl_len s \<rparr> = zs"
    using zs len by (simp add: elems_full e dest_mk)
  have "map (value_in g) zs = map (value_in h) ?xs"
    using each zs by (intro nth_equalityI) simp_all
  moreover have "(\<Union>x \<in> set zs. foot g x) \<subseteq> {length h..<length g}" "\<forall>x \<in> set zs. ok g x"
    using each zs by (fastforce simp: in_set_conv_nth)+
  ultimately show ?thesis
    using zs len by (auto simp: tt Some sl_ok_def sl_value_def sl_foot_def el, simp_all add: e dest_mk)
qed

lemma deep_copier_slice:
  "deep_copier (copySlice mk dest zero into) (sl_value dest value_in) (sl_foot dest foot) (sl_ok mk dest ok)"
proof
  fix h ss assume "sl_ok mk dest ok h ss"
  then show "sl_foot dest foot h ss \<subseteq> {..<length h}"
    using bounded by (fastforce simp: sl_ok_def sl_foot_def split: option.splits)
next
  fix h g ss assume "sl_ok mk dest ok h ss" and same: "same_on (sl_foot dest foot h ss) h g"
  show "sl_ok mk dest ok g ss \<and> sl_value dest value_in g ss = sl_value dest value_in h ss
    \<and> sl_foot dest foot g ss = sl_foot dest foot h ss"
  proof (cases ss)
    case (Some s)
    have a: "sl_addr s < length g" "g ! sl_addr s = h ! sl_addr s"
      using same by (simp_all add: Some sl_foot_def same_on_def)
    note el = elems_same [OF a(2), of dest]
    have each: "ok g x \<and> value_in g x = value_in h x \<and> foot g x = foot h x" if "x \<in> set (elems dest h s)" for x
    proof (rule stable)
      show "ok h x" using \<open>sl_ok mk dest ok h ss\<close> that by (simp add: Some sl_ok_def)
      show "same_on (foot h x) h g" using same that by (auto simp: Some sl_foot_def intro: same_on_subset)
    qed
    with \<open>sl_ok mk dest ok h ss\<close> a show ?thesis
      by (simp add: Some sl_ok_def sl_value_def sl_foot_def el)
  qed (simp add: sl_ok_def sl_value_def sl_foot_def)
qed (rule slice_copied)

end

section \<open>The resources are copied deeply\<close>

abbreviation strings_value :: "('m, 'x) cell list \<Rightarrow> slice option \<Rightarrow> string list option" where
  "strings_value \<equiv> sl_value strings_of (\<lambda>h x. x)"

abbreviation strings_foot :: "('m, 'x) cell list \<Rightarrow> slice option \<Rightarrow> nat set" where
  "strings_foot \<equiv> sl_foot strings_of (\<lambda>h x. {})"

abbreviation strings_ok :: "('m, 'x) cell list \<Rightarrow> slice option \<Rightarrow> bool" where
  "strings_ok \<equiv> sl_ok StringArray strings_of (\<lambda>h x. True)"

lemma go_copy_all: "length src = length dst \<Longrightarrow> go_copy dst src = src"
  by (simp add: go_copy_def)

interpretation strings: deep_copier copyStrings strings_value strings_foot strings_ok
proof
  fix h :: "('m, 'x) cell list" and ss tt g
  assume "strings_ok h ss" and "copyStrings ss h = (tt, g)"
  moreover have "length (elems strings_of h s) = sl_len s" if "ss = Some s" for s
    using \<open>strings_ok h ss\<close> that by (auto simp: elems_def sl_ok_def min_def)
  ultimately show "(\<exists>e. g = h @ e) \<and> strings_ok g tt \<and> strings_value g tt = strings_value h ss \<and> strings_foot g tt \<subseteq> {length h..<length g}"
    by (auto simp: copyStrings_def sl_ok_def sl_value_def sl_foot_def elems_full go_copy_all split: option.splits)
qed (auto simp: sl_ok_def sl_value_def sl_foot_def same_on_def elems_def split: option.splits)

definition override_value :: "('m, 'x) cell list \<Rightarrow> nat option \<Rightarrow> (string \<rightharpoonup> string) option" where
  "override_value h mp = map_option (\<lambda>a. map_of (overrides_of (h ! a))) mp"

definition override_foot :: "('m, 'x) cell list \<Rightarrow> nat option \<Rightarrow> nat set" where
  "override_foot h mp = set_option mp"

definition override_ok :: "orders \<Rightarrow> ('m, 'x) cell list \<Rightarrow> nat option \<Rightarrow> bool" where
  "override_ok ord h mp \<longleftrightarrow> range_order ord
     \<and> (\<forall>a \<in> set_option mp. a < length h \<and> h ! a = OverrideMap (overrides_of (h ! a)) \<and> wf_map (overrides_of (h ! a)))"

lemma map_of_fold_set:
  "distinct (map fst xs) \<Longrightarrow> map_of (fold (\<lambda>(k, v) out. map_set out k v) xs m) = map_of m ++ map_of xs"
proof (induction xs arbitrary: m)
  case (Cons x xs)
  obtain k v where x: "x = (k, v)" by (cases x)
  with Cons.prems have k: "map_of xs k = None" by (simp add: map_of_eq_None_iff)
  have "map_of (fold (\<lambda>(k, v) out. map_set out k v) (x # xs) m) = (map_of m)(k \<mapsto> v) ++ map_of xs"
    using Cons x by simp
  also have "\<dots> = map_of m ++ map_of (x # xs)"
    using k by (intro ext) (auto simp: x map_add_def split: option.splits)
  finally show ?case .
qed simp

lemma wf_map_fold_set: "wf_map m \<Longrightarrow> wf_map (fold (\<lambda>(k, v) out. map_set out k v) xs m)"
  by (induction xs arbitrary: m) auto

interpretation override: deep_copier "copyOverride ord" override_value override_foot "override_ok ord" for ord
proof
  fix h :: "('m, 'x) cell list" and mp r g
  assume "override_ok ord h mp" and "copyOverride ord mp h = (r, g)"
  then show "(\<exists>e. g = h @ e) \<and> override_ok ord g r \<and> override_value g r = override_value h mp
      \<and> override_foot g r \<subseteq> {length h..<length g}"
    by (auto simp: copyOverride_def override_ok_def override_value_def override_foot_def wf_map_fold_set
        map_of_fold_set distinct_range_map map_of_range_map split: option.splits)
next
  fix h g :: "('m, 'x) cell list" and mp
  assume "override_ok ord h mp" and "same_on (override_foot h mp) h g"
  then show "override_ok ord g mp \<and> override_value g mp = override_value h mp \<and> override_foot g mp = override_foot h mp"
    by (cases mp) (simp_all add: override_ok_def override_value_def override_foot_def same_on_def)
qed (auto simp: override_ok_def override_foot_def)

text \<open>What a statement, a document, an object and a list look like: the plain fields and, for the
  others, the values behind the references.\<close>

definition sig_value :: "('m, 'x) cell list \<Rightarrow> g_sig \<Rightarrow> string \<times> (string \<rightharpoonup> string) option" where
  "sig_value h v = (gv_VerificationLevel v, override_value h (gv_Override v))"

definition sig_foot :: "('m, 'x) cell list \<Rightarrow> g_sig \<Rightarrow> nat set" where
  "sig_foot h v = override_foot h (gv_Override v)"

definition sig_ok :: "orders \<Rightarrow> ('m, 'x) cell list \<Rightarrow> g_sig \<Rightarrow> bool" where
  "sig_ok ord h v = override_ok ord h (gv_Override v)"

interpretation sig: deep_copier "DeepCopyInto_SignatureVerification ord" sig_value sig_foot "sig_ok ord" for ord
  unfolding sig_value_def [abs_def] sig_foot_def [abs_def] sig_ok_def [abs_def]
  by (rule deep_copier_struct [OF override.deep_copier_axioms, where put = "\<lambda>v m. v\<lparr> gv_Override := m \<rparr>"])
    (simp_all add: DeepCopyInto_SignatureVerification_def)

definition statement_parts :: "g_statement \<Rightarrow> slice option \<times> g_sig \<times> slice option \<times> slice option" where
  "statement_parts st = (gs_RegistryScopes st, gs_SignatureVerification st, gs_TrustStores st, gs_TrustedIdentities st)"

abbreviation "parts_value \<equiv> value2 strings_value (value2 sig_value (value2 strings_value strings_value))"
abbreviation "parts_foot \<equiv> foot2 strings_foot (foot2 sig_foot (foot2 strings_foot strings_foot))"
abbreviation "parts_ok ord \<equiv> ok2 strings_ok (ok2 (sig_ok ord) (ok2 strings_ok strings_ok))"

definition statement_value where
  "statement_value h st = (gs_Name st, parts_value h (statement_parts st))"

definition statement_foot where
  "statement_foot h st = parts_foot h (statement_parts st)"

definition statement_ok where
  "statement_ok ord h st = parts_ok ord h (statement_parts st)"

lemmas parts_copier = deep_copier_pair [OF strings.deep_copier_axioms deep_copier_pair [OF sig.deep_copier_axioms
  deep_copier_pair [OF strings.deep_copier_axioms strings.deep_copier_axioms]]]

interpretation statement: array_copier "DeepCopyInto_TrustPolicyStatement ord" statement_value statement_foot "statement_ok ord"
  StatementArray statements_of for ord
proof (intro array_copier.intro array_copier_axioms.intro)
  show "deep_copier (DeepCopyInto_TrustPolicyStatement ord) statement_value statement_foot (statement_ok ord)"
    unfolding statement_value_def [abs_def] statement_foot_def [abs_def] statement_ok_def [abs_def]
    by (rule deep_copier_struct [OF parts_copier, where put = "\<lambda>st (a, b, c, d).
        st\<lparr> gs_RegistryScopes := a, gs_SignatureVerification := b, gs_TrustStores := c, gs_TrustedIdentities := d \<rparr>"])
      (auto simp: statement_parts_def DeepCopyInto_TrustPolicyStatement_def copy2_def split: prod.splits)
qed simp

definition document_value where
  "document_value h d = ((gd_Version d, gd_TrustPolicyName d), sl_value statements_of statement_value h (gd_TrustPolicies d))"

definition document_foot where
  "document_foot h d = sl_foot statements_of statement_foot h (gd_TrustPolicies d)"

definition document_ok where
  "document_ok ord h d = sl_ok StatementArray statements_of (statement_ok ord) h (gd_TrustPolicies d)"

interpretation document: deep_copier "DeepCopyInto_TrustDocument ord" document_value document_foot "document_ok ord" for ord
  unfolding document_value_def [abs_def] document_foot_def [abs_def] document_ok_def [abs_def]
  by (rule deep_copier_struct [OF statement.deep_copier_slice [of zero_statement], where put = "\<lambda>d ss. d\<lparr> gd_TrustPolicies := ss \<rparr>"])
    (simp_all add: DeepCopyInto_TrustDocument_def)

text \<open>Values without references, such as the spec of a trust store.\<close>

interpretation plain: deep_copier DeepCopyInto_TrustStoreSpec "\<lambda>h x. x" "\<lambda>h x. {}" "\<lambda>h x. True"
  by unfold_locales (auto simp: DeepCopyInto_TrustStoreSpec_def)

definition policy_value where
  "policy_value mv h p = (gp_TypeMeta p, value2 mv document_value h (gp_ObjectMeta p, gp_Spec p))"

definition policy_foot where
  "policy_foot mf h p = foot2 mf document_foot h (gp_ObjectMeta p, gp_Spec p)"

definition policy_ok where
  "policy_ok mo ord h p = ok2 mo (document_ok ord) h (gp_ObjectMeta p, gp_Spec p)"

lemma policy_copier:
  assumes "deep_copier (om_DeepCopyInto lib) mv mf mo"
  shows "deep_copier (DeepCopyInto_TrustPolicy lib ord) (policy_value mv) (policy_foot mf) (policy_ok mo ord)"
  unfolding policy_value_def [abs_def] policy_foot_def [abs_def] policy_ok_def [abs_def]
  by (rule deep_copier_struct [OF deep_copier_pair [OF assms document.deep_copier_axioms],
      where put = "\<lambda>p (om, sp). p\<lparr> gp_ObjectMeta := om, gp_Spec := sp \<rparr>"])
    (auto simp: DeepCopyInto_TrustPolicy_def copy2_def split: prod.splits)

definition store_value where
  "store_value mv h t = ((gt_TypeMeta t, gt_Spec t), mv h (gt_ObjectMeta t))"

definition store_foot where
  "store_foot mf h t = mf h (gt_ObjectMeta t)"

definition store_ok where
  "store_ok mo h t = mo h (gt_ObjectMeta t)"

lemma store_copier:
  assumes "deep_copier (om_DeepCopyInto lib) mv mf mo"
  shows "deep_copier (DeepCopyInto_TrustStore lib) (store_value mv) (store_foot mf) (store_ok mo)"
  unfolding store_value_def [abs_def] store_foot_def [abs_def] store_ok_def [abs_def]
  by (rule deep_copier_struct [OF assms, where put = "\<lambda>t om. t\<lparr> gt_ObjectMeta := om \<rparr>"])
    (simp_all add: DeepCopyInto_TrustStore_def)

definition list_value where
  "list_value lv dest v h ls = (gl_TypeMeta ls, value2 lv (sl_value dest v) h (gl_ListMeta ls, gl_Items ls))"

definition list_foot where
  "list_foot lf dest f h ls = foot2 lf (sl_foot dest f) h (gl_ListMeta ls, gl_Items ls)"

definition list_ok where
  "list_ok lo mk dest ok h ls = ok2 lo (sl_ok mk dest ok) h (gl_ListMeta ls, gl_Items ls)"

lemma list_copier:
  assumes "deep_copier (lm_DeepCopyInto lib) lv lf lo" and "deep_copier item v f ok" and "\<And>xs. dest (mk xs) = xs"
    and "\<And>ls h. into ls h = (case lm_DeepCopyInto lib (gl_ListMeta ls) h of (lm, h1) \<Rightarrow>
      (case copySlice mk dest zero item (gl_Items ls) h1 of (items, h2) \<Rightarrow> (ls\<lparr> gl_ListMeta := lm, gl_Items := items \<rparr>, h2)))"
  shows "deep_copier into (list_value lv dest v) (list_foot lf dest f) (list_ok lo mk dest ok)"
proof -
  have "array_copier item v f ok mk dest"
    using assms(2,3) by (intro array_copier.intro array_copier_axioms.intro)
  note slices = array_copier.deep_copier_slice [OF this, of zero]
  show ?thesis
    unfolding list_value_def [abs_def] list_foot_def [abs_def] list_ok_def [abs_def]
    by (rule deep_copier_struct [OF deep_copier_pair [OF assms(1) slices],
        where put = "\<lambda>ls (lm, items). ls\<lparr> gl_ListMeta := lm, gl_Items := items \<rparr>"])
      (auto simp: assms(4) copy2_def split: prod.splits)
qed

text \<open>The copy of \<open>x\<close> looks like \<open>x\<close>, and neither can be changed through the other.\<close>

definition separate ::
    "('t option \<Rightarrow> 'c list \<Rightarrow> 't iface \<times> 'c list) \<Rightarrow> ('c list \<Rightarrow> 't \<Rightarrow> 'v) \<Rightarrow> ('c list \<Rightarrow> 't \<Rightarrow> nat set) \<Rightarrow> 'c list \<Rightarrow> 't \<Rightarrow> bool" where
  "separate obj v f h x \<longleftrightarrow>
     (\<exists>y g. obj (Some x) h = (Iface (Some y), g)
        \<and> v g x = v h x \<and> v g y = v h x \<and> f g x \<inter> f g y = {}
        \<and> (\<forall>w. same_on (f g x) g w \<longrightarrow> v w x = v h x)
        \<and> (\<forall>w. same_on (f g y) g w \<longrightarrow> v w y = v h x))"

context deep_copier
begin

lemma separate_copy: "ok h x \<Longrightarrow> separate (DeepCopyObject (DeepCopy into)) value_in foot h x"
proof -
  assume x: "ok h x"
  obtain y g where run: "into x h = (y, g)" by fastforce
  then have "DeepCopyObject (DeepCopy into) (Some x) h = (Iface (Some y), g)" by (simp add: DeepCopyObject_def DeepCopy_def)
  with independent [OF x run] show ?thesis unfolding separate_def by blast
qed

lemma pointer_copy:
  "ok h x \<Longrightarrow> \<exists>y g. DeepCopy into (Some x) h = (Some y, g) \<and> ok g y \<and> value_in g y = value_in h x \<and> foot g y \<inter> {..<length h} = {}"
proof -
  assume x: "ok h x"
  obtain y g where run: "into x h = (y, g)" by fastforce
  from copied [OF x run] have "ok g y \<and> value_in g y = value_in h x \<and> foot g y \<inter> {..<length h} = {}" by fastforce
  with run show ?thesis by (simp add: DeepCopy_def)
qed

end

text \<open>The parts of a resource can be copied on their own.\<close>

lemmas part_copies =
  sig.pointer_copy [folded DeepCopy_SignatureVerification_def]
  statement.pointer_copy [folded DeepCopy_TrustPolicyStatement_def]
  document.pointer_copy [folded DeepCopy_TrustDocument_def]
  plain.pointer_copy [folded DeepCopy_TrustStoreSpec_def]

text \<open>The lists, as instances of the contract.\<close>

lemma policies_copier:
  assumes "deep_copier (om_DeepCopyInto lib) mv mf mo" and "deep_copier (lm_DeepCopyInto lib) lv lf lo"
  shows "deep_copier (DeepCopyInto_TrustPolicyList lib ord) (list_value lv policies_of (policy_value mv))
      (list_foot lf policies_of (policy_foot mf)) (list_ok lo PolicyArray policies_of (policy_ok mo ord))"
  by (rule list_copier [OF assms(2) policy_copier [OF assms(1)]]) (simp_all add: DeepCopyInto_TrustPolicyList_def)

lemma stores_copier:
  assumes "deep_copier (om_DeepCopyInto lib) mv mf mo" and "deep_copier (lm_DeepCopyInto lib) lv lf lo"
  shows "deep_copier (DeepCopyInto_TrustStoreList lib) (list_value lv stores_of (store_value mv))
      (list_foot lf stores_of (store_foot mf)) (list_ok lo StoreArray stores_of (store_ok mo))"
  by (rule list_copier [OF assms(2) store_copier [OF assms(1)]]) (simp_all add: DeepCopyInto_TrustStoreList_def)

section \<open>Properties\<close>

text \<open>
  C30. The generated copies are deep: if the copies of the metadata are, then the copy of a trust
  policy, a trust store or a list of them looks exactly like the original (with the same nil
  slices and maps) and shares no memory with it: whatever is written to one, the other keeps its
  value. A nil pointer becomes a nil interface.
\<close>

theorem resources_copied_deeply:
  assumes "deep_copier (om_DeepCopyInto lib) mv mf mo" and "deep_copier (lm_DeepCopyInto lib) lv lf lo"
  shows "(policy_ok mo ord h p \<longrightarrow> separate (DeepCopyObject_TrustPolicy lib ord) (policy_value mv) (policy_foot mf) h p)
    \<and> (store_ok mo h t \<longrightarrow> separate (DeepCopyObject_TrustStore lib) (store_value mv) (store_foot mf) h t)
    \<and> (list_ok lo PolicyArray policies_of (policy_ok mo ord) h ps \<longrightarrow>
         separate (DeepCopyObject_TrustPolicyList lib ord) (list_value lv policies_of (policy_value mv))
           (list_foot lf policies_of (policy_foot mf)) h ps)
    \<and> (list_ok lo StoreArray stores_of (store_ok mo) h ts \<longrightarrow>
         separate (DeepCopyObject_TrustStoreList lib) (list_value lv stores_of (store_value mv))
           (list_foot lf stores_of (store_foot mf)) h ts)
    \<and> DeepCopyObject_TrustPolicy lib ord None h = (NilInterface, h) \<and> DeepCopyObject_TrustStore lib None h = (NilInterface, h)
    \<and> DeepCopyObject_TrustPolicyList lib ord None h = (NilInterface, h) \<and> DeepCopyObject_TrustStoreList lib None h = (NilInterface, h)"
  unfolding object_copies
  by (intro conjI impI deep_copier.separate_copy [OF policy_copier [OF assms(1)]] deep_copier.separate_copy [OF store_copier [OF assms(1)]]
      deep_copier.separate_copy [OF policies_copier [OF assms]] deep_copier.separate_copy [OF stores_copier [OF assms]])
    (simp_all add: DeepCopyObject_def DeepCopy_def)

text \<open>Metadata with a name and a slice of finalizers, and a list of one policy whose statement has a
  scope and an override.\<close>

definition demo_meta :: "(string \<times> slice option, string, (string \<times> slice option, unit) cell) meta_lib" where
  "demo_meta = \<lparr> om_zero = ([], None),
     om_DeepCopyInto = (\<lambda>m h. case copyStrings (snd m) h of (fs, h1) \<Rightarrow> ((fst m, fs), h1)),
     lm_DeepCopyInto = (\<lambda>l h. (l, h)) \<rparr>"

definition demo_heap :: "(string \<times> slice option, unit) cell list" where
  "demo_heap = [StringArray [''*'', ''r/app''], OverrideMap [(''revocation'', ''skip'')], StringArray [''f''],
     StatementArray [\<lparr> gs_Name = ''s'', gs_RegistryScopes = Some \<lparr> sl_addr = 0, sl_off = 0, sl_len = 1 \<rparr>,
       gs_SignatureVerification = \<lparr> gv_VerificationLevel = ''strict'', gv_Override = Some 1 \<rparr>,
       gs_TrustStores = None, gs_TrustedIdentities = None \<rparr>],
     PolicyArray [\<lparr> gp_TypeMeta = ([], []), gp_ObjectMeta = (''tp'', Some \<lparr> sl_addr = 2, sl_off = 0, sl_len = 1 \<rparr>),
       gp_Spec = \<lparr> gd_Version = ''1.0'', gd_TrustPolicyName = ''tp'', gd_TrustPolicies = Some \<lparr> sl_addr = 3, sl_off = 0, sl_len = 1 \<rparr> \<rparr> \<rparr>]]"

definition demo_policies :: "string g_list" where
  "demo_policies = \<lparr> gl_TypeMeta = ([], []), gl_ListMeta = ''42'', gl_Items = Some \<lparr> sl_addr = 4, sl_off = 0, sl_len = 1 \<rparr> \<rparr>"

lemma demo_meta_copies:
  "deep_copier (om_DeepCopyInto demo_meta) (\<lambda>h m. (fst m, strings_value h (snd m))) (\<lambda>h m. strings_foot h (snd m))
     (\<lambda>h m. strings_ok h (snd m))"
  "deep_copier (lm_DeepCopyInto demo_meta) (\<lambda>h x. x) (\<lambda>h x. {}) (\<lambda>h x. True)"
proof -
  show "deep_copier (om_DeepCopyInto demo_meta) (\<lambda>h m. (fst m, strings_value h (snd m))) (\<lambda>h m. strings_foot h (snd m))
     (\<lambda>h m. strings_ok h (snd m))"
    by (rule deep_copier_struct [OF strings.deep_copier_axioms, where put = "\<lambda>m fs. (fst m, fs)"])
      (simp_all add: demo_meta_def)
  show "deep_copier (lm_DeepCopyInto demo_meta) (\<lambda>h x. x) (\<lambda>h x. {}) (\<lambda>h x. True)"
    by unfold_locales (auto simp: demo_meta_def)
qed

lemma demo_policies_ok:
  "list_ok (\<lambda>h x. True) PolicyArray policies_of (policy_ok (\<lambda>h m. strings_ok h (snd m)) in_order) demo_heap demo_policies"
  by (simp add: list_ok_def ok2_def sl_ok_def policy_ok_def document_ok_def statement_ok_def statement_parts_def sig_ok_def
      override_ok_def demo_heap_def demo_policies_def elems_def wf_map_def)

theorem resources_copied_deeply_witness:
  "separate (DeepCopyObject_TrustPolicyList demo_meta in_order)
     (list_value (\<lambda>h x. x) policies_of (policy_value (\<lambda>h m. (fst m, strings_value h (snd m)))))
     (list_foot (\<lambda>h x. {}) policies_of (policy_foot (\<lambda>h m. strings_foot h (snd m)))) demo_heap demo_policies"
  using resources_copied_deeply [OF demo_meta_copies, of in_order demo_heap _ _ demo_policies] demo_policies_ok by blast

end
