(* ===== verification/Flags.thy ===== *)
theory Flags
  imports Config
begin

text \<open>
  The command line: \<^verbatim>\<open>parseFlags\<close> and \<^verbatim>\<open>main\<close> of \<^verbatim>\<open>main.go\<close>, over the parser of package \<^verbatim>\<open>flag\<close> with its error
  handling \<^verbatim>\<open>ExitOnError\<close> and the number syntax of \<^verbatim>\<open>strconv\<close>. Other packages may register flags of their
  own with the same parser: \<open>extra\<close> says which names are theirs, whether they are boolean, and what
  they say to a value.
\<close>

section \<open>Package strconv\<close>

definition ParseBool :: "string \<Rightarrow> bool result" where
  "ParseBool s =
     (if s \<in> set [''1'', ''t'', ''T'', ''true'', ''TRUE'', ''True''] then Inr True
      else if s \<in> set [''0'', ''f'', ''F'', ''false'', ''FALSE'', ''False''] then Inr False
      else Inl (Err ''parse error''))"

text \<open>\<^verbatim>\<open>c | ('x' - 'X')\<close>: the lower case of an ASCII letter.\<close>

definition lower :: "char \<Rightarrow> nat" where
  "lower c = (let n = of_char c :: nat in if n div 32 mod 2 = 0 then n + 32 else n)"

definition digit_of :: "char \<Rightarrow> nat option" where
  "digit_of c =
     (let n = of_char c :: nat; l = lower c
      in if 48 \<le> n \<and> n \<le> 57 then Some (n - 48)
         else if 97 \<le> l \<and> l \<le> 122 then Some (l - 97 + 10)
         else None)"

text \<open>The loop of \<^verbatim>\<open>ParseUint\<close> with base 0: underscores are skipped, a value above 64 bits is out of range.\<close>

fun digits_value :: "nat \<Rightarrow> string \<Rightarrow> nat \<Rightarrow> nat result" where
  "digits_value base [] n = Inr n"
| "digits_value base (c # cs) n =
     (if c = CHR ''_'' then digits_value base cs n
      else (case digit_of c of
              None \<Rightarrow> Inl (Err ''parse error'')
            | Some d \<Rightarrow>
                if base \<le> d then Inl (Err ''parse error'')
                else if 2 ^ 64 \<le> n * base + d then Inl (Err ''value out of range'')
                else digits_value base cs (n * base + d)))"

text \<open>The base prefix and the rest.\<close>

definition base_prefix :: "string \<Rightarrow> nat \<times> string" where
  "base_prefix s =
     (if take 1 s \<noteq> ''0'' then (10, s)
      else if 3 \<le> length s \<and> lower (s ! 1) = 98 then (2, drop 2 s)
      else if 3 \<le> length s \<and> lower (s ! 1) = 111 then (8, drop 2 s)
      else if 3 \<le> length s \<and> lower (s ! 1) = 120 then (16, drop 2 s)
      else (8, drop 1 s))"

datatype seen = SeenStart | SeenDigit | SeenUnderscore | SeenOther

fun underscores :: "bool \<Rightarrow> string \<Rightarrow> seen \<Rightarrow> bool" where
  "underscores hex [] i = (i \<noteq> SeenUnderscore)"
| "underscores hex (c # cs) i =
     (if (48 \<le> (of_char c :: nat) \<and> (of_char c :: nat) \<le> 57) \<or> (hex \<and> 97 \<le> lower c \<and> lower c \<le> 102)
      then underscores hex cs SeenDigit
      else if c = CHR ''_'' then i = SeenDigit \<and> underscores hex cs SeenUnderscore
      else i \<noteq> SeenUnderscore \<and> underscores hex cs SeenOther)"

definition underscoreOK :: "string \<Rightarrow> bool" where
  "underscoreOK s0 =
     (let s = (if take 1 s0 \<in> {''-'', ''+''} then drop 1 s0 else s0)
      in if 2 \<le> length s \<and> take 1 s = ''0'' \<and> lower (s ! 1) \<in> {98, 111, 120}
         then underscores (lower (s ! 1) = 120) (drop 2 s) SeenDigit
         else underscores False s SeenStart)"

definition ParseUint :: "string \<Rightarrow> nat result" where
  "ParseUint s =
     (if s = [] then Inl (Err ''parse error'')
      else (case base_prefix s of
              (base, rest) \<Rightarrow>
                (case digits_value base rest 0 of
                   Inl e \<Rightarrow> Inl e
                 | Inr n \<Rightarrow> if CHR ''_'' \<in> set rest \<and> \<not> underscoreOK s then Inl (Err ''parse error'') else Inr n)))"

definition ParseInt :: "string \<Rightarrow> int result" where
  "ParseInt s =
     (if s = [] then Inl (Err ''parse error'')
      else (let neg = take 1 s = ''-'';
                body = (if take 1 s \<in> {''-'', ''+''} then drop 1 s else s)
            in case ParseUint body of
                 Inl e \<Rightarrow> Inl e
               | Inr un \<Rightarrow>
                   if \<not> neg \<and> 2 ^ 63 \<le> un then Inl (Err ''value out of range'')
                   else if neg \<and> 2 ^ 63 < un then Inl (Err ''value out of range'')
                   else Inr (if neg then - int un else int un)))"

section \<open>Package flag\<close>

record flag_def =
  isBool :: bool
  Set :: "string \<Rightarrow> options \<Rightarrow> options result"

definition BoolVar :: "(bool \<Rightarrow> options \<Rightarrow> options) \<Rightarrow> flag_def" where
  "BoolVar upd = \<lparr> isBool = True, Set = (\<lambda>s opts. case ParseBool s of Inl e \<Rightarrow> Inl e | Inr b \<Rightarrow> Inr (upd b opts)) \<rparr>"

definition StringVar :: "(string \<Rightarrow> options \<Rightarrow> options) \<Rightarrow> flag_def" where
  "StringVar upd = \<lparr> isBool = False, Set = (\<lambda>s opts. Inr (upd s opts)) \<rparr>"

definition IntVar :: "(int \<Rightarrow> options \<Rightarrow> options) \<Rightarrow> flag_def" where
  "IntVar upd = \<lparr> isBool = False, Set = (\<lambda>s opts. case ParseInt s of Inl e \<Rightarrow> Inl e | Inr n \<Rightarrow> Inr (upd n opts)) \<rparr>"

type_synonym foreign_flags = "string \<Rightarrow> (bool \<times> (string \<Rightarrow> gerr option)) option"

definition formal :: "foreign_flags \<Rightarrow> flag_def gomap \<Rightarrow> string \<Rightarrow> flag_def option" where
  "formal extra defs name =
     (case map_of defs name of
        Some f \<Rightarrow> Some f
      | None \<Rightarrow>
          (case extra name of
             None \<Rightarrow> None
           | Some (b, set_value) \<Rightarrow>
               Some \<lparr> isBool = b, Set = (\<lambda>s opts. case set_value s of None \<Rightarrow> Inr opts | Some e \<Rightarrow> Inl e) \<rparr>))"

record parsing =
  fs_args :: "string list"
  fs_opts :: options
  fs_actual :: "string list"

datatype flag_error = ErrHelp | FlagError string

text \<open>The name and the value of \<^verbatim>\<open>name=value\<close>; the equals sign is not the first byte.\<close>

definition cut_value :: "string \<Rightarrow> string \<times> string option" where
  "cut_value name =
     (let n = take 1 name @ takeWhile (\<lambda>c. c \<noteq> CHR ''='') (drop 1 name)
      in (n, if length n < length name then Some (drop (Suc (length n)) name) else None))"

definition accept :: "string \<Rightarrow> string list \<Rightarrow> options result \<Rightarrow> string \<Rightarrow> parsing \<Rightarrow> (bool \<times> flag_error option) \<times> parsing" where
  "accept name args res msg f =
     (case res of
        Inl e \<Rightarrow> ((False, Some (FlagError (msg @ name @ '': '' @ (case e of Err m \<Rightarrow> m | Panic m \<Rightarrow> m)))), f\<lparr> fs_args := args \<rparr>)
      | Inr opts \<Rightarrow> ((True, None), f\<lparr> fs_args := args, fs_opts := opts, fs_actual := name # fs_actual f \<rparr>))"

text \<open>The second half of \<^verbatim>\<open>parseOne\<close>: name and value are known, \<open>args\<close> are the arguments that follow.\<close>

definition applyFlag ::
    "(string \<Rightarrow> string) \<Rightarrow> (string \<Rightarrow> flag_def option) \<Rightarrow> string \<Rightarrow> string option \<Rightarrow> string list \<Rightarrow> parsing
       \<Rightarrow> (bool \<times> flag_error option) \<times> parsing" where
  "applyFlag quote flags n val args f =
     (case flags n of
        None \<Rightarrow>
          ((False, Some (if n \<in> {''help'', ''h''} then ErrHelp else FlagError (''flag provided but not defined: -'' @ n))),
           f\<lparr> fs_args := args \<rparr>)
      | Some d \<Rightarrow>
          if isBool d
          then (case val of
                  Some x \<Rightarrow> accept n args (Set d x (fs_opts f)) (''invalid boolean value '' @ quote x @ '' for -'') f
                | None \<Rightarrow> accept n args (Set d ''true'' (fs_opts f)) ''invalid boolean flag '' f)
          else (case val of
                  Some x \<Rightarrow> accept n args (Set d x (fs_opts f)) (''invalid value '' @ quote x @ '' for flag -'') f
                | None \<Rightarrow>
                    (case args of
                       x # rest \<Rightarrow> accept n rest (Set d x (fs_opts f)) (''invalid value '' @ quote x @ '' for flag -'') f
                     | [] \<Rightarrow> ((False, Some (FlagError (''flag needs an argument: -'' @ n))), f\<lparr> fs_args := args \<rparr>))))"

definition parseOne ::
    "(string \<Rightarrow> string) \<Rightarrow> (string \<Rightarrow> flag_def option) \<Rightarrow> parsing \<Rightarrow> (bool \<times> flag_error option) \<times> parsing" where
  "parseOne quote flags f =
     (case fs_args f of
        [] \<Rightarrow> ((False, None), f)
      | s # args \<Rightarrow>
          if length s < 2 \<or> s ! 0 \<noteq> CHR ''-'' then ((False, None), f)
          else if s = ''--'' then ((False, None), f\<lparr> fs_args := args \<rparr>)
          else
            (let name = drop (if s ! 1 = CHR ''-'' then 2 else 1) s
             in if name = [] \<or> name ! 0 \<in> {CHR ''-'', CHR ''=''} then ((False, Some (FlagError (''bad flag syntax: '' @ s))), f)
                else applyFlag quote flags (fst (cut_value name)) (snd (cut_value name)) args f))"

lemma accept_args: "fs_args (snd (accept n args res m f)) = args"
  by (simp add: accept_def split: sum.splits)

lemma applyFlag_args: "length (fs_args (snd (applyFlag quote flags n val args f))) \<le> length args"
  by (simp add: applyFlag_def accept_args split: option.splits list.splits)

lemma parseOne_shorter:
  assumes "fst (fst (parseOne quote flags f))"
  shows "length (fs_args (snd (parseOne quote flags f))) < length (fs_args f)"
proof (cases "fs_args f")
  case (Cons s args)
  let ?name = "drop (if s ! 1 = CHR ''-'' then 2 else 1) s"
  from assms Cons have "parseOne quote flags f = applyFlag quote flags (fst (cut_value ?name)) (snd (cut_value ?name)) args f"
    by (simp add: parseOne_def Let_def split: if_splits)
  with applyFlag_args [of quote flags _ _ args f] show ?thesis by (simp add: Cons less_Suc_eq_le)
qed (use assms in \<open>simp add: parseOne_def\<close>)

datatype parse_outcome = Parsed parsing | os_Exit nat

function Parse :: "(string \<Rightarrow> string) \<Rightarrow> (string \<Rightarrow> flag_def option) \<Rightarrow> parsing \<Rightarrow> parse_outcome" where
  "Parse quote flags f =
     (let r = parseOne quote flags f
      in if fst (fst r) then Parse quote flags (snd r)
         else (case snd (fst r) of
                 None \<Rightarrow> Parsed (snd r)
               | Some ErrHelp \<Rightarrow> os_Exit 0
               | Some (FlagError m) \<Rightarrow> os_Exit 2))"
  by auto
termination
  by (relation "measure (\<lambda>(quote, flags, f). length (fs_args f))") (auto simp: parseOne_shorter)

declare Parse.simps [simp del]

section \<open>The flags of the program\<close>

definition default_options :: options where
  "default_options =
     \<lparr> o_local = False, o_noTLS = False, o_imagePullSecrets = [], o_allowInsecureRegistry = False,
       o_pluginConfigMap = ''notation-plugin-config'', o_debug = False, o_maxSignatureAttempts = 30,
       o_metricsAddr = '':8080'', o_probeAddr = '':8081'', o_leaderElect = False, o_cacheEnabled = True,
       o_cacheMaxSize = 1000, o_cacheTTLSeconds = 3600,
       o_allowedUsers = ''system:serviceaccount:kyverno:kyverno-admission-controller,system:serviceaccount:kyverno:kyverno-reports-controller'',
       o_reviewKyvernoToken = True, o_tokenReviewAudiences = [], o_logLevel = ''info'', o_logLevelSet = False,
       o_logFormat = ''text'', o_showVersion = False \<rparr>"

definition flag_table :: "flag_def gomap" where
  "flag_table =
     [(''local'', BoolVar (\<lambda>x v. v\<lparr> o_local := x \<rparr>)),
      (''notls'', BoolVar (\<lambda>x v. v\<lparr> o_noTLS := x \<rparr>)),
      (''imagePullSecrets'', StringVar (\<lambda>x v. v\<lparr> o_imagePullSecrets := x \<rparr>)),
      (''allowInsecureRegistry'', BoolVar (\<lambda>x v. v\<lparr> o_allowInsecureRegistry := x \<rparr>)),
      (''pluginConfigMap'', StringVar (\<lambda>x v. v\<lparr> o_pluginConfigMap := x \<rparr>)),
      (''debug'', BoolVar (\<lambda>x v. v\<lparr> o_debug := x \<rparr>)),
      (''maxSignatureAttempts'', IntVar (\<lambda>x v. v\<lparr> o_maxSignatureAttempts := x \<rparr>)),
      (''metrics-bind-address'', StringVar (\<lambda>x v. v\<lparr> o_metricsAddr := x \<rparr>)),
      (''health-probe-bind-address'', StringVar (\<lambda>x v. v\<lparr> o_probeAddr := x \<rparr>)),
      (''leader-elect'', BoolVar (\<lambda>x v. v\<lparr> o_leaderElect := x \<rparr>)),
      (''cacheEnabled'', BoolVar (\<lambda>x v. v\<lparr> o_cacheEnabled := x \<rparr>)),
      (''cacheMaxSize'', IntVar (\<lambda>x v. v\<lparr> o_cacheMaxSize := x \<rparr>)),
      (''cacheTTLDurationSeconds'', IntVar (\<lambda>x v. v\<lparr> o_cacheTTLSeconds := x \<rparr>)),
      (''reviewKyvernoToken'', BoolVar (\<lambda>x v. v\<lparr> o_reviewKyvernoToken := x \<rparr>)),
      (''allowedUsers'', StringVar (\<lambda>x v. v\<lparr> o_allowedUsers := x \<rparr>)),
      (''tokenReviewAudiences'', StringVar (\<lambda>x v. v\<lparr> o_tokenReviewAudiences := x \<rparr>)),
      (''logLevel'', StringVar (\<lambda>x v. v\<lparr> o_logLevel := x \<rparr>)),
      (''logFormat'', StringVar (\<lambda>x v. v\<lparr> o_logFormat := x \<rparr>)),
      (''version'', BoolVar (\<lambda>x v. v\<lparr> o_showVersion := x \<rparr>))]"

text \<open>\<open>Inl\<close> is the exit code with which the process ends.\<close>

definition parseFlags :: "(string \<Rightarrow> string) \<Rightarrow> foreign_flags \<Rightarrow> string list \<Rightarrow> nat + options" where
  "parseFlags quote extra args =
     (case Parse quote (formal extra flag_table) \<lparr> fs_args = args, fs_opts = default_options, fs_actual = [] \<rparr> of
        os_Exit n \<Rightarrow> Inl n
      | Parsed f \<Rightarrow> Inr (if ''logLevel'' \<in> set (fs_actual f) then (fs_opts f)\<lparr> o_logLevelSet := True \<rparr> else fs_opts f))"

text \<open>\<^verbatim>\<open>main\<close>: how the process ends, given what \<^verbatim>\<open>run\<close> returns for the logger and the options.\<close>

definition main_exit ::
    "(string \<Rightarrow> string) \<Rightarrow> foreign_flags \<Rightarrow> (zap_config \<Rightarrow> options \<Rightarrow> gerr option) \<Rightarrow> string list \<Rightarrow> nat" where
  "main_exit quote extra run args =
     (case parseFlags quote extra args of
        Inl n \<Rightarrow> n
      | Inr opts \<Rightarrow>
          if o_showVersion opts then 0
          else (case newLogger quote (o_logFormat opts) (effectiveLogLevel opts) of
                  Inl e \<Rightarrow> 1
                | Inr logger \<Rightarrow> (case run logger opts of Some e \<Rightarrow> 1 | None \<Rightarrow> 0)))"

section \<open>Numbers and switches in decimal and words\<close>

definition digit_char :: "nat \<Rightarrow> char" where
  "digit_char d = ''0123456789'' ! d"

fun decimal :: "nat \<Rightarrow> string" where
  "decimal n = (if n < 10 then [digit_char n] else decimal (n div 10) @ [digit_char (n mod 10)])"

declare decimal.simps [simp del]

definition show_int :: "int \<Rightarrow> string" where
  "show_int i = (if i < 0 then CHR ''-'' # decimal (nat (- i)) else decimal (nat i))"

definition show_bool :: "bool \<Rightarrow> string" where
  "show_bool b = (if b then ''true'' else ''false'')"

lemma digits_value_append:
  "digits_value base (xs @ ys) n = (case digits_value base xs n of Inl e \<Rightarrow> Inl e | Inr m \<Rightarrow> digits_value base ys m)"
  by (induction xs arbitrary: n) (auto split: option.splits)

lemma digit_char_of:
  assumes "d < 10"
  shows "digit_of (digit_char d) = Some d \<and> digit_char d \<noteq> CHR ''_'' \<and> digit_char d \<noteq> CHR ''-''
    \<and> digit_char d \<noteq> CHR ''+'' \<and> (digit_char d = CHR ''0'' \<longrightarrow> d = 0)"
proof -
  from assms have "d \<in> {0, 1, 2, 3, 4, 5, 6, 7, 8, 9}" by auto
  then show ?thesis
    by (elim insertE emptyE) (simp_all add: digit_char_def digit_of_def lower_def)
qed

lemma decimal_value: "n < 2 ^ 64 \<Longrightarrow> digits_value 10 (decimal n) 0 = Inr n"
proof (induction n rule: decimal.induct)
  case (1 n)
  show ?case
  proof (cases "n < 10")
    case True
    with digit_char_of [of n] 1(2) show ?thesis by (simp add: decimal.simps [of n])
  next
    case False
    have "n div 10 * 10 + n mod 10 = n" by simp
    with False 1 digit_char_of [of "n mod 10"] show ?thesis
      by (simp add: decimal.simps [of n] digits_value_append)
  qed
qed

lemma decimal_chars: "CHR ''_'' \<notin> set (decimal n) \<and> decimal n \<noteq> []"
proof (induction n rule: decimal.induct)
  case (1 n)
  with digit_char_of [of n] digit_char_of [of "n mod 10"] show ?case
    by (cases "n < 10") (auto simp: decimal.simps [of n])
qed

lemma decimal_first:
  "\<exists>c cs. decimal n = c # cs \<and> c \<noteq> CHR ''-'' \<and> c \<noteq> CHR ''+'' \<and> (c = CHR ''0'' \<longrightarrow> n = 0 \<and> cs = [])"
proof (induction n rule: decimal.induct)
  case (1 n)
  show ?case
  proof (cases "n < 10")
    case True
    with digit_char_of [of n] show ?thesis by (simp add: decimal.simps [of n])
  next
    case False
    then have "n div 10 \<noteq> 0" by auto
    with False 1 show ?thesis by (auto simp: decimal.simps [of n])
  qed
qed

lemma ParseUint_decimal: "n < 2 ^ 64 \<Longrightarrow> ParseUint (decimal n) = Inr n"
proof -
  assume n: "n < 2 ^ 64"
  obtain c cs where d: "decimal n = c # cs" "c = CHR ''0'' \<longrightarrow> n = 0 \<and> cs = []" using decimal_first by blast
  show ?thesis
  proof (cases "c = CHR ''0''")
    case True
    with d show ?thesis by (simp add: ParseUint_def base_prefix_def)
  next
    case False
    then have "base_prefix (decimal n) = (10, decimal n)" by (simp add: base_prefix_def d(1))
    with decimal_value [OF n] decimal_chars show ?thesis by (simp add: ParseUint_def)
  qed
qed

lemma ParseInt_show: "- (2 ^ 63) \<le> i \<Longrightarrow> i < 2 ^ 63 \<Longrightarrow> ParseInt (show_int i) = Inr i"
proof -
  assume i: "- (2 ^ 63) \<le> i" "i < 2 ^ 63"
  obtain c cs where d: "decimal (nat (if i < 0 then - i else i)) = c # cs" "c \<noteq> CHR ''-''" "c \<noteq> CHR ''+''"
    using decimal_first by blast
  have "nat (if i < 0 then - i else i) < 2 ^ 64" using i by auto
  from ParseUint_decimal [OF this] i d show ?thesis
    by (auto simp: ParseInt_def show_int_def)
qed

lemma ParseBool_show: "ParseBool (show_bool b) = Inr b"
  by (simp add: ParseBool_def show_bool_def)

section \<open>Spelling a flag\<close>

text \<open>The ways to write a flag: with one dash or two, joined with its value or followed by it.\<close>

definition spell :: "bool \<times> bool \<Rightarrow> string \<Rightarrow> string \<Rightarrow> string list" where
  "spell style n v =
     (let s = (if fst style then ''--'' else ''-'') @ n
      in if snd style then [s @ CHR ''='' # v] else [s, v])"

definition flag_name :: "string \<Rightarrow> bool" where
  "flag_name n \<longleftrightarrow> n \<noteq> [] \<and> n ! 0 \<noteq> CHR ''-'' \<and> CHR ''='' \<notin> set n"

lemma takeWhile_absent: "x \<notin> set xs \<Longrightarrow> takeWhile (\<lambda>c. c \<noteq> x) xs = xs"
  by (induction xs) auto

lemma takeWhile_upto: "x \<notin> set xs \<Longrightarrow> takeWhile (\<lambda>c. c \<noteq> x) (xs @ x # ys) = xs"
  by (induction xs) auto

lemma cut_value_joined: "flag_name n \<Longrightarrow> cut_value (n @ CHR ''='' # v) = (n, Some v)"
  by (cases n) (simp_all add: flag_name_def cut_value_def Let_def takeWhile_upto)

lemma cut_value_alone: "flag_name n \<Longrightarrow> cut_value n = (n, None)"
  by (cases n) (simp_all add: flag_name_def cut_value_def Let_def takeWhile_absent)

lemma parseOne_dashed:
  assumes "fs_args f = ((if dd then ''--'' else ''-'') @ name) # args" and "name \<noteq> []" and "name ! 0 \<noteq> CHR ''-''" and "name ! 0 \<noteq> CHR ''=''"
  shows "parseOne quote flags f = applyFlag quote flags (fst (cut_value name)) (snd (cut_value name)) args f"
  using assms by (cases name) (auto simp: parseOne_def Let_def)

lemma parseOne_spell:
  assumes "fs_args f = spell style n v @ rest" and "flag_name n" and "flags n = Some d" and "isBool d \<longrightarrow> snd style"
    and "Set d v (fs_opts f) = Inr opts"
  shows "parseOne quote flags f = ((True, None), f\<lparr> fs_args := rest, fs_opts := opts, fs_actual := n # fs_actual f \<rparr>)"
proof -
  have n: "n \<noteq> []" "n ! 0 \<noteq> CHR ''-''" "n ! 0 \<noteq> CHR ''=''"
    using assms(2) by (cases n; force simp: flag_name_def)+
  show ?thesis
  proof (cases "snd style")
    case True
    have "fs_args f = ((if fst style then ''--'' else ''-'') @ n @ CHR ''='' # v) # rest"
      using assms(1) True by (simp add: spell_def Let_def)
    from parseOne_dashed [OF this] n cut_value_joined [OF assms(2), of v] assms(3,5) show ?thesis
      by (simp add: nth_append applyFlag_def accept_def)
  next
    case False
    have "fs_args f = ((if fst style then ''--'' else ''-'') @ n) # v # rest"
      using assms(1) False by (simp add: spell_def Let_def)
    from parseOne_dashed [OF this n] cut_value_alone [OF assms(2)] False assms(3,4,5) show ?thesis
      by (simp add: applyFlag_def accept_def)
  qed
qed

text \<open>What the flags mean: each sets its value, one after the other.\<close>

fun assign_all :: "(string \<Rightarrow> flag_def option) \<Rightarrow> (string \<times> string) list \<Rightarrow> options \<Rightarrow> options option" where
  "assign_all flags [] opts = Some opts"
| "assign_all flags ((n, v) # rest) opts =
     (case flags n of
        None \<Rightarrow> None
      | Some d \<Rightarrow> (case Set d v opts of Inl e \<Rightarrow> None | Inr opts1 \<Rightarrow> assign_all flags rest opts1))"

definition spell_all :: "(string \<Rightarrow> bool \<times> bool) \<Rightarrow> (string \<times> string) list \<Rightarrow> string list" where
  "spell_all style settings = concat (map (\<lambda>(n, v). spell (style n) n v) settings)"

lemma Parse_spelled:
  assumes "assign_all flags settings opts = Some opts1"
    and "\<forall>(n, v) \<in> set settings. flag_name n \<and> (\<forall>d. flags n = Some d \<longrightarrow> isBool d \<longrightarrow> snd (style n))"
  shows "Parse quote flags \<lparr> fs_args = spell_all style settings, fs_opts = opts, fs_actual = seen \<rparr>
     = Parsed \<lparr> fs_args = [], fs_opts = opts1, fs_actual = rev (map fst settings) @ seen \<rparr>"
  using assms
proof (induction settings arbitrary: opts seen)
  case Nil
  then show ?case by (simp add: Parse.simps parseOne_def spell_all_def)
next
  case (Cons nv settings)
  obtain n v where nv: "nv = (n, v)" by (cases nv)
  from Cons.prems(1) obtain d opts2 where d: "flags n = Some d" "Set d v opts = Inr opts2"
    and rest: "assign_all flags settings opts2 = Some opts1"
    by (auto simp: nv split: option.splits sum.splits)
  let ?f = "\<lparr> fs_args = spell_all style (nv # settings), fs_opts = opts, fs_actual = seen \<rparr>"
  have "parseOne quote flags ?f = ((True, None), ?f\<lparr> fs_args := spell_all style settings, fs_opts := opts2, fs_actual := n # seen \<rparr>)"
    using parseOne_spell [of ?f "style n" n v "spell_all style settings" flags d opts2 quote] d Cons.prems(2)
    by (simp add: nv spell_all_def)
  then have "Parse quote flags ?f = Parse quote flags \<lparr> fs_args = spell_all style settings, fs_opts = opts2, fs_actual = n # seen \<rparr>"
    by (simp add: Parse.simps [of quote flags ?f] Let_def)
  with Cons.IH [OF rest, of "n # seen"] Cons.prems(2) show ?case by (simp add: nv)
qed

text \<open>Every option with its value.\<close>

definition settings_of :: "options \<Rightarrow> (string \<times> string) list" where
  "settings_of v =
     [(''local'', show_bool (o_local v)), (''notls'', show_bool (o_noTLS v)), (''imagePullSecrets'', o_imagePullSecrets v),
      (''allowInsecureRegistry'', show_bool (o_allowInsecureRegistry v)), (''pluginConfigMap'', o_pluginConfigMap v),
      (''debug'', show_bool (o_debug v)), (''maxSignatureAttempts'', show_int (o_maxSignatureAttempts v)),
      (''metrics-bind-address'', o_metricsAddr v), (''health-probe-bind-address'', o_probeAddr v),
      (''leader-elect'', show_bool (o_leaderElect v)), (''cacheEnabled'', show_bool (o_cacheEnabled v)),
      (''cacheMaxSize'', show_int (o_cacheMaxSize v)), (''cacheTTLDurationSeconds'', show_int (o_cacheTTLSeconds v)),
      (''reviewKyvernoToken'', show_bool (o_reviewKyvernoToken v)), (''allowedUsers'', o_allowedUsers v),
      (''tokenReviewAudiences'', o_tokenReviewAudiences v), (''logLevel'', o_logLevel v), (''logFormat'', o_logFormat v),
      (''version'', show_bool (o_showVersion v))]"

definition fits :: "int \<Rightarrow> bool" where
  "fits i \<longleftrightarrow> - (2 ^ 63) \<le> i \<and> i < 2 ^ 63"

lemma formal_own: "map_of defs n = Some d \<Longrightarrow> formal extra defs n = Some d"
  by (simp add: formal_def)

lemma assign_settings:
  assumes "fits (o_maxSignatureAttempts v)" and "fits (o_cacheMaxSize v)" and "fits (o_cacheTTLSeconds v)"
    and "\<not> o_logLevelSet v"
  shows "assign_all (formal extra flag_table) (settings_of v) default_options = Some v"
  using assms
  by (cases v) (simp add: settings_of_def formal_own flag_table_def BoolVar_def StringVar_def IntVar_def ParseBool_show
      ParseInt_show fits_def default_options_def)

lemma parseFlags_assigns:
  assumes "assign_all (formal extra flag_table) settings default_options = Some opts"
    and "\<forall>(n, v) \<in> set settings. flag_name n \<and> (\<forall>d. formal extra flag_table n = Some d \<longrightarrow> isBool d \<longrightarrow> snd (style n))"
  shows "parseFlags quote extra (spell_all style settings)
     = Inr (if ''logLevel'' \<in> fst ` set settings then opts\<lparr> o_logLevelSet := True \<rparr> else opts)"
  by (simp add: parseFlags_def Parse_spelled [OF assms])

lemma settings_names: "\<forall>(n, x) \<in> set (settings_of v). flag_name n \<and> map_of flag_table n \<noteq> None"
  by (simp add: settings_of_def flag_name_def flag_table_def)

lemma parseFlags_undefined:
  assumes "flag_name n" and "formal extra flag_table n = None" and "n \<notin> {''help'', ''h''}"
  shows "parseFlags quote extra (((if dd then ''--'' else ''-'') @ n) # rest) = Inl 2"
proof -
  let ?f = "\<lparr> fs_args = ((if dd then ''--'' else ''-'') @ n) # rest, fs_opts = default_options, fs_actual = [] \<rparr>"
  have "n \<noteq> []" "n ! 0 \<noteq> CHR ''-''" "n ! 0 \<noteq> CHR ''=''"
    using assms(1) by (cases n; force simp: flag_name_def)+
  from parseOne_dashed [of ?f dd, OF _ this] assms cut_value_alone [OF assms(1)]
  have "parseOne quote (formal extra flag_table) ?f
      = ((False, Some (FlagError (''flag provided but not defined: -'' @ n))), ?f\<lparr> fs_args := rest \<rparr>)"
    by (simp add: applyFlag_def)
  then show ?thesis by (simp add: parseFlags_def Parse.simps [of quote _ ?f] Let_def)
qed

section \<open>Properties\<close>

text \<open>
  C31. The command line is read faithfully: every value of the options, with any strings and any 64-bit
  integers, can be given as flags, each with one or two dashes and, unless boolean, joined with
  its value or before it, and is read back exactly, with the log level marked as given. In
  general the flags take effect one after the other on the defaults, so the last one wins and an
  empty command line gives the defaults; a flag nobody has defined ends the process with exit
  code 2, and a request for the version ends it with exit code 0 before anything is started.
\<close>

theorem command_line_roundtrip:
  assumes "fits (o_maxSignatureAttempts v)" and "fits (o_cacheMaxSize v)" and "fits (o_cacheTTLSeconds v)"
    and "\<not> o_logLevelSet v" and "\<forall>n d. map_of flag_table n = Some d \<longrightarrow> isBool d \<longrightarrow> snd (style n)"
  shows "parseFlags quote extra (spell_all style (settings_of v)) = Inr (v\<lparr> o_logLevelSet := True \<rparr>)
    \<and> (\<forall>settings opts. assign_all (formal extra flag_table) settings default_options = Some opts \<longrightarrow>
         (\<forall>(n, x) \<in> set settings. flag_name n \<and> map_of flag_table n \<noteq> None) \<longrightarrow>
         parseFlags quote extra (spell_all style settings)
           = Inr (if ''logLevel'' \<in> fst ` set settings then opts\<lparr> o_logLevelSet := True \<rparr> else opts))
    \<and> parseFlags quote extra [] = Inr default_options
    \<and> (\<forall>n rest. flag_name n \<longrightarrow> map_of flag_table n = None \<longrightarrow> extra n = None \<longrightarrow> n \<notin> {''help'', ''h''} \<longrightarrow>
         main_exit quote extra run ((''--'' @ n) # rest) = 2)
    \<and> (o_showVersion v \<longrightarrow> main_exit quote extra run (spell_all style (settings_of v)) = 0)"
proof -
  have general: "parseFlags quote extra (spell_all style settings)
       = Inr (if ''logLevel'' \<in> fst ` set settings then opts\<lparr> o_logLevelSet := True \<rparr> else opts)"
    if "assign_all (formal extra flag_table) settings default_options = Some opts"
      and own: "\<forall>(n, x) \<in> set settings. flag_name n \<and> map_of flag_table n \<noteq> None" for settings opts
    using that(1)
  proof (rule parseFlags_assigns)
    show "\<forall>(n, x) \<in> set settings. flag_name n \<and> (\<forall>d. formal extra flag_table n = Some d \<longrightarrow> isBool d \<longrightarrow> snd (style n))"
    proof (clarify, rule conjI)
      fix n x assume nx: "(n, x) \<in> set settings"
      with own show "flag_name n" by blast
      obtain d' where "map_of flag_table n = Some d'" using own nx by blast
      with assms(5) show "\<forall>d. formal extra flag_table n = Some d \<longrightarrow> isBool d \<longrightarrow> snd (style n)"
        by (simp add: formal_own)
    qed
  qed
  have "''logLevel'' \<in> fst ` set (settings_of v)" by (simp add: settings_of_def)
  with general [OF assign_settings [OF assms(1-4)] settings_names]
  have "parseFlags quote extra (spell_all style (settings_of v)) = Inr (v\<lparr> o_logLevelSet := True \<rparr>)" by simp
  moreover have "parseFlags quote extra [] = Inr default_options"
    using general [of "[]" default_options] by (simp add: spell_all_def)
  moreover have "parseFlags quote extra ((''--'' @ n) # rest) = Inl 2"
    if "flag_name n" "map_of flag_table n = None" "extra n = None" "n \<notin> {''help'', ''h''}" for n rest
    using parseFlags_undefined [of n extra quote True rest] that by (simp add: formal_def)
  ultimately show ?thesis using general by (simp add: main_exit_def)
qed

theorem command_line_roundtrip_witness:
  "parseFlags id (\<lambda>n. None) (spell_all (\<lambda>n. (True, True)) (settings_of demo_options)) = Inr (demo_options\<lparr> o_logLevelSet := True \<rparr>)"
  by (rule command_line_roundtrip [THEN conjunct1]) (simp_all add: demo_options_def fits_def)

end
