(* ===== verification/Convergence.thy ===== *)
theory Convergence
  imports Stores
begin

text \<open>
  The trust store sync (\<^verbatim>\<open>syncTrustStores\<close> of \<^verbatim>\<open>controller/truststore_controller.go\<close>) reaches its goal: when no
  system call fails and nothing stands in the way of a directory or a file, it returns without an
  error and leaves a disk on which it has nothing to do. The definitions are those of \<open>Stores\<close>.
\<close>

section \<open>Removing a tree\<close>

lemma remove_each_succeeds:
  assumes "no_faults env"
  shows "\<forall>p \<in> set ps. map_of (disk s) p \<noteq> None \<Longrightarrow> distinct ps \<Longrightarrow> sorted_wrt (\<lambda>a b. length b \<le> length a) ps \<Longrightarrow>
    (\<And>p x. p \<in> set ps \<Longrightarrow> map_of (disk s) (p @ [x]) \<noteq> None \<Longrightarrow> p @ [x] \<in> set ps) \<Longrightarrow>
    fst (remove_each env ps s) = None"
proof (induction ps arbitrary: s)
  case (Cons p ps)
  have "p @ [x] \<notin> set (p # ps)" for x using Cons.prems(3) by auto
  then have "map_of (disk s) (p @ [x]) = None" for x
    using Cons.prems(4) [of p x] by (cases "map_of (disk s) (p @ [x])") auto
  then have "children (disk s) p = []" using children_iff [of _ "disk s" p] by (metis last_in_set)
  then have rm: "os_Remove env s p = (None, commit s (AList.delete p (disk s)))"
    using assms Cons.prems(1) by (auto simp: os_Remove_def no_faults_def)
  let ?s1 = "commit s (AList.delete p (disk s))"
  have d: "map_of (disk ?s1) q = (if q = p then None else map_of (disk s) q)" for q by (simp add: delete_conv')
  have "fst (remove_each env ps ?s1) = None"
  proof (rule Cons.IH)
    show "\<forall>q \<in> set ps. map_of (disk ?s1) q \<noteq> None" unfolding d using Cons.prems(1,2) by auto
    show "q @ [x] \<in> set ps" if "q \<in> set ps" "map_of (disk ?s1) (q @ [x]) \<noteq> None" for q x
      using Cons.prems(4) [of q x] that unfolding d by (auto split: if_splits)
  qed (use Cons.prems(2,3) in auto)
  then show ?case by (simp add: rm split_beta)
qed simp

lemma os_RemoveAll_succeeds:
  assumes "no_faults env"
  obtains s' where "os_RemoveAll env s p = (None, s')"
proof -
  have "fst (os_RemoveAll env s p) = None"
    unfolding os_RemoveAll_def
  proof (rule remove_each_succeeds [OF assms])
    show "distinct (below (disk s) p)" by (simp add: below_def)
    show "sorted_wrt (\<lambda>a b. length b \<le> length a) (below (disk s) p)"
      using sorted_sort_key [of length] by (simp add: below_def sorted_wrt_rev sorted_map)
    show "q @ [x] \<in> set (below (disk s) p)" if "q \<in> set (below (disk s) p)" "map_of (disk s) (q @ [x]) \<noteq> None" for q x
      using that by (simp add: set_below)
  qed (simp add: set_below)
  then show ?thesis by (metis prod.collapse that)
qed

section \<open>Writing the desired stores\<close>

text \<open>Nothing stands where a directory is needed, a certificate file is missing or a file, and there is
  a name for a temporary file that is not the name of a type.\<close>

definition stores_writable :: "os_env \<Rightarrow> path \<Rightarrow> string set \<Rightarrow> disk \<Rightarrow> bool" where
  "stores_writable env root names d \<longleftrightarrow> can_be_dir root d
     \<and> (\<forall>rel \<in> names. can_be_dir (filepath_Join root rel) d
          \<and> (map_of d (cert_path root rel) = None \<or> (\<exists>c m. map_of d (cert_path root rel) = Some (File c m))))
     \<and> (\<exists>k \<in> set (temp_numbers env). map_of d (temp_path root k) = None
          \<and> (\<forall>rel \<in> names. \<not> prefix (temp_path root k) (filepath_Join root rel)))"

text \<open>New directories do not get in the way.\<close>

lemma can_be_dir_grow:
  assumes "can_be_dir dir d" and "\<And>q. prefix q dir \<Longrightarrow> map_of d' q = map_of d q \<or> map_of d' q = Some Dir"
  shows "can_be_dir dir d'"
  unfolding can_be_dir_def
proof (intro allI impI)
  fix k assume "k \<le> length dir"
  with assms(1) have "map_of d (take k dir) = None \<or> map_of d (take k dir) = Some Dir" by (simp add: can_be_dir_def)
  with assms(2) [OF take_is_prefix, of k] show "map_of d' (take k dir) = None \<or> map_of d' (take k dir) = Some Dir" by auto
qed

lemma stores_writable_step:
  assumes free: "stores_writable env root names d" and sn: "store_name rel t n" and "rel \<in> names"
    and names: "\<And>k. k \<in> names \<Longrightarrow> \<exists>t n. store_name k t n"
    and cert: "\<exists>c m. map_of d' (root @ [t, n, trustStoreCertFile]) = Some (File c m)"
    and other: "\<And>q. q \<noteq> root @ [t, n, trustStoreCertFile] \<Longrightarrow> map_of d' q = map_of d q
       \<or> map_of d q = None \<and> map_of d' q = Some Dir \<and> prefix q (root @ [t, n])"
  shows "stores_writable env root names d'"
  unfolding stores_writable_def
proof (intro conjI ballI)
  note F = free [unfolded stores_writable_def]
  have dir: "can_be_dir dir d'" if "can_be_dir dir d" "length dir \<le> Suc (Suc (length root))" for dir
    using that(1)
  proof (rule can_be_dir_grow)
    fix q assume "prefix q dir"
    with that(2) have "q \<noteq> root @ [t, n, trustStoreCertFile]" by (auto dest: prefix_length_le)
    from other [OF this] show "map_of d' q = map_of d q \<or> map_of d' q = Some Dir" by blast
  qed
  show "can_be_dir root d'" using F by (intro dir) simp_all
  fix k assume k: "k \<in> names"
  obtain t' n' where sk: "store_name k t' n'" using names [OF k] by blast
  show "can_be_dir (filepath_Join root k) d'"
  proof (rule dir)
    show "can_be_dir (filepath_Join root k) d" using F k by blast
  qed (simp add: store_name_Join(1) [OF sk])
  show "map_of d' (cert_path root k) = None \<or> (\<exists>c m. map_of d' (cert_path root k) = Some (File c m))"
  proof (cases "cert_path root k = root @ [t, n, trustStoreCertFile]")
    case False
    have "\<not> prefix (cert_path root k) (root @ [t, n])"
      using prefix_length_le [of "cert_path root k" "root @ [t, n]"] by (auto simp: cert_path_name [OF sk])
    with other [OF False] F k show ?thesis by auto
  qed (use cert in simp)
next
  obtain k where k: "k \<in> set (temp_numbers env)" "map_of d (temp_path root k) = None"
      "\<forall>rel \<in> names. \<not> prefix (temp_path root k) (filepath_Join root rel)"
    using free unfolding stores_writable_def by blast
  have "temp_path root k \<noteq> root @ [t, n, trustStoreCertFile]" by (simp add: temp_path_def)
  from other [OF this] k bspec [OF k(3) assms(3)] store_name_Join(1) [OF sn, of root]
  have "map_of d' (temp_path root k) = None" by auto
  with k show "\<exists>k \<in> set (temp_numbers env). map_of d' (temp_path root k) = None
          \<and> (\<forall>rel \<in> names. \<not> prefix (temp_path root k) (filepath_Join root rel))" by blast
qed

lemma one_store_succeeds:
  assumes env: "no_faults env" and free: "stores_writable env root names (disk s)" and "rel \<in> names" and sn: "store_name rel t n"
  obtains s1 w s2 where "os_MkdirAll env s (root @ [t, n]) = (None, s1)"
    and "writeFileIfChanged env s1 (root @ [t, n, trustStoreCertFile]) root data = ((w, None), s2)"
proof -
  note F = free [unfolded stores_writable_def] and J = store_name_Join(1) [OF sn, of root] and cp = cert_path_name [OF sn, of root]
  have cb: "can_be_dir (root @ [t, n]) (disk s)" using F assms(3) by (simp flip: J)
  obtain s1 where mk: "os_MkdirAll env s (root @ [t, n]) = (None, s1)"
    using os_MkdirAll_succeeds [OF env cb] by blast
  note M = os_MkdirAll_ok [OF mk]
  have da: "dirs_above (root @ [t, n]) (disk s1)" using M(2) by simp
  then have root: "is_dir (disk s1) root" by (intro dirs_above_is_dir dirs_above_prefix [OF da]) simp
  have target: "map_of (disk s1) ((root @ [t, n]) @ [trustStoreCertFile]) = None
      \<or> (\<exists>c m. map_of (disk s1) ((root @ [t, n]) @ [trustStoreCertFile]) = Some (File c m))"
    using bspec [OF conjunct1 [OF conjunct2 [OF F]] assms(3)] M(1) [of "root @ [t, n, trustStoreCertFile]"] by (auto simp: cp)
  obtain k where k: "k \<in> set (temp_numbers env)" "map_of (disk s) (temp_path root k) = None"
      "\<not> prefix (temp_path root k) (root @ [t, n])"
    using F assms(3) J by metis
  then have tmp: "\<exists>k \<in> set (temp_numbers env). map_of (disk s1) (temp_path root k) = None"
    using M(1) [of "temp_path root k"] by auto
  have ne: "\<forall>k. (root @ [t, n]) @ [trustStoreCertFile] \<noteq> temp_path root k" by (simp add: temp_path_def)
  obtain w s2 where "writeFileIfChanged env s1 ((root @ [t, n]) @ [trustStoreCertFile]) root data = ((w, None), s2)"
    by (rule writeFileIfChanged_succeeds [OF env da can_be_dir_above [OF cb mk refl] root target ne tmp])
  then show ?thesis by (intro that [OF mk]) simp
qed

lemma writeStores_succeeds:
  assumes "no_faults env" and "\<And>k. k \<in> names \<Longrightarrow> \<exists>t n. store_name k t n"
  shows "fst ` set xs \<subseteq> names \<Longrightarrow> stores_writable env root names (disk s) \<Longrightarrow> tree_disk (disk s) \<Longrightarrow>
    \<exists>c' s'. writeStores env root xs c s = ((c', None), s') \<and> stores_writable env root names (disk s')"
proof (induction xs arbitrary: c s)
  case (Cons p xs)
  obtain rel data where p: "p = (rel, data)" by fastforce
  with Cons.prems(1) have rel: "rel \<in> names" by simp
  with assms(2) obtain t n where sn: "store_name rel t n" by blast
  obtain s1 w s2 where mk: "os_MkdirAll env s (root @ [t, n]) = (None, s1)"
    and wr: "writeFileIfChanged env s1 (root @ [t, n, trustStoreCertFile]) root data = ((w, None), s2)"
    by (rule one_store_succeeds [OF assms(1) Cons.prems(2) rel sn])
  have "map_of (disk s) (root @ [t, n, trustStoreCertFile]) \<noteq> Some (Symlink x)" for x
    using Cons.prems(2) rel unfolding stores_writable_def by (auto simp flip: cert_path_name [OF sn])
  note S = store_step [OF Cons.prems(3) mk wr this]
  have "stores_writable env root names (disk s2)"
    by (rule stores_writable_step [OF Cons.prems(2) sn rel assms(2)]) (use S(1,2) in auto)
  with Cons.IH [of s2 "c \<or> w"] Cons.prems(1) S(4) have "\<exists>c' s'. writeStores env root xs (c \<or> w) s2 = ((c', None), s')
      \<and> stores_writable env root names (disk s')" by simp
  with p mk wr show ?case by (simp add: store_name_Join [OF sn])
qed simp

section \<open>Removing the others\<close>

lemma removeStores_succeeds:
  assumes "no_faults env"
  shows "\<exists>c' s'. removeStores env root desired t es c s = ((c', None), s')"
proof (induction es arbitrary: c s)
  case (Cons p es)
  obtain n b where p: "p = (n, b)" by fastforce
  obtain s1 where "os_RemoveAll env s (filepath_Join root (rel_Join t n)) = (None, s1)"
    by (rule os_RemoveAll_succeeds [OF assms])
  with Cons p show ?case by (simp add: Let_def)
qed simp

lemma removeTypes_succeeds:
  assumes "no_faults env"
  shows "\<forall>t b. (t, b) \<in> set ts \<longrightarrow> plain_element t \<and> (b \<longrightarrow> map_of (disk s) (root @ [t]) = Some Dir) \<Longrightarrow> plain_disk (disk s) \<Longrightarrow>
    \<exists>c' s'. removeTypes env root desired ts c s = ((c', None), s')"
proof (induction ts arbitrary: c s)
  case (Cons p ts)
  obtain t b where p: "p = (t, b)" by fastforce
  show ?case
  proof (cases b)
    case False
    with Cons p show ?thesis by simp
  next
    case True
    with Cons.prems(1) p have pt: "plain_element t" and d: "map_of (disk s) (root @ [t]) = Some Dir" by auto
    obtain es where rd: "os_ReadDir env s (root @ [t]) = Inr es"
      using assms d by (simp add: os_ReadDir_def no_faults_def is_dir_def)
    obtain c1 s1 where rs: "removeStores env root desired t es c s = ((c1, None), s1)"
      using removeStores_succeeds [OF assms] by blast
    have "plain_element n" if "(n, b') \<in> set es" for n b'
      using that Cons.prems(2) unfolding os_ReadDir_entries [OF rd] plain_disk_def by force
    then have pn: "\<forall>n \<in> fst ` set es. plain_element n" by force
    note R = conjunct1 [OF removeStores_ok [OF rs pt pn]]
    have "map_of (disk s1) (root @ [u]) = map_of (disk s) (root @ [u])" for u
      using R [of "root @ [u]"] by (auto simp: stale_store_def)
    moreover have "plain_disk (disk s1)" using Cons.prems(2) unfolding plain_disk_def by (auto simp: R split: if_splits)
    ultimately have "\<exists>c' s'. removeTypes env root desired ts c1 s1 = ((c', None), s')"
      using Cons.IH [of s1 c1] Cons.prems(1) by simp
    with p True rd rs show ?thesis by (simp add: filepath_Join_plain [OF pt])
  qed
qed simp

section \<open>The sync as a whole\<close>

lemma syncTrustStores_succeeds:
  assumes env: "no_faults env" and ready: "stores_ready root desired (disk s)" and ord: "range_order ord"
    and free: "stores_writable env root (dom (map_of desired)) (disk s)"
  obtains c s' where "syncTrustStores env ord root desired s = ((c, None), s')"
proof -
  have wf: "wf_map desired" and tree: "tree_disk (disk s)" using ready by (simp_all add: stores_ready_def)
  have names: "\<exists>t n. store_name k t n" if "k \<in> dom (map_of desired)" for k
    using ready that by (auto simp: stores_ready_def store_names_def)
  have cb: "can_be_dir root (disk s)" using free by (simp add: stores_writable_def)
  obtain s1 where mk: "os_MkdirAll env s root = (None, s1)" by (rule os_MkdirAll_succeeds [OF env cb])
  note M = os_MkdirAll_ok [OF mk]
  have "stores_writable env root (dom (map_of desired)) (disk s1)"
    unfolding stores_writable_def
  proof (intro conjI ballI)
    show "can_be_dir root (disk s1)" by (rule can_be_dir_above [OF cb mk refl])
    fix k assume k: "k \<in> dom (map_of desired)"
    then obtain t n where sn: "store_name k t n" using names by blast
    note F = bspec [OF conjunct1 [OF conjunct2 [OF free [unfolded stores_writable_def]]] k]
    show "can_be_dir (filepath_Join root k) (disk s1)"
      using conjunct1 [OF F] by (rule can_be_dir_grow) (use M(1) in blast)
    show "map_of (disk s1) (cert_path root k) = None \<or> (\<exists>c m. map_of (disk s1) (cert_path root k) = Some (File c m))"
      using conjunct2 [OF F] M(1) [of "cert_path root k"] by (auto simp: cert_path_name [OF sn])
  next
    have "map_of (disk s1) (temp_path root k) = map_of (disk s) (temp_path root k)" for k
      using M(1) [of "temp_path root k"] by (auto simp: temp_path_def)
    then show "\<exists>k \<in> set (temp_numbers env). map_of (disk s1) (temp_path root k) = None
          \<and> (\<forall>rel \<in> dom (map_of desired). \<not> prefix (temp_path root k) (filepath_Join root rel))"
      using free by (simp add: stores_writable_def)
  qed
  moreover have "fst ` set (range_map ord AtDesired desired) \<subseteq> dom (map_of desired)"
    by (simp add: set_range_map [OF ord wf] dom_map_of_conv_image_fst)
  ultimately obtain c2 s2 where wr: "writeStores env root (range_map ord AtDesired desired) False s1 = ((c2, None), s2)"
    and free2: "stores_writable env root (dom (map_of desired)) (disk s2)"
    using writeStores_succeeds [where names = "dom (map_of desired)", OF env names _ _ tree_disk_MkdirAll [OF tree mk]] by blast
  note A = stores_after_writes [OF ready ord mk wr]
  have "dirs_above root (disk s2)"
    using M(2) [OF refl]
  proof (rule dirs_above_keep)
    fix q assume q: "length q \<le> length root" "map_of (disk s1) q = Some Dir"
    have "q \<notin> cert_path root ` dom (map_of desired)"
    proof
      assume "q \<in> cert_path root ` dom (map_of desired)"
      then obtain k t n where "q = cert_path root k" "store_name k t n" using names by blast
      with q(1) show False by (simp add: cert_path_name)
    qed
    from A(2) [OF this] q(2) show "map_of (disk s2) q = Some Dir" by auto
  qed
  then obtain es where rd: "os_ReadDir env s2 root = Inr es"
    using env dirs_above_is_dir [of root "disk s2"] by (simp add: os_ReadDir_def no_faults_def)
  have "\<forall>t b. (t, b) \<in> set es \<longrightarrow> plain_element t \<and> (b \<longrightarrow> map_of (disk s2) (root @ [t]) = Some Dir)"
    using A(4) by (force simp: os_ReadDir_entries [OF rd] plain_disk_def)
  from removeTypes_succeeds [OF env this A(4), of desired c2] obtain c s' where
    "removeTypes env root desired es c2 s2 = ((c, None), s')" by blast
  then have "syncTrustStores env ord root desired s = ((c, None), s')"
    by (simp add: syncTrustStores_def mk wr rd)
  then show ?thesis by (rule that)
qed

text \<open>A removed tree leaves no entry without its parents.\<close>

lemma syncTrustStores_ready:
  assumes run: "syncTrustStores env ord root desired s = ((c, None), s')"
    and ready: "stores_ready root desired (disk s)" and ord: "range_order ord"
  shows "stores_ready root desired (disk s')"
proof -
  from run obtain s1 c2 s2 es where mk: "os_MkdirAll env s root = (None, s1)"
    and wr: "writeStores env root (range_map ord AtDesired desired) False s1 = ((c2, None), s2)"
    and rd: "os_ReadDir env s2 root = Inr es" and rm: "removeTypes env root desired es c2 s2 = ((c, None), s')"
    by (rule syncTrustStores_stages)
  note A = stores_after_writes [OF ready ord mk wr]
  have "\<forall>t \<in> fst ` set es. plain_element t"
    using A(4) by (force simp: os_ReadDir_entries [OF rd] plain_disk_def)
  note R = conjunct1 [OF removeTypes_ok [OF rm this A(4)]]
  define gone where "gone q \<longleftrightarrow> (\<exists>t n. (t, True) \<in> set es \<and> map_of (disk s2) (root @ [t, n]) \<noteq> None
      \<and> stale_store root desired t n q)" for q
  have s': "map_of (disk s') q = (if gone q then None else map_of (disk s2) q)" for q
    unfolding gone_def by (rule R)
  have up: "gone p" if "gone q" "prefix q p" for q p
  proof -
    from that(1) obtain t n where g: "(t, True) \<in> set es" "map_of (disk s2) (root @ [t, n]) \<noteq> None" "stale_store root desired t n q"
      unfolding gone_def by blast
    from g(3) that(2) have "stale_store root desired t n p" unfolding stale_store_def by (meson prefix_order.trans)
    with g(1,2) show ?thesis unfolding gone_def by blast
  qed
  have "tree_disk (disk s')"
    unfolding tree_disk_def
  proof (intro allI impI)
    fix p assume p: "map_of (disk s') p \<noteq> None"
    then have live: "\<not> gone p" and "map_of (disk s2) p \<noteq> None" by (auto simp: s' split: if_splits)
    with A(3) have d: "dirs_above (butlast p) (disk s2)" by (simp add: tree_disk_def)
    have "\<not> gone (take k (butlast p))" for k
      using up [of "take k (butlast p)" p] live take_is_prefix [of k "butlast p"] prefixeq_butlast [of p] by (meson prefix_order.trans)
    with d show "dirs_above (butlast p) (disk s')" by (simp add: dirs_above_def is_dir_def s')
  qed
  moreover have "plain_disk (disk s')" using A(4) unfolding plain_disk_def by (auto simp: s' split: if_splits)
  moreover have "store_names root (dom (map_of desired)) (disk s')"
    unfolding store_names_def
  proof (intro ballI conjI allI)
    fix rel assume rel: "rel \<in> dom (map_of desired)"
    then show "\<exists>t n. store_name rel t n" using ready by (auto simp: stores_ready_def store_names_def)
    fix x
    from rel obtain y where "map_of desired rel = Some y" by auto
    then obtain m where "map_of (disk s') (cert_path root rel) = Some (File y m)"
      using syncTrustStores_ok(1) [OF assms] unfolding stores_match_def by metis
    then show "map_of (disk s') (cert_path root rel) \<noteq> Some (Symlink x)" by simp
  qed
  ultimately show ?thesis using ready by (simp add: stores_ready_def)
qed

section \<open>Properties\<close>

text \<open>
  C19. The sync of the trust stores converges: without system call failures, and with nothing in the
  way of its directories and files, it returns no error, whatever stale stores it has to remove;
  the tree then holds the desired certificates and nothing of other stores, and a further sync,
  in any iteration order, reports no change and leaves the disk alone, so it triggers no reload.
\<close>

theorem syncTrustStores_converges:
  assumes "no_faults env" and "stores_ready root desired (disk s)" and "range_order ord"
    and "stores_writable env root (dom (map_of desired)) (disk s)"
  shows "\<exists>changed s'. syncTrustStores env ord root desired s = ((changed, None), s')
    \<and> stores_match root desired (disk s')
    \<and> (\<forall>env' ord'. no_faults env' \<longrightarrow> range_order ord' \<longrightarrow>
         syncTrustStores env' ord' root desired s' = ((False, None), s'))"
proof -
  obtain c s' where run: "syncTrustStores env ord root desired s = ((c, None), s')"
    by (rule syncTrustStores_succeeds [OF assms])
  note match = syncTrustStores_ok(1) [OF run assms(2,3)] and ready = syncTrustStores_ready [OF run assms(2,3)]
  have "syncTrustStores env' ord' root desired s' = ((False, None), s')" if "no_faults env'" "range_order ord'" for env' ord'
    by (rule syncTrustStores_still [OF match that ready])
  with run match show ?thesis by blast
qed

lemma demo_stores_writable: "stores_writable calm [''r''] (dom (map_of demo_bundles)) (disk demo_stores)"
proof -
  have sn: "store_name ''ca/aws'' ''ca'' ''aws''" by (simp add: store_name_def plain_element_def)
  have "prefix (temp_path [''r''] 7) [''r'', ''ca'', ''aws''] \<longleftrightarrow> False"
    by (simp add: temp_path_def uitoa_7)
  then show ?thesis
    by (auto simp: stores_writable_def demo_bundles_def demo_stores_def calm_def can_be_dir_def le_Suc_eq
        cert_path_name [OF sn] store_name_Join [OF sn] trustStoreCertFile_def temp_path_def uitoa_7)
qed

theorem syncTrustStores_converges_witness:
  "\<exists>c s'. syncTrustStores calm in_order [''r''] demo_bundles demo_stores = ((c, None), s')
     \<and> syncTrustStores calm in_order [''r''] demo_bundles s' = ((False, None), s')"
  using syncTrustStores_converges [OF no_faults_calm demo_stores_ready range_order_in_order demo_stores_writable]
    no_faults_calm range_order_in_order by blast

end
