(* ===== verification/Document.thy ===== *)
theory Document
  imports Policies
begin

text \<open>
  What a trust policy file says. Notation reads the files that the controller writes; here is a
  reader for JSON texts, independent of the writer in \<open>Json\<close> and \<open>Policies\<close> (white space anywhere between
  tokens, fields in any order), and the proof that it finds in a file the policy the file was written for.
\<close>

section \<open>A reader for JSON texts\<close>

definition blank :: "char \<Rightarrow> bool" where
  "blank c \<longleftrightarrow> c \<in> {CHR '' '', CHR 0x09, CHR 0x0A, CHR 0x0D}"

definition skip :: "string \<Rightarrow> string" where
  "skip s = dropWhile blank s"

text \<open>A value, the rest of an array, the rest of an object; the first argument bounds the nesting and
  the number of elements.\<close>

fun read_value :: "nat \<Rightarrow> string \<Rightarrow> (json \<times> string) option"
  and read_items :: "nat \<Rightarrow> string \<Rightarrow> (json list \<times> string) option"
  and read_fields :: "nat \<Rightarrow> string \<Rightarrow> ((string \<times> json) list \<times> string) option" where
  "read_value 0 s = None"
| "read_value (Suc f) s =
     (case skip s of
        [] \<Rightarrow> None
      | c # r \<Rightarrow>
          if c = CHR 0x22 then map_option (map_prod JStr id) (json_unquote r)
          else if c = CHR ''n'' then (if take 3 r = ''ull'' then Some (JNull, drop 3 r) else None)
          else if c = CHR ''['' then
            (if take 1 (skip r) = '']'' then Some (JArr [], drop 1 (skip r)) else map_option (map_prod JArr id) (read_items f r))
          else if c = CHR ''{'' then
            (if take 1 (skip r) = ''}'' then Some (JObj [], drop 1 (skip r)) else map_option (map_prod JObj id) (read_fields f r))
          else None)"
| "read_items 0 s = None"
| "read_items (Suc f) s =
     (case read_value f s of
        None \<Rightarrow> None
      | Some (v, r) \<Rightarrow>
          (case skip r of
             [] \<Rightarrow> None
           | c # r1 \<Rightarrow>
               if c = CHR '']'' then Some ([v], r1)
               else if c = CHR '','' then map_option (map_prod (\<lambda>vs. v # vs) id) (read_items f r1)
               else None))"
| "read_fields 0 s = None"
| "read_fields (Suc f) s =
     (case skip s of
        [] \<Rightarrow> None
      | q # r \<Rightarrow>
          if q \<noteq> CHR 0x22 then None
          else (case json_unquote r of
                  None \<Rightarrow> None
                | Some (k, r1) \<Rightarrow>
                    (case skip r1 of
                       [] \<Rightarrow> None
                     | c # r2 \<Rightarrow>
                         if c \<noteq> CHR '':'' then None
                         else (case read_value f r2 of
                                 None \<Rightarrow> None
                               | Some (v, r3) \<Rightarrow>
                                   (case skip r3 of
                                      [] \<Rightarrow> None
                                    | e # r4 \<Rightarrow>
                                        if e = CHR ''}'' then Some ([(k, v)], r4)
                                        else if e = CHR '','' then map_option (map_prod (\<lambda>fs. (k, v) # fs) id) (read_fields f r4)
                                        else None)))))"

definition read_json :: "string \<Rightarrow> json option" where
  "read_json s = (case read_value (length s) s of Some (v, r) \<Rightarrow> if skip r = [] then Some v else None | None \<Rightarrow> None)"

section \<open>It reads what the writer writes\<close>

fun text_ok :: "json \<Rightarrow> bool" where
  "text_ok JNull = True"
| "text_ok (JStr s) = valid_utf8 s"
| "text_ok (JArr vs) = list_all text_ok vs"
| "text_ok (JObj fs) = list_all (\<lambda>(k, v). valid_utf8 k \<and> text_ok v) fs"

fun need :: "json \<Rightarrow> nat" where
  "need JNull = 1"
| "need (JStr s) = 1"
| "need (JArr vs) = Suc (sum_list (map (\<lambda>v. Suc (need v)) vs))"
| "need (JObj fs) = Suc (sum_list (map (\<lambda>(k, v). Suc (need v)) fs))"

lemma skip_blanks [simp]: "list_all blank w \<Longrightarrow> skip (w @ s) = skip s"
  by (induction w) (simp_all add: skip_def)

lemma skip_nonblank [simp]: "\<not> blank c \<Longrightarrow> skip (c # s) = c # s"
  by (simp add: skip_def)

lemma blank_newline [simp]: "list_all blank p \<Longrightarrow> list_all blank i \<Longrightarrow> list_all blank (newline p i d)"
  by (induction d) (auto simp: newline_def blank_def list_all_iff)

lemma not_blank [simp]: "\<not> blank (CHR 0x22)" "\<not> blank (CHR ''n'')" "\<not> blank (CHR ''['')" "\<not> blank (CHR '']'')"
    "\<not> blank (CHR ''{'')" "\<not> blank (CHR ''}'')" "\<not> blank (CHR '','')" "\<not> blank (CHR '':'')"
  by (simp_all add: blank_def)

lemma sep_by_Cons: "xs \<noteq> [] \<Longrightarrow> sep_by sep (x # xs) = x @ sep @ sep_by sep xs"
  by (cases xs) simp_all

lemma unquote_quote: "valid_utf8 s \<Longrightarrow> json_quote s @ rest = CHR 0x22 # json_body s @ CHR 0x22 # rest
    \<and> json_unquote (json_body s @ CHR 0x22 # rest) = Some (s, rest)"
  by (simp add: json_quote_def json_literal_roundtrip)

lemma pretty_head: "\<exists>c t. pretty p i d v = c # t \<and> c \<in> {CHR ''n'', CHR 0x22, CHR ''['', CHR ''{''}"
  by (cases v) (simp_all add: json_quote_def)

lemma pretty_not_closing:
  assumes "list_all blank w"
  shows "take 1 (skip (w @ pretty p i d v @ rest)) \<noteq> '']''"
proof -
  obtain c t where "pretty p i d v = c # t" and "c \<in> {CHR ''n'', CHR 0x22, CHR ''['', CHR ''{''}" using pretty_head by blast
  then show ?thesis using assms by auto
qed

text \<open>Between the elements of an array or the fields of an object stands a comma and a new line.\<close>

lemma sep_by_rest:
  "sep_by ('','' @ nl) (map g (x # xs)) @ rest =
     g x @ (if xs = [] then rest else CHR '','' # nl @ sep_by ('','' @ nl) (map g xs) @ rest)"
  by (cases xs) simp_all

definition reads :: "string \<Rightarrow> string \<Rightarrow> json \<Rightarrow> bool" where
  "reads p i v \<longleftrightarrow> (\<forall>f d w rest. list_all blank w \<longrightarrow> need v \<le> f \<longrightarrow> read_value f (w @ pretty p i d v @ rest) = Some (v, rest))"

lemma read_items_ok:
  assumes "list_all blank p" and "list_all blank i" and "vs \<noteq> []" and "\<forall>v \<in> set vs. reads p i v"
    and "sum_list (map (\<lambda>v. Suc (need v)) vs) \<le> f" and "list_all blank w"
  shows "read_items f (w @ sep_by ('','' @ newline p i d) (map (pretty p i d) vs) @ newline p i d' @ '']'' @ rest) = Some (vs, rest)"
  using assms(3-6)
proof (induction vs arbitrary: f w)
  case (Cons v vs)
  then obtain g where f: "f = Suc g" by (cases f) simp_all
  have v: "read_value g (w @ pretty p i d v @ r) = Some (v, r)" for r
    using Cons.prems f by (simp add: reads_def)
  show ?case
  proof (cases "vs = []")
    case True
    then show ?thesis using assms(1,2) by (simp only: sep_by_rest f) (simp add: v)
  next
    case False
    have "read_items g (newline p i d @ sep_by ('','' @ newline p i d) (map (pretty p i d) vs) @ newline p i d' @ '']'' @ rest) = Some (vs, rest)"
      by (rule Cons.IH) (use Cons.prems f False assms(1,2) in auto)
    with False show ?thesis by (simp only: sep_by_rest f) (simp add: v)
  qed
qed simp

lemma read_fields_ok:
  assumes "list_all blank p" and "list_all blank i" and "fs \<noteq> []" and "\<forall>(k, v) \<in> set fs. valid_utf8 k \<and> reads p i v"
    and "sum_list (map (\<lambda>(k, v). Suc (need v)) fs) \<le> f" and "list_all blank w"
  shows "read_fields f (w @ sep_by ('','' @ newline p i d) (map (\<lambda>(k, v). json_quote k @ '': '' @ pretty p i d v) fs)
      @ newline p i d' @ ''}'' @ rest) = Some (fs, rest)"
  using assms(3-6)
proof (induction fs arbitrary: f w)
  case (Cons x fs)
  obtain k v where x: "x = (k, v)" by fastforce
  with Cons.prems obtain g where f: "f = Suc g" by (cases f) simp_all
  have "reads p i v" and "need v \<le> g" using Cons.prems(2,3) f x by auto
  moreover have "list_all blank '' ''" by (simp add: blank_def)
  ultimately have "read_value g ('' '' @ pretty p i d v @ r) = Some (v, r)" for r unfolding reads_def by blast
  then have v: "read_value g (CHR '' '' # pretty p i d v @ r) = Some (v, r)" for r by simp
  have k: "json_unquote (json_body k @ CHR 0x22 # r) = Some (k, r)" for r
    using Cons.prems(2) x by (simp add: json_literal_roundtrip)
  show ?case
  proof (cases "fs = []")
    case True
    then show ?thesis using assms(1,2) Cons.prems(4) by (simp only: sep_by_rest f x) (simp add: json_quote_def k v)
  next
    case False
    have "read_fields g (newline p i d @ sep_by ('','' @ newline p i d) (map (\<lambda>(k, v). json_quote k @ '': '' @ pretty p i d v) fs)
        @ newline p i d' @ ''}'' @ rest) = Some (fs, rest)"
      by (rule Cons.IH) (use Cons.prems f x False assms(1,2) in auto)
    with False Cons.prems(4) show ?thesis by (simp only: sep_by_rest f x) (simp add: json_quote_def k v)
  qed
qed simp

lemma read_pretty:
  assumes "list_all blank p" and "list_all blank i"
  shows "text_ok v \<Longrightarrow> reads p i v"
proof (induction v)
  case JNull
  show ?case by (auto simp: reads_def Suc_le_eq gr0_conv_Suc)
next
  case (JStr s)
  then show ?case by (auto simp: reads_def json_quote_def json_literal_roundtrip Suc_le_eq gr0_conv_Suc)
next
  case (JArr vs)
  then have IH: "\<forall>v \<in> set vs. reads p i v" by (simp add: list_all_iff)
  show ?case
    unfolding reads_def
  proof (intro allI impI)
    fix f d w rest assume w: "list_all blank w" and f: "need (JArr vs) \<le> f"
    then obtain g where g: "f = Suc g" "sum_list (map (\<lambda>v. Suc (need v)) vs) \<le> g" by (cases f) simp_all
    show "read_value f (w @ pretty p i d (JArr vs) @ rest) = Some (JArr vs, rest)"
    proof (cases vs)
      case Nil
      then show ?thesis using w g by simp
    next
      case (Cons v vs')
      have "read_items g (newline p i (Suc d) @ sep_by ('','' @ newline p i (Suc d)) (map (pretty p i (Suc d)) vs)
          @ newline p i d @ '']'' @ rest) = Some (vs, rest)"
        by (rule read_items_ok [OF assms _ IH g(2)]) (use Cons assms in simp_all)
      moreover have "take 1 (skip (newline p i (Suc d) @ sep_by ('','' @ newline p i (Suc d)) (map (pretty p i (Suc d)) vs)
          @ newline p i d @ '']'' @ rest)) \<noteq> '']''"
        unfolding Cons sep_by_rest by (rule pretty_not_closing) (use assms in simp)
      ultimately show ?thesis using w g Cons by simp
    qed
  qed
next
  case (JObj fs)
  have IH: "\<forall>(k, v) \<in> set fs. valid_utf8 k \<and> reads p i v"
    using JObj by (force simp: list_all_iff)
  show ?case
    unfolding reads_def
  proof (intro allI impI)
    fix f d w rest assume w: "list_all blank w" and f: "need (JObj fs) \<le> f"
    then obtain g where g: "f = Suc g" "sum_list (map (\<lambda>(k, v). Suc (need v)) fs) \<le> g" by (cases f) simp_all
    show "read_value f (w @ pretty p i d (JObj fs) @ rest) = Some (JObj fs, rest)"
    proof (cases fs)
      case Nil
      then show ?thesis using w g by simp
    next
      case (Cons x fs')
      have "read_fields g (newline p i (Suc d) @ sep_by ('','' @ newline p i (Suc d))
          (map (\<lambda>(k, v). json_quote k @ '': '' @ pretty p i (Suc d) v) fs) @ newline p i d @ ''}'' @ rest) = Some (fs, rest)"
        by (rule read_fields_ok [OF assms _ IH g(2)]) (use Cons assms in simp_all)
      moreover have "take 1 (skip (newline p i (Suc d) @ sep_by ('','' @ newline p i (Suc d))
          (map (\<lambda>(k, v). json_quote k @ '': '' @ pretty p i (Suc d) v) fs) @ newline p i d @ ''}'' @ rest)) \<noteq> ''}''"
        unfolding Cons sep_by_rest using assms by (simp add: json_quote_def split: prod.splits)
      ultimately show ?thesis using w g Cons by simp
    qed
  qed
qed

lemma sep_by_long:
  "xs \<noteq> [] \<Longrightarrow> sep \<noteq> [] \<Longrightarrow> sum_list (map (\<lambda>x. Suc (length x)) xs) \<le> Suc (length (sep_by sep xs))"
proof (induction sep xs rule: sep_by.induct)
  case (3 sep x y xs)
  then show ?case by (cases sep) simp_all
qed simp_all

text \<open>The length of the text is enough fuel.\<close>

lemma need_length: "need v \<le> length (pretty p i d v)"
proof (induction v arbitrary: d)
  case (JArr vs)
  show ?case
  proof (cases "vs = []")
    case False
    have "sum_list (map (\<lambda>v. Suc (need v)) vs) \<le> sum_list (map (\<lambda>v. Suc (length (pretty p i (Suc d) v))) vs)"
      using JArr by (intro sum_list_mono) simp
    also have "\<dots> \<le> Suc (length (sep_by ('','' @ newline p i (Suc d)) (map (pretty p i (Suc d)) vs)))"
      using sep_by_long [of "map (pretty p i (Suc d)) vs" "'','' @ newline p i (Suc d)"] False by (simp add: comp_def)
    finally show ?thesis using False by (simp add: newline_def)
  qed simp
next
  case (JObj fs)
  let ?g = "\<lambda>(k, v). json_quote k @ '': '' @ pretty p i (Suc d) v"
  show ?case
  proof (cases "fs = []")
    case False
    have "need v \<le> length (?g (k, v))" if "(k, v) \<in> set fs" for k v
      using JObj [of "(k, v)" v "Suc d"] that by simp
    then have "sum_list (map (\<lambda>(k, v). Suc (need v)) fs) \<le> sum_list (map (\<lambda>x. Suc (length (?g x))) fs)"
      by (intro sum_list_mono) auto
    also have "\<dots> \<le> Suc (length (sep_by ('','' @ newline p i (Suc d)) (map ?g fs)))"
      using sep_by_long [of "map ?g fs" "'','' @ newline p i (Suc d)"] False by (simp add: comp_def)
    finally show ?thesis using False by (simp add: newline_def)
  qed simp
qed (simp_all add: json_quote_def)

lemma read_json_MarshalIndent:
  assumes "list_all blank p" and "list_all blank i" and "text_ok v"
  shows "read_json (MarshalIndent v p i) = Some v"
proof -
  have "read_value (length (pretty p i 0 v)) ([] @ pretty p i 0 v @ []) = Some (v, [])"
    using read_pretty [OF assms] need_length [of v p i 0] unfolding reads_def by (simp del: append_Nil append_Nil2)
  then show ?thesis by (simp add: read_json_def MarshalIndent_def skip_def)
qed

section \<open>The policy in a file\<close>

fun read_str :: "json \<Rightarrow> string option" where
  "read_str (JStr s) = Some s" | "read_str v = None"

fun read_strs :: "json \<Rightarrow> string list option" where
  "read_strs (JArr vs) = those (map read_str vs)" | "read_strs v = None"

text \<open>A list that may be missing.\<close>

definition read_optional :: "json option \<Rightarrow> string list option" where
  "read_optional v = (case v of None \<Rightarrow> Some [] | Some x \<Rightarrow> read_strs x)"

text \<open>A list that may be null.\<close>

fun read_nullable :: "(json \<Rightarrow> 'a option) \<Rightarrow> json \<Rightarrow> 'a list option option" where
  "read_nullable g JNull = Some None"
| "read_nullable g (JArr vs) = map_option Some (those (map g vs))"
| "read_nullable g v = None"

fun read_map :: "json \<Rightarrow> string gomap option" where
  "read_map (JObj fs) = those (map (\<lambda>(k, v). map_option (Pair k) (read_str v)) fs)"
| "read_map v = None"

fun read_sig :: "json \<Rightarrow> SignatureVerification option" where
  "read_sig (JObj fs) =
     Option.bind (Option.bind (map_of fs ''level'') read_str) (\<lambda>level.
       map_option (\<lambda>m. \<lparr> VerificationLevel = level, Override = m \<rparr>)
         (case map_of fs ''override'' of None \<Rightarrow> Some [] | Some v \<Rightarrow> read_map v))"
| "read_sig v = None"

fun read_statement :: "json \<Rightarrow> TrustPolicyStatement option" where
  "read_statement (JObj fs) =
     Option.bind (Option.bind (map_of fs ''name'') read_str) (\<lambda>name.
     Option.bind (Option.bind (map_of fs ''registryScopes'') (read_nullable read_str)) (\<lambda>scopes.
     Option.bind (Option.bind (map_of fs ''signatureVerification'') read_sig) (\<lambda>sv.
     Option.bind (read_optional (map_of fs ''trustStores'')) (\<lambda>stores.
     Option.bind (read_optional (map_of fs ''trustedIdentities'')) (\<lambda>ids.
       Some \<lparr> st_Name = name, RegistryScopes = scopes, st_SignatureVerification = sv, TrustStores = stores,
              TrustedIdentities = ids \<rparr>)))))"
| "read_statement v = None"

fun read_document :: "json \<Rightarrow> TrustDocument option" where
  "read_document (JObj fs) =
     Option.bind (Option.bind (map_of fs ''version'') read_str) (\<lambda>version.
     Option.bind (Option.bind (map_of fs ''trustPolicyName'') read_str) (\<lambda>name.
     Option.bind (Option.bind (map_of fs ''trustPolicies'') (read_nullable read_statement)) (\<lambda>sts.
       Some \<lparr> Version = version, TrustPolicyName = name, TrustPolicies = sts \<rparr>)))"
| "read_document v = None"

definition read_policy :: "string \<Rightarrow> TrustDocument option" where
  "read_policy text = Option.bind (read_json text) read_document"

section \<open>The same policy\<close>

text \<open>Overrides are a map: the order of the keys does not matter.\<close>

definition same_statement :: "TrustPolicyStatement \<Rightarrow> TrustPolicyStatement \<Rightarrow> bool" where
  "same_statement a b \<longleftrightarrow>
     st_Name a = st_Name b \<and> RegistryScopes a = RegistryScopes b \<and> TrustStores a = TrustStores b
     \<and> TrustedIdentities a = TrustedIdentities b
     \<and> VerificationLevel (st_SignatureVerification a) = VerificationLevel (st_SignatureVerification b)
     \<and> map_of (Override (st_SignatureVerification a)) = map_of (Override (st_SignatureVerification b))"

definition same_document :: "TrustDocument \<Rightarrow> TrustDocument \<Rightarrow> bool" where
  "same_document a b \<longleftrightarrow> Version a = Version b \<and> TrustPolicyName a = TrustPolicyName b
     \<and> rel_option (list_all2 same_statement) (TrustPolicies a) (TrustPolicies b)"

text \<open>All strings are valid UTF-8, as in every object that the API server decoded.\<close>

definition statement_text_ok :: "TrustPolicyStatement \<Rightarrow> bool" where
  "statement_text_ok st \<longleftrightarrow> valid_utf8 (st_Name st) \<and> (\<forall>ss. RegistryScopes st = Some ss \<longrightarrow> list_all valid_utf8 ss)
     \<and> valid_utf8 (VerificationLevel (st_SignatureVerification st))
     \<and> list_all (\<lambda>(k, v). valid_utf8 k \<and> valid_utf8 v) (Override (st_SignatureVerification st))
     \<and> list_all valid_utf8 (TrustStores st) \<and> list_all valid_utf8 (TrustedIdentities st)"

definition document_text_ok :: "TrustDocument \<Rightarrow> bool" where
  "document_text_ok d \<longleftrightarrow> valid_utf8 (Version d) \<and> valid_utf8 (TrustPolicyName d)
     \<and> (\<forall>sts. TrustPolicies d = Some sts \<longrightarrow> list_all statement_text_ok sts)"

lemma those_Some [simp]: "those (map (\<lambda>x. Some (f x)) xs) = Some (map f xs)"
  by (induction xs) simp_all

lemma read_strings [simp]: "read_strs (json_strings ss) = Some ss" "read_nullable read_str (json_strings ss) = Some (Some ss)"
  by (simp_all add: json_strings_def comp_def)

lemma text_ok_strings [simp]: "text_ok (json_strings ss) = list_all valid_utf8 ss"
  by (simp add: json_strings_def list_all_iff)

definition sorted_map :: "string gomap \<Rightarrow> string gomap" where
  "sorted_map m = map (\<lambda>k. (k, the (map_of m k))) (sort (map fst m))"

lemma map_of_sorted:
  shows "map_of (sorted_map m) = map_of m"
  unfolding sorted_map_def
proof
  fix k
  show "map_of (map (\<lambda>k. (k, the (map_of m k))) (sort (map fst m))) k = map_of m k"
  proof (cases "map_of m k")
    case None
    then have "k \<notin> fst ` set m" by (simp add: map_of_eq_None_iff)
    with None show ?thesis by (simp add: map_of_map_restrict)
  next
    case (Some x)
    then have "k \<in> fst ` set m" by (metis map_of_eq_None_iff option.distinct(1))
    with Some show ?thesis by (simp add: map_of_map_restrict)
  qed
qed

lemma read_sig_json:
  "read_sig (sig_json v) = Some \<lparr> VerificationLevel = VerificationLevel v, Override = sorted_map (Override v) \<rparr>"
  by (simp add: sig_json_def comp_def sorted_map_def)

lemma text_ok_sig:
  assumes "valid_utf8 (VerificationLevel v)" and "list_all (\<lambda>(k, x). valid_utf8 k \<and> valid_utf8 x) (Override v)"
  shows "text_ok (sig_json v)"
proof -
  have "valid_utf8 k \<and> valid_utf8 (the (map_of (Override v) k))" if k: "k \<in> set (map fst (Override v))" for k
  proof -
    obtain x where "map_of (Override v) k = Some x"
      using k by (cases "map_of (Override v) k") (simp_all add: map_of_eq_None_iff)
    with map_of_SomeD [OF this] assms(2) show ?thesis by (auto simp: list_all_iff)
  qed
  then show ?thesis using assms(1) by (simp add: sig_json_def list_all_iff)
qed

lemma read_statement_json:
  "\<exists>st'. read_statement (statement_json st) = Some st' \<and> same_statement st st'"
  by (auto simp: statement_json_def read_sig_json read_optional_def same_statement_def map_of_sorted split: option.splits)

lemma text_ok_statement: "statement_text_ok st \<Longrightarrow> text_ok (statement_json st)"
  by (auto simp: statement_json_def statement_text_ok_def text_ok_sig split: option.splits)

lemma read_statements_json:
  "\<exists>sts'. those (map (\<lambda>st. read_statement (statement_json st)) sts) = Some sts' \<and> list_all2 same_statement sts sts'"
proof (induction sts)
  case (Cons st sts)
  then show ?case using read_statement_json [of st] by auto
qed simp

lemma read_document_json: "\<exists>d'. read_document (document_json d) = Some d' \<and> same_document d d'"
proof (cases "TrustPolicies d")
  case None
  then show ?thesis by (simp add: document_json_def same_document_def)
next
  case (Some sts)
  with read_statements_json [of sts] show ?thesis by (auto simp: document_json_def same_document_def comp_def)
qed

lemma text_ok_document: "document_text_ok d \<Longrightarrow> text_ok (document_json d)"
  by (auto simp: document_json_def document_text_ok_def list_all_iff text_ok_statement split: option.splits)

text \<open>
  A trust policy file says what the resource says: for every trust policy whose strings are valid
  UTF-8, whatever quotes, control or HTML characters and nil or empty lists it has, reading the
  written text as JSON gives a policy with the same version, name, statements, scopes, stores and
  identities and the same overrides.
\<close>

lemma policy_file_reads:
  assumes "document_text_ok d" and "policy_file d = Inr text"
  shows "\<exists>d'. read_policy text = Some d' \<and> same_document d d'"
proof -
  have "list_all blank ''  ''" "list_all blank '' ''" by (simp_all add: blank_def)
  from read_json_MarshalIndent [OF this text_ok_document [OF assms(1)]] assms(2)
  have "read_json text = Some (document_json d)" by (auto simp: policy_file_def)
  with read_document_json [of d] show ?thesis by (simp add: read_policy_def)
qed

definition demo_document :: TrustDocument where
  "demo_document = \<lparr> Version = ''1.0'', TrustPolicyName = ''tp'', TrustPolicies = Some
     [\<lparr> st_Name = ''a'' @ [CHR 0x22] @ ''<b>'', RegistryScopes = Some [''*''],
        st_SignatureVerification = \<lparr> VerificationLevel = ''strict'', Override = [(''revocation'', ''skip''), (''expiry'', ''log'')] \<rparr>,
        TrustStores = [], TrustedIdentities = [''x509.subject: C=US''] \<rparr>] \<rparr>"

lemma demo_document_reads:
  "\<exists>text d'. policy_file demo_document = Inr text \<and> read_policy text = Some d' \<and> same_document demo_document d'"
proof -
  have "document_text_ok demo_document"
    by (simp add: document_text_ok_def demo_document_def statement_text_ok_def)
  from policy_file_reads [OF this] show ?thesis by (simp add: policy_file_def)
qed

end
