(* ===== verification/Leader.thy ===== *)
theory Leader
  imports Server
begin

text \<open>
  The certificate controller (\<^verbatim>\<open>controller.go\<close>, the leader election callback in \<^verbatim>\<open>run\<close> of \<^verbatim>\<open>main.go\<close>) and the
  informers of its secrets (\<^verbatim>\<open>utils.go\<close>). A callback starts its controllers, one goroutine each, and waits for
  them with a \<^verbatim>\<open>sync.WaitGroup\<close>. The statements of the callback and of every goroutine are separate
  steps, so all interleavings are runs of the machine. The controllers themselves and the leader
  election belong to libraries: \<open>may_return c d\<close> tells whether the \<^verbatim>\<open>Run\<close> of controller \<open>c\<close> may return when its
  context is done (\<open>d\<close>) or not, and the election may give and take the lead at any time.
\<close>

section \<open>The secret informers\<close>

record list_options =
  lo_LabelSelector :: string
  lo_FieldSelector :: string

record ('cl, 'i, 'l) informer_lib =
  OneTermEqualSelector :: "string \<Rightarrow> string \<Rightarrow> string"
  NewFilteredSecretInformer :: "'cl \<Rightarrow> string \<Rightarrow> int \<Rightarrow> string list \<Rightarrow> (list_options \<Rightarrow> list_options) \<Rightarrow> 'i"
  NewSecretLister :: "'i \<Rightarrow> 'l"
  lister_Get :: "'l \<Rightarrow> string \<Rightarrow> string \<Rightarrow> tls_secret result"

record ('i, 'l) secretInformer =
  Informer :: 'i
  Lister :: 'l

definition NewSecretInformer ::
    "('cl, 'i, 'l) informer_lib \<Rightarrow> 'cl \<Rightarrow> string \<Rightarrow> string \<Rightarrow> int \<Rightarrow> ('i, 'l) secretInformer" where
  "NewSecretInformer lib cl namespace name resync =
     (let indexers = [''namespace''];
          opts = (\<lambda>lo. lo\<lparr> lo_FieldSelector := OneTermEqualSelector lib ''metadata.name'' name \<rparr>);
          informer = NewFilteredSecretInformer lib cl namespace resync indexers opts;
          lister = NewSecretLister lib informer
      in \<lparr> Informer = informer, Lister = lister \<rparr>)"

definition resyncPeriod :: int where
  "resyncPeriod = 15 * 60 * time_Second"

text \<open>The configuration of the certificates and the names of their secrets, which Kyverno's package
  \<^verbatim>\<open>tls\<close> computes.\<close>

record tls_config =
  ServiceName :: string
  Namespace :: string

record ('cl, 'i, 'l, 'rn, 'k) cert_lib =
  cert_informers :: "('cl, 'i, 'l) informer_lib"
  GenerateRootCASecretName :: "tls_config \<Rightarrow> string"
  GenerateTLSPairSecretName :: "tls_config \<Rightarrow> string"
  NewCertRenewer :: "'cl \<Rightarrow> string \<Rightarrow> int \<Rightarrow> int \<Rightarrow> int \<Rightarrow> string \<Rightarrow> tls_config \<Rightarrow> 'rn"
  certmanager_NewController ::
    "('i, 'l) secretInformer \<Rightarrow> ('i, 'l) secretInformer \<Rightarrow> 'rn \<Rightarrow> tls_config \<Rightarrow> 'k"

definition tlsMgrConfig :: "(string \<Rightarrow> string) \<Rightarrow> tls_config" where
  "tlsMgrConfig Getenv =
     \<lparr> ServiceName = getEnvWithFallback Getenv ''SERVICE_NAME'' ''notation-aws-verifier-svc'',
       Namespace = Getenv ''POD_NAMESPACE'' \<rparr>"

definition caInformer :: "('cl, 'i, 'l, 'rn, 'k) cert_lib \<Rightarrow> 'cl \<Rightarrow> (string \<Rightarrow> string) \<Rightarrow> ('i, 'l) secretInformer" where
  "caInformer lib cl Getenv =
     NewSecretInformer (cert_informers lib) cl (Getenv ''POD_NAMESPACE'')
       (GenerateRootCASecretName lib (tlsMgrConfig Getenv)) resyncPeriod"

definition tlsInformer :: "('cl, 'i, 'l, 'rn, 'k) cert_lib \<Rightarrow> 'cl \<Rightarrow> (string \<Rightarrow> string) \<Rightarrow> ('i, 'l) secretInformer" where
  "tlsInformer lib cl Getenv =
     NewSecretInformer (cert_informers lib) cl (Getenv ''POD_NAMESPACE'')
       (GenerateTLSPairSecretName lib (tlsMgrConfig Getenv)) resyncPeriod"

text \<open>The lookup of the certificate callback: \<^verbatim>\<open>informer.Lister().Secrets(cfg.Namespace).Get(secretName)\<close>.\<close>

definition listed_secret ::
    "('cl, 'i, 'l, 'rn, 'k) cert_lib \<Rightarrow> ('i, 'l) secretInformer \<Rightarrow> tls_config \<Rightarrow> tls_secret result" where
  "listed_secret lib informer cfg =
     lister_Get (cert_informers lib) (Lister informer) (Namespace cfg) (GenerateTLSPairSecretName lib cfg)"

section \<open>Controllers and their wait group\<close>

record 'k controller =
  c_name :: string
  c_controller :: 'k
  c_workers :: int

definition NewController :: "string \<Rightarrow> 'k \<Rightarrow> int \<Rightarrow> 'k controller" where
  "NewController name c w = \<lparr> c_name = name, c_controller = c, c_workers = w \<rparr>"

definition wg_Add :: "int \<Rightarrow> int \<Rightarrow> int result" where
  "wg_Add delta wg = (if wg + delta < 0 then Inl (Panic ''sync: negative WaitGroup counter'') else Inr (wg + delta))"

definition wg_Done :: "int \<Rightarrow> int result" where
  "wg_Done wg = wg_Add (- 1) wg"

text \<open>The context of the process, done when a signal arrives, and the one that the election gives to
  the callback of a term, done when the lead is lost as well.\<close>

datatype ctx = ProcessCtx | TermCtx nat

text \<open>Where a goroutine is: not yet running; inside the \<^verbatim>\<open>Run\<close> of the library; past it; past \<^verbatim>\<open>wg.Done()\<close>;
  past the last log line. The deferred calls run in the reverse order of their statements.\<close>

datatype at = Spawned | Working | Returned | Signalled | Gone

record 'k routine =
  r_controller :: "'k controller"
  r_ctx :: ctx
  r_at :: at

text \<open>\<^verbatim>\<open>Run\<close> of a controller: count it, then start the goroutine.\<close>

definition Run :: "'k controller \<Rightarrow> ctx \<Rightarrow> int \<Rightarrow> (int \<times> 'k routine) result" where
  "Run c cx wg =
     (case wg_Add 1 wg of
        Inl e \<Rightarrow> Inl e
      | Inr wg1 \<Rightarrow> Inr (wg1, \<lparr> r_controller = c, r_ctx = cx, r_at = Spawned \<rparr>))"

text \<open>The next statement of a goroutine, on the counter of the wait group.\<close>

fun advance :: "at \<Rightarrow> int \<Rightarrow> (at \<times> int) result" where
  "advance Spawned wg = Inr (Working, wg)"
| "advance Working wg = Inr (Returned, wg)"
| "advance Returned wg = (case wg_Done wg of Inl e \<Rightarrow> Inl e | Inr wg1 \<Rightarrow> Inr (Signalled, wg1))"
| "advance Signalled wg = Inr (Gone, wg)"
| "advance Gone wg = Inr (Gone, wg)"

section \<open>The callback of a term\<close>

datatype status = Active | Finished | Crashed gerr

record 'k callback =
  cb_todo :: "'k controller list"
  cb_wg :: int
  cb_routines :: "'k routine list"
  cb_status :: status

definition CertRenewalInterval :: int where
  "CertRenewalInterval = 12 * 3600 * time_Second"

definition CAValidityDuration :: int where
  "CAValidityDuration = 365 * 24 * 3600 * time_Second"

definition TLSValidityDuration :: int where
  "TLSValidityDuration = 150 * 24 * 3600 * time_Second"

definition leaderControllers ::
    "('cl, 'i, 'l, 'rn, 'k) cert_lib \<Rightarrow> 'cl \<Rightarrow> (string \<Rightarrow> string) \<Rightarrow> 'k controller list" where
  "leaderControllers lib cl Getenv =
     (let certRenewer = NewCertRenewer lib cl (Getenv ''POD_NAMESPACE'') CertRenewalInterval CAValidityDuration
            TLSValidityDuration [] (tlsMgrConfig Getenv);
          certManager = certmanager_NewController lib (caInformer lib cl Getenv) (tlsInformer lib cl Getenv)
            certRenewer (tlsMgrConfig Getenv)
      in [NewController ''cert-manager'' certManager 1])"

definition startWork :: "'k controller list \<Rightarrow> 'k callback" where
  "startWork cs = \<lparr> cb_todo = cs, cb_wg = 0, cb_routines = [], cb_status = Active \<rparr>"

text \<open>The loop that starts the controllers, the goroutines, and \<^verbatim>\<open>wg.Wait()\<close>. The controllers get the
  context of the process: the parameter of the callback has no name. \<open>dn\<close> tells which contexts are done.\<close>

inductive callback_step :: "('k controller \<Rightarrow> bool \<Rightarrow> bool) \<Rightarrow> (ctx \<Rightarrow> bool) \<Rightarrow> 'k callback \<Rightarrow> 'k callback \<Rightarrow> bool"
  for may_return dn where
  start: "callback_step may_return dn cb (cb\<lparr> cb_todo := cs, cb_wg := wg, cb_routines := cb_routines cb @ [r] \<rparr>)"
    if "cb_status cb = Active" and "cb_todo cb = c # cs" and "Run c ProcessCtx (cb_wg cb) = Inr (wg, r)"
| start_panic: "callback_step may_return dn cb (cb\<lparr> cb_status := Crashed e \<rparr>)"
    if "cb_status cb = Active" and "cb_todo cb = c # cs" and "Run c ProcessCtx (cb_wg cb) = Inl e"
| goroutine: "callback_step may_return dn cb (cb\<lparr> cb_wg := wg, cb_routines := (cb_routines cb)[i := r\<lparr> r_at := a \<rparr>] \<rparr>)"
    if "\<forall>e. cb_status cb \<noteq> Crashed e" and "i < length (cb_routines cb)" and "cb_routines cb ! i = r" and "r_at r \<noteq> Gone"
    and "r_at r = Working \<Longrightarrow> may_return (r_controller r) (dn (r_ctx r))" and "advance (r_at r) (cb_wg cb) = Inr (a, wg)"
| goroutine_panic: "callback_step may_return dn cb (cb\<lparr> cb_status := Crashed e \<rparr>)"
    if "\<forall>e. cb_status cb \<noteq> Crashed e" and "i < length (cb_routines cb)" and "advance (r_at (cb_routines cb ! i)) (cb_wg cb) = Inl e"
| wait: "callback_step may_return dn cb (cb\<lparr> cb_status := Finished \<rparr>)"
    if "cb_status cb = Active" and "cb_todo cb = []" and "cb_wg cb = 0"

section \<open>Terms of leadership\<close>

record 'k leader =
  ld_shutdown :: bool
  ld_ended :: "nat set"
  ld_terms :: "'k callback list"

fun ctx_done :: "'k leader \<Rightarrow> ctx \<Rightarrow> bool" where
  "ctx_done l ProcessCtx = ld_shutdown l"
| "ctx_done l (TermCtx n) = (ld_shutdown l \<or> n \<in> ld_ended l)"

definition follower :: "'k leader" where
  "follower = \<lparr> ld_shutdown = False, ld_ended = {}, ld_terms = [] \<rparr>"

inductive leader_step :: "('k controller \<Rightarrow> bool \<Rightarrow> bool) \<Rightarrow> 'k controller list \<Rightarrow> 'k leader \<Rightarrow> 'k leader \<Rightarrow> bool"
  for may_return cs where
  elected: "leader_step may_return cs l (l\<lparr> ld_terms := ld_terms l @ [startWork cs] \<rparr>)"
    if "\<not> ld_shutdown l" and "{..<length (ld_terms l)} \<subseteq> ld_ended l"
| lost: "leader_step may_return cs l (l\<lparr> ld_ended := insert n (ld_ended l) \<rparr>)"
    if "n < length (ld_terms l)"
| signal: "leader_step may_return cs l (l\<lparr> ld_shutdown := True \<rparr>)"
| work: "leader_step may_return cs l (l\<lparr> ld_terms := (ld_terms l)[n := cb] \<rparr>)"
    if "n < length (ld_terms l)" and "callback_step may_return (ctx_done l) (ld_terms l ! n) cb"

inductive_cases leader_stepE: "leader_step may_return cs l l'"

section \<open>Counting goroutines\<close>

definition pending :: "'k routine \<Rightarrow> int" where
  "pending r = (if r_at r \<in> {Signalled, Gone} then 0 else 1)"

lemma pending_nonneg [simp]: "0 \<le> pending r"
  by (simp add: pending_def)

lemma sum_pending_nonneg [simp]: "0 \<le> (\<Sum>r\<leftarrow>rs. pending r)"
  by (induction rs) simp_all

lemma sum_pending_0: "(\<And>r. r \<in> set rs \<Longrightarrow> pending r = 0) \<Longrightarrow> (\<Sum>r\<leftarrow>rs. pending r) = 0"
  by (induction rs) simp_all

lemma sum_list_replace:
  fixes f :: "'a \<Rightarrow> int"
  assumes "i < length xs"
  shows "(\<Sum>x\<leftarrow>xs[i := y]. f x) = (\<Sum>x\<leftarrow>xs. f x) - f (xs ! i) + f y"
  using assms by (induction xs arbitrary: i) (auto split: nat.splits)

lemma pending_le_sum: "r \<in> set rs \<Longrightarrow> pending r \<le> (\<Sum>r\<leftarrow>rs. pending r)"
  by (induction rs) (auto intro: add_increasing add_increasing2)

text \<open>The counter of the wait group is the number of goroutines that have not signalled; nothing has
  crashed; a callback that returned has nothing left to do.\<close>

definition callback_inv :: "'k controller list \<Rightarrow> 'k callback \<Rightarrow> bool" where
  "callback_inv cs cb \<longleftrightarrow>
     cb_wg cb = (\<Sum>r\<leftarrow>cb_routines cb. pending r)
     \<and> cs = map r_controller (cb_routines cb) @ cb_todo cb
     \<and> (\<forall>r \<in> set (cb_routines cb). r_ctx r = ProcessCtx)
     \<and> (\<forall>e. cb_status cb \<noteq> Crashed e)
     \<and> (cb_status cb = Finished \<longrightarrow> cb_todo cb = [] \<and> cb_wg cb = 0)"

lemma Run_ok: "0 \<le> wg \<Longrightarrow> Run c cx wg = Inr (wg + 1, \<lparr> r_controller = c, r_ctx = cx, r_at = Spawned \<rparr>)"
  by (simp add: Run_def wg_Add_def)

text \<open>\<^verbatim>\<open>wg.Done()\<close> finds the goroutine counted.\<close>

lemma advance_ok:
  assumes "r \<in> set rs" and "wg = (\<Sum>r\<leftarrow>rs. pending r)"
  shows "\<exists>a. advance (r_at r) wg = Inr (a, wg - pending r + pending (r\<lparr> r_at := a \<rparr>))"
  using pending_le_sum [OF assms(1)] assms(2)
  by (cases "r_at r") (auto simp: pending_def wg_Done_def wg_Add_def)

lemma callback_inv_start: "callback_inv cs (startWork cs)"
  by (simp add: callback_inv_def startWork_def)

lemma callback_inv_step:
  assumes "callback_step may_return dn cb cb'" and "callback_inv cs cb"
  shows "callback_inv cs cb'"
  using assms
proof (induction rule: callback_step.induct)
  case (start cb c cs' wg r)
  then have "0 \<le> cb_wg cb" by (simp add: callback_inv_def)
  from Run_ok [OF this, of c ProcessCtx] start(3)
  have "wg = cb_wg cb + 1" "r_controller r = c \<and> r_ctx r = ProcessCtx \<and> pending r = 1" by (auto simp: pending_def)
  with start show ?case by (auto simp: callback_inv_def)
next
  case (goroutine cb i r a wg)
  then have inv: "cb_wg cb = (\<Sum>r\<leftarrow>cb_routines cb. pending r)" and mem: "r \<in> set (cb_routines cb)"
    by (auto simp: callback_inv_def)
  from advance_ok [OF mem inv] goroutine(6) have wg: "wg = cb_wg cb - pending r + pending (r\<lparr> r_at := a \<rparr>)" by auto
  with inv goroutine(2,3) have sum: "wg = (\<Sum>r\<leftarrow>(cb_routines cb)[i := r\<lparr> r_at := a \<rparr>]. pending r)"
    by (simp add: sum_list_replace)
  have same: "map r_controller ((cb_routines cb)[i := r\<lparr> r_at := a \<rparr>]) = map r_controller (cb_routines cb)"
    using goroutine(2,3) by (metis list_update_id map_update routine.ext_inject routine.surjective routine.update_convs(3))
  have ctx: "r_ctx x = ProcessCtx" if "x \<in> set ((cb_routines cb)[i := r\<lparr> r_at := a \<rparr>])" for x
    using set_update_subset_insert [of "cb_routines cb" i "r\<lparr> r_at := a \<rparr>"] that goroutine.prems mem
    by (auto simp: callback_inv_def)
  have fin: "wg = 0" if "cb_status cb = Finished"
  proof -
    have "cb_wg cb = 0" using that goroutine.prems by (simp add: callback_inv_def)
    with inv pending_le_sum [OF mem] have "pending r = 0" by (simp add: antisym)
    then have "pending (r\<lparr> r_at := a \<rparr>) = 0"
      using goroutine(4,6) by (cases "r_at r") (auto simp: pending_def)
    with wg \<open>cb_wg cb = 0\<close> \<open>pending r = 0\<close> show ?thesis by simp
  qed
  from sum same ctx fin goroutine.prems show ?case by (simp add: callback_inv_def)
next
  case (goroutine_panic cb i e)
  then have "cb_routines cb ! i \<in> set (cb_routines cb)" "cb_wg cb = (\<Sum>r\<leftarrow>cb_routines cb. pending r)"
    by (auto simp: callback_inv_def)
  from advance_ok [OF this] goroutine_panic(3) show ?case by auto
qed (auto simp: callback_inv_def Run_ok)

definition leader_inv :: "'k controller list \<Rightarrow> 'k leader \<Rightarrow> bool" where
  "leader_inv cs l \<longleftrightarrow> (\<forall>cb \<in> set (ld_terms l). callback_inv cs cb)"

lemma leader_inv_step: "leader_step may_return cs l l' \<Longrightarrow> leader_inv cs l \<Longrightarrow> leader_inv cs l'"
proof (erule leader_stepE)
  fix n cb assume "leader_inv cs l" "l' = l\<lparr> ld_terms := (ld_terms l)[n := cb] \<rparr>" "n < length (ld_terms l)"
    and step: "callback_step may_return (ctx_done l) (ld_terms l ! n) cb"
  with callback_inv_step [OF step, of cs] set_update_subset_insert [of "ld_terms l" n cb] show "leader_inv cs l'"
    by (auto simp: leader_inv_def)
qed (auto simp: leader_inv_def callback_inv_start)

lemma leader_inv_reachable: "(leader_step may_return cs)\<^sup>*\<^sup>* follower l \<Longrightarrow> leader_inv cs l"
  by (induction rule: rtranclp_induct) (simp_all add: leader_inv_step, simp add: leader_inv_def follower_def)

section \<open>Every run of a callback ends\<close>

fun steps_left :: "at \<Rightarrow> nat" where
  "steps_left Spawned = 4" | "steps_left Working = 3" | "steps_left Returned = 2" | "steps_left Signalled = 1"
| "steps_left Gone = 0"

definition work_left :: "'k callback \<Rightarrow> nat" where
  "work_left cb = (case cb_status cb of Active \<Rightarrow> 2 | Finished \<Rightarrow> 1 | Crashed e \<Rightarrow> 0) + 5 * length (cb_todo cb)
     + (\<Sum>r\<leftarrow>cb_routines cb. steps_left (r_at r))"

lemma advance_decreases: "advance p wg = Inr (a, wg') \<Longrightarrow> p \<noteq> Gone \<Longrightarrow> steps_left a < steps_left p"
  by (cases p) (auto split: sum.splits)

lemma sum_list_decreases:
  fixes f :: "'a \<Rightarrow> nat"
  shows "i < length xs \<Longrightarrow> f y < f (xs ! i) \<Longrightarrow> (\<Sum>x\<leftarrow>xs[i := y]. f x) < (\<Sum>x\<leftarrow>xs. f x)"
  by (induction xs arbitrary: i) (auto split: nat.splits)

lemma work_decreases: "callback_step may_return dn cb cb' \<Longrightarrow> work_left cb' < work_left cb"
proof (induction rule: callback_step.induct)
  case (goroutine cb i r a wg)
  with advance_decreases [OF goroutine(6,4)]
  have "(\<Sum>x\<leftarrow>(cb_routines cb)[i := r\<lparr> r_at := a \<rparr>]. steps_left (r_at x)) < (\<Sum>x\<leftarrow>cb_routines cb. steps_left (r_at x))"
    by (intro sum_list_decreases [where f = "\<lambda>x. steps_left (r_at x)"]) simp_all
  then show ?case by (simp add: work_left_def)
qed (auto simp: work_left_def Run_def split: status.splits sum.splits)

text \<open>When the context of the process is done and controllers heed it, only a callback that has
  returned, with every goroutine gone, has no step.\<close>

lemma stuck_is_finished:
  assumes inv: "callback_inv cs cb" and "dn ProcessCtx" and "\<And>c. may_return c True"
    and stuck: "\<And>cb'. \<not> callback_step may_return dn cb cb'"
  shows "cb_status cb = Finished \<and> (\<forall>r \<in> set (cb_routines cb). r_at r = Gone)"
proof -
  have ok: "\<forall>e. cb_status cb \<noteq> Crashed e" and wg: "cb_wg cb = (\<Sum>r\<leftarrow>cb_routines cb. pending r)"
    using inv by (auto simp: callback_inv_def)
  have gone: "r_at r = Gone" if mem: "r \<in> set (cb_routines cb)" for r
  proof (rule ccontr)
    assume "r_at r \<noteq> Gone"
    moreover from mem obtain i where "i < length (cb_routines cb)" "cb_routines cb ! i = r" by (auto simp: in_set_conv_nth)
    moreover have "may_return (r_controller r) (dn (r_ctx r))" using inv mem assms(2,3) by (simp add: callback_inv_def)
    moreover obtain a wg' where "advance (r_at r) (cb_wg cb) = Inr (a, wg')" using advance_ok [OF mem wg] by blast
    ultimately show False using callback_step.goroutine [OF ok] stuck by metis
  qed
  have "cb_status cb = Finished"
  proof (cases "cb_status cb")
    case Active
    show ?thesis
    proof (cases "cb_todo cb")
      case Nil
      have "cb_wg cb = 0" unfolding wg by (rule sum_pending_0) (simp add: gone pending_def)
      with callback_step.wait [OF Active Nil] stuck show ?thesis by blast
    next
      case (Cons c cs')
      have "0 \<le> cb_wg cb" by (simp add: wg)
      from callback_step.start [OF Active Cons Run_ok [OF this]] stuck show ?thesis by blast
    qed
  qed (use ok in auto)
  with gone show ?thesis by blast
qed

section \<open>A term that was lost\<close>

text \<open>Controllers that run until their context is done (the contract of Kyverno's controllers) keep
  running while the process lives.\<close>

definition busy :: "'k callback \<Rightarrow> bool" where
  "busy cb \<longleftrightarrow> (\<forall>r \<in> set (cb_routines cb). r_at r \<in> {Spawned, Working} \<and> r_ctx r = ProcessCtx)"

definition undisturbed :: "'k leader \<Rightarrow> bool" where
  "undisturbed l \<longleftrightarrow> ld_shutdown l \<or> (\<forall>cb \<in> set (ld_terms l). busy cb)"

lemma busy_step:
  assumes "callback_step may_return dn cb cb'" and "\<forall>c. \<not> may_return c False" and "\<not> dn ProcessCtx" and "busy cb"
  shows "busy cb'"
  using assms
proof (induction rule: callback_step.induct)
  case (goroutine cb i r a wg)
  then have r: "r_at r \<in> {Spawned, Working}" "r_ctx r = ProcessCtx" by (auto simp: busy_def)
  have "r_at r \<noteq> Working" using goroutine(5) goroutine.prems r(2) by auto
  with r goroutine(6) have "r_at (r\<lparr> r_at := a \<rparr>) = Working \<and> r_ctx (r\<lparr> r_at := a \<rparr>) = ProcessCtx" by auto
  with goroutine.prems set_update_subset_insert [of "cb_routines cb" i "r\<lparr> r_at := a \<rparr>"] show ?case
    unfolding busy_def by auto
qed (auto simp: busy_def Run_def split: sum.splits)

lemma undisturbed_step:
  assumes "leader_step may_return cs l l'" and "undisturbed l" and "\<forall>c. \<not> may_return c False"
  shows "undisturbed l'"
  using assms
proof (induction rule: leader_step.induct)
  case (work n l cb)
  show ?case
  proof (cases "ld_shutdown l")
    case False
    with work(1,3) have old: "\<forall>x \<in> set (ld_terms l). busy x" by (simp add: undisturbed_def)
    with work(1) False have "busy cb" by (intro busy_step [OF work(2,4)]) simp_all
    with old set_update_subset_insert [of "ld_terms l" n cb] show ?thesis unfolding undisturbed_def by auto
  qed (simp add: undisturbed_def)
qed (auto simp: undisturbed_def startWork_def busy_def)

lemma undisturbed_reachable:
  "(leader_step may_return cs)\<^sup>*\<^sup>* follower l \<Longrightarrow> \<forall>c. \<not> may_return c False \<Longrightarrow> undisturbed l"
  by (induction rule: rtranclp_induct) (simp_all add: undisturbed_step, simp add: undisturbed_def follower_def)

text \<open>While a controller is at work, its callback waits.\<close>

lemma busy_active:
  assumes "busy cb" and "callback_inv cs cb" and "cs \<noteq> []"
  shows "cb_status cb = Active"
proof (rule ccontr)
  assume "cb_status cb \<noteq> Active"
  with assms(2) have fin: "cb_todo cb = []" "cb_wg cb = 0" by (cases "cb_status cb"; simp add: callback_inv_def)+
  with assms(2,3) obtain r where r: "r \<in> set (cb_routines cb)" by (cases "cb_routines cb") (auto simp: callback_inv_def)
  with assms(1) have "pending r = 1" by (auto simp: busy_def pending_def)
  with pending_le_sum [OF r] assms(2) fin(2) show False by (simp add: callback_inv_def)
qed

text \<open>Two steps put the single controller of a term to work.\<close>

definition working :: "'k controller \<Rightarrow> 'k callback" where
  "working c = \<lparr> cb_todo = [], cb_wg = 1, cb_routines = [\<lparr> r_controller = c, r_ctx = ProcessCtx, r_at = Working \<rparr>],
     cb_status = Active \<rparr>"

lemma term_starts: "(callback_step may_return dn)\<^sup>*\<^sup>* (startWork [c]) (working c)"
proof -
  let ?cb = "\<lparr> cb_todo = [], cb_wg = 1, cb_routines = [\<lparr> r_controller = c, r_ctx = ProcessCtx, r_at = Spawned \<rparr>], cb_status = Active \<rparr>"
  have "callback_step may_return dn (startWork [c]) ?cb"
    using callback_step.start [of "startWork [c]" c "[]" 1 "\<lparr> r_controller = c, r_ctx = ProcessCtx, r_at = Spawned \<rparr>"]
    by (simp add: startWork_def Run_ok)
  moreover have "callback_step may_return dn ?cb (working c)"
    using callback_step.goroutine [of ?cb 0 "\<lparr> r_controller = c, r_ctx = ProcessCtx, r_at = Spawned \<rparr>" may_return dn Working 1]
    by (simp add: working_def)
  ultimately show ?thesis by (meson rtranclp.rtrancl_refl rtranclp.rtrancl_into_rtrancl)
qed

lemma leader_works:
  assumes "(callback_step may_return (ctx_done l))\<^sup>*\<^sup>* cb cb'" and "n < length (ld_terms l)" and "ld_terms l ! n = cb"
  shows "(leader_step may_return cs)\<^sup>*\<^sup>* l (l\<lparr> ld_terms := (ld_terms l)[n := cb'] \<rparr>)"
  using assms(1)
proof (induction rule: rtranclp_induct)
  case base
  have "l\<lparr> ld_terms := (ld_terms l)[n := cb] \<rparr> = l" using assms(3) by auto
  then show ?case by simp
next
  case (step x y)
  let ?l = "l\<lparr> ld_terms := (ld_terms l)[n := x] \<rparr>"
  have "ctx_done ?l = ctx_done l" by (rule ext) (rule ctx.induct; simp)
  with step(2) assms(2) have "callback_step may_return (ctx_done ?l) (ld_terms ?l ! n) y" by simp
  with leader_step.work [of n ?l may_return y cs] assms(2)
  have "leader_step may_return cs ?l (l\<lparr> ld_terms := (ld_terms l)[n := y] \<rparr>)" by simp
  with step(3) show ?case by (rule rtranclp.rtrancl_into_rtrancl)
qed

lemma term_begins:
  assumes "\<not> ld_shutdown l" and "{..<length (ld_terms l)} \<subseteq> ld_ended l"
  shows "(leader_step may_return [c])\<^sup>*\<^sup>* l (l\<lparr> ld_terms := ld_terms l @ [working c] \<rparr>)"
proof -
  let ?l = "l\<lparr> ld_terms := ld_terms l @ [startWork [c]] \<rparr>"
  have "leader_step may_return [c] l ?l" using assms by (rule leader_step.elected)
  moreover have "(leader_step may_return [c])\<^sup>*\<^sup>* ?l (?l\<lparr> ld_terms := (ld_terms ?l)[length (ld_terms l) := working c] \<rparr>)"
    by (rule leader_works [OF term_starts]) (simp_all add: nth_append)
  ultimately show ?thesis by (simp add: converse_rtranclp_into_rtranclp)
qed

section \<open>Properties\<close>

text \<open>
  C28. However the goroutines, the callbacks of several terms, elections, losses of the lead and the
  shutdown interleave, and whenever the controllers return: the counter of a callback's wait group
  is the number of its goroutines that have not signalled, so \<^verbatim>\<open>wg.Done()\<close> never panics; the callback
  returns only after every controller was started and its \<^verbatim>\<open>Run\<close> has returned.
\<close>

theorem leader_callback_joins:
  assumes "(leader_step may_return cs)\<^sup>*\<^sup>* follower l" and "cb \<in> set (ld_terms l)"
  shows "(\<forall>e. cb_status cb \<noteq> Crashed e)
    \<and> cb_wg cb = int (length (filter (\<lambda>r. r_at r \<in> {Spawned, Working, Returned}) (cb_routines cb)))
    \<and> (cb_status cb = Finished \<longrightarrow>
         map r_controller (cb_routines cb) = cs \<and> (\<forall>r \<in> set (cb_routines cb). r_at r \<in> {Signalled, Gone}))"
proof -
  have inv: "callback_inv cs cb" using leader_inv_reachable [OF assms(1)] assms(2) by (simp add: leader_inv_def)
  have count: "(\<Sum>r\<leftarrow>rs. pending r) = int (length (filter (\<lambda>r. r_at r \<in> {Spawned, Working, Returned}) rs))" for rs :: "'a routine list"
  proof (induction rs)
    case (Cons r rs)
    then show ?case by (cases "r_at r") (simp_all add: pending_def)
  qed simp
  have "r_at r \<in> {Signalled, Gone}" if "cb_status cb = Finished" "r \<in> set (cb_routines cb)" for r
  proof -
    have "(\<Sum>r\<leftarrow>cb_routines cb. pending r) = 0" using inv that(1) by (auto simp: callback_inv_def)
    with pending_le_sum [OF that(2)] show ?thesis by (auto simp: pending_def split: if_splits)
  qed
  with inv show ?thesis by (simp add: callback_inv_def count)
qed

lemma demo_term: "(leader_step m [c])\<^sup>*\<^sup>* follower (follower\<lparr> ld_terms := [working c] \<rparr>)"
  using term_begins [of follower m c] by (simp add: follower_def)

definition demo_controller :: "string controller" where
  "demo_controller = NewController ''cert-manager'' ''k'' 1"

theorem leader_callback_joins_witness:
  "working demo_controller \<in> set (ld_terms (follower\<lparr> ld_terms := [working demo_controller] \<rparr>))
   \<and> cb_wg (working demo_controller) = 1
   \<and> length (filter (\<lambda>r. r_at r \<in> {Spawned, Working, Returned}) (cb_routines (working demo_controller))) = 1"
  using leader_callback_joins [OF demo_term [of "\<lambda>c d. d" demo_controller], of "working demo_controller"]
  by (simp add: working_def)

text \<open>
  C29. Shutdown ends every term: the callbacks and goroutines of a run take only finitely many steps
  (a measure decreases with each), and once the context of the process is done, if controllers
  return then, they get stuck only when every callback has returned and every goroutine is gone.
\<close>

theorem leader_callback_terminates:
  assumes "(leader_step may_return cs)\<^sup>*\<^sup>* follower l" and "ld_shutdown l" and "\<And>c. may_return c True"
    and "cb \<in> set (ld_terms l)"
  shows "(\<forall>cb'. (callback_step may_return (ctx_done l))\<^sup>*\<^sup>* cb cb' \<longrightarrow>
           (\<exists>cb''. callback_step may_return (ctx_done l) cb' cb'' \<and> work_left cb'' < work_left cb')
           \<or> cb_status cb' = Finished \<and> map r_controller (cb_routines cb') = cs \<and> (\<forall>r \<in> set (cb_routines cb'). r_at r = Gone))
    \<and> wfP (\<lambda>cb' cb. callback_step may_return (ctx_done l) cb cb')"
proof -
  let ?step = "callback_step may_return (ctx_done l)"
  have inv: "callback_inv cs cb'" if "?step\<^sup>*\<^sup>* cb cb'" for cb'
    using that
  proof (induction rule: rtranclp_induct)
    case base
    show ?case using leader_inv_reachable [OF assms(1)] assms(4) by (simp add: leader_inv_def)
  qed (rule callback_inv_step)
  have "(\<exists>cb''. ?step cb' cb'' \<and> work_left cb'' < work_left cb')
      \<or> cb_status cb' = Finished \<and> map r_controller (cb_routines cb') = cs \<and> (\<forall>r \<in> set (cb_routines cb'). r_at r = Gone)"
    if "?step\<^sup>*\<^sup>* cb cb'" for cb'
  proof (cases "\<exists>cb''. ?step cb' cb''")
    case True
    then show ?thesis using work_decreases by blast
  next
    case False
    with stuck_is_finished [OF inv [OF that], of "ctx_done l" may_return] assms(2,3) inv [OF that]
    show ?thesis by (simp add: callback_inv_def)
  qed
  moreover have "wfP (\<lambda>cb' cb. ?step cb cb')"
    by (rule wfp_if_convertible_to_nat [of _ work_left]) (rule work_decreases)
  ultimately show ?thesis by blast
qed

lemma demo_shutdown:
  "(leader_step m [c])\<^sup>*\<^sup>* follower (follower\<lparr> ld_terms := [working c], ld_shutdown := True \<rparr>)"
  using rtranclp.rtrancl_into_rtrancl [OF demo_term leader_step.signal, of m c] by simp

theorem leader_callback_terminates_witness:
  "\<exists>cb''. callback_step (\<lambda>c d. d) (ctx_done (follower\<lparr> ld_terms := [working demo_controller], ld_shutdown := True \<rparr>))
     (working demo_controller) cb'' \<and> work_left cb'' < work_left (working demo_controller)"
proof -
  let ?l = "follower\<lparr> ld_terms := [working demo_controller], ld_shutdown := True \<rparr>"
  have "cb_status (working demo_controller) \<noteq> Finished" by (simp add: working_def)
  moreover have "ld_shutdown ?l" "working demo_controller \<in> set (ld_terms ?l)" by simp_all
  ultimately show ?thesis
    using leader_callback_terminates [OF demo_shutdown [of "\<lambda>c d. d" demo_controller], of "working demo_controller"] by blast
qed

text \<open>
  C35. The certificate manager outlives its term: the callback hands the context of the process, not
  the one of the term, to its controllers, so while the process lives the callback of a lost term
  neither returns nor stops a controller, and a second term adds a second certificate manager to
  the one that is still running.
\<close>

theorem lost_term_keeps_running:
  assumes "\<forall>c. \<not> may_return c False"
  shows "(\<forall>l. (leader_step may_return (leaderControllers lib cl Getenv))\<^sup>*\<^sup>* follower l \<longrightarrow> \<not> ld_shutdown l \<longrightarrow>
            (\<forall>cb \<in> set (ld_terms l). cb_status cb = Active \<and> (\<forall>r \<in> set (cb_routines cb). r_at r \<in> {Spawned, Working})))
    \<and> (\<exists>l. (leader_step may_return (leaderControllers lib cl Getenv))\<^sup>*\<^sup>* follower l
          \<and> \<not> ld_shutdown l \<and> ctx_done l (TermCtx 0)
          \<and> map (\<lambda>cb. map (\<lambda>r. (c_name (r_controller r), r_at r)) (cb_routines cb)) (ld_terms l)
              = [[(''cert-manager'', Working)], [(''cert-manager'', Working)]])"
proof -
  obtain c where cs: "leaderControllers lib cl Getenv = [c]" and c: "c_name c = ''cert-manager''"
    by (simp add: leaderControllers_def NewController_def Let_def)
  let ?step = "leader_step may_return [c]"
  have "cb_status cb = Active \<and> (\<forall>r \<in> set (cb_routines cb). r_at r \<in> {Spawned, Working})"
    if run: "?step\<^sup>*\<^sup>* follower l" and "\<not> ld_shutdown l" and cb: "cb \<in> set (ld_terms l)" for l cb
  proof -
    have "busy cb" using undisturbed_reachable [OF run assms] that(2) cb by (simp add: undisturbed_def)
    moreover have "callback_inv [c] cb" using leader_inv_reachable [OF run] cb by (simp add: leader_inv_def)
    ultimately show ?thesis using busy_active [of cb "[c]"] by (simp add: busy_def)
  qed
  moreover have "\<exists>l. ?step\<^sup>*\<^sup>* follower l \<and> \<not> ld_shutdown l \<and> ctx_done l (TermCtx 0)
      \<and> map (\<lambda>cb. map (\<lambda>r. (c_name (r_controller r), r_at r)) (cb_routines cb)) (ld_terms l)
          = [[(''cert-manager'', Working)], [(''cert-manager'', Working)]]"
  proof (intro exI conjI)
    let ?l1 = "follower\<lparr> ld_terms := [working c] \<rparr>"
    let ?l2 = "?l1\<lparr> ld_ended := {0} \<rparr>"
    have "?step\<^sup>*\<^sup>* follower ?l1" using term_begins [of follower may_return c] by (simp add: follower_def)
    moreover have "?step ?l1 ?l2" using leader_step.lost [of 0 ?l1 may_return "[c]"] by (simp add: follower_def)
    moreover have "?step\<^sup>*\<^sup>* ?l2 (?l2\<lparr> ld_terms := [working c, working c] \<rparr>)"
      using term_begins [of ?l2 may_return c] by (simp add: follower_def lessThan_Suc)
    ultimately show "?step\<^sup>*\<^sup>* follower (?l2\<lparr> ld_terms := [working c, working c] \<rparr>)"
      by (meson rtranclp.rtrancl_into_rtrancl rtranclp_trans)
  qed (simp_all add: follower_def working_def c)
  ultimately show ?thesis unfolding cs by blast
qed

definition demo_informers :: "(string \<times> string \<Rightarrow> tls_secret option, string \<times> string \<Rightarrow> tls_secret option, string \<times> string \<Rightarrow> tls_secret option) informer_lib" where
  "demo_informers = \<lparr> OneTermEqualSelector = (\<lambda>k v. k @ ''='' @ v),
     NewFilteredSecretInformer = (\<lambda>cl ns resync ix opts (ns', n).
       if ns' = ns \<and> lo_FieldSelector (opts \<lparr> lo_LabelSelector = [], lo_FieldSelector = [] \<rparr>) = ''metadata.name='' @ n then cl (ns', n) else None),
     NewSecretLister = id,
     lister_Get = (\<lambda>l ns n. case l (ns, n) of None \<Rightarrow> Inl (Err ''not found'') | Some x \<Rightarrow> Inr x) \<rparr>"

definition demo_certs ::
    "(string \<times> string \<Rightarrow> tls_secret option, string \<times> string \<Rightarrow> tls_secret option, string \<times> string \<Rightarrow> tls_secret option, string, string) cert_lib" where
  "demo_certs = \<lparr> cert_informers = demo_informers, GenerateRootCASecretName = (\<lambda>c. ServiceName c @ ''-ca''),
     GenerateTLSPairSecretName = (\<lambda>c. ServiceName c @ ''-pair''), NewCertRenewer = (\<lambda>cl ns a b c s cfg. ''renewer''),
     certmanager_NewController = (\<lambda>a b r cfg. r) \<rparr>"

theorem lost_term_keeps_running_witness:
  "\<exists>l. (leader_step (\<lambda>c d. d) (leaderControllers demo_certs (\<lambda>x. None) (\<lambda>x. ''ns'')))\<^sup>*\<^sup>* follower l
     \<and> \<not> ld_shutdown l \<and> ctx_done l (TermCtx 0)
     \<and> map (\<lambda>cb. map (\<lambda>r. (c_name (r_controller r), r_at r)) (cb_routines cb)) (ld_terms l)
         = [[(''cert-manager'', Working)], [(''cert-manager'', Working)]]"
  using lost_term_keeps_running [of "\<lambda>c d. d" demo_certs "\<lambda>x. None" "\<lambda>x. ''ns''"] by simp

section \<open>The certificate of the cluster\<close>

text \<open>
  What the code relies on of a synced informer: a lister finds the secrets of the informer's namespace
  that the field selector of its list options admits, and no others; \<open>cluster\<close> are the secrets of
  the API server by namespace and name.
\<close>

definition informs ::
    "('cl, 'i, 'l) informer_lib \<Rightarrow> 'cl \<Rightarrow> (string \<times> string \<Rightarrow> tls_secret option) \<Rightarrow> bool" where
  "informs lib cl cluster \<longleftrightarrow>
     (\<forall>ns name resync ix opts lo. lo_FieldSelector (opts lo) = OneTermEqualSelector lib ''metadata.name'' name \<longrightarrow>
        (\<forall>ns' n. lister_Get lib (NewSecretLister lib (NewFilteredSecretInformer lib cl ns resync ix opts)) ns' n =
           (case (if ns' = ns \<and> n = name then cluster (ns', n) else None) of
              None \<Rightarrow> Inl (Err ''not found'') | Some s \<Rightarrow> Inr s)))"

text \<open>The certificate callback asks for the one secret that its informer watches.\<close>

lemma listed_secret_cluster:
  assumes "informs (cert_informers lib) cl cluster"
  shows "listed_secret lib (tlsInformer lib cl Getenv) (tlsMgrConfig Getenv) =
    (case cluster (Getenv ''POD_NAMESPACE'', GenerateTLSPairSecretName lib (tlsMgrConfig Getenv)) of
       None \<Rightarrow> Inl (Err ''not found'') | Some s \<Rightarrow> Inr s)"
proof -
  let ?name = "GenerateTLSPairSecretName lib (tlsMgrConfig Getenv)" and ?lib = "cert_informers lib"
  let ?opts = "\<lambda>lo. lo\<lparr> lo_FieldSelector := OneTermEqualSelector ?lib ''metadata.name'' ?name \<rparr>"
  have "lister_Get ?lib (NewSecretLister ?lib (NewFilteredSecretInformer ?lib cl ns resync ix ?opts)) ns ?name =
      (case cluster (ns, ?name) of None \<Rightarrow> Inl (Err ''not found'') | Some s \<Rightarrow> Inr s)" for ns resync ix
    using assms unfolding informs_def
    by (elim allE [where x = ns] allE [where x = ?name] allE [where x = resync] allE [where x = ix] allE [where x = ?opts]) simp
  then show ?thesis
    by (simp add: listed_secret_def tlsInformer_def NewSecretInformer_def tlsMgrConfig_def Let_def)
qed

end
