(* ===== verification/Registration.thy ===== *)
theory Registration
  imports Server
begin

text \<open>
  The registration of the custom resources: \<^verbatim>\<open>api/v1alpha1/groupversion_info.go\<close>, the \<^verbatim>\<open>init\<close> of
  \<^verbatim>\<open>kubenotation/manager.go\<close> and \<^verbatim>\<open>SetupWithManager\<close> of the two reconcilers. The scheme of the Kubernetes
  libraries and the controller builder are parameters; a Go type is given by its name.
\<close>

section \<open>The API group\<close>

record gv =
  gv_Group :: string
  gv_Version :: string

definition GroupVersion :: gv where
  "GroupVersion = \<lparr> gv_Group = ''notation.nirmata.io'', gv_Version = ''v1alpha1'' \<rparr>"

record 's scheme_ops =
  NewScheme :: 's
  AddKnownTypes :: "'s \<Rightarrow> gv \<Rightarrow> string list \<Rightarrow> 's"
  AddToGroupVersion :: "'s \<Rightarrow> gv \<Rightarrow> 's"
  clientgo_AddToScheme :: "'s \<Rightarrow> gerr option \<times> 's"
  builder_AddToScheme :: "('s \<Rightarrow> gerr option \<times> 's) list \<Rightarrow> 's \<Rightarrow> gerr option \<times> 's"
  ObjectKinds :: "'s \<Rightarrow> string \<Rightarrow> (gv \<times> string) list"

definition addKnownTypes :: "'s scheme_ops \<Rightarrow> 's \<Rightarrow> gerr option \<times> 's" where
  "addKnownTypes ops s =
     (let s1 = AddKnownTypes ops s GroupVersion [''TrustPolicy'', ''TrustPolicyList'', ''TrustStore'', ''TrustStoreList''];
          s2 = AddToGroupVersion ops s1 GroupVersion
      in (None, s2))"

definition SchemeBuilder :: "'s scheme_ops \<Rightarrow> ('s \<Rightarrow> gerr option \<times> 's) list" where
  "SchemeBuilder ops = [addKnownTypes ops]"

definition AddToScheme :: "'s scheme_ops \<Rightarrow> 's \<Rightarrow> gerr option \<times> 's" where
  "AddToScheme ops = builder_AddToScheme ops (SchemeBuilder ops)"

text \<open>\<^verbatim>\<open>utilruntime.Must\<close> panics with the error.\<close>

fun Must :: "gerr option \<times> 's \<Rightarrow> 's result" where
  "Must (None, s) = Inr s"
| "Must (Some e, s) = Inl (Panic (gerr_text e))"

definition scheme_init :: "'s scheme_ops \<Rightarrow> 's result" where
  "scheme_init ops =
     (case Must (clientgo_AddToScheme ops (NewScheme ops)) of
        Inl p \<Rightarrow> Inl p
      | Inr s \<Rightarrow> Must (AddToScheme ops s))"

section \<open>The controllers\<close>

record ('m, 'b) builder_ops =
  NewControllerManagedBy :: "'m \<Rightarrow> 'b"
  For :: "'b \<Rightarrow> string \<Rightarrow> 'b"
  Complete :: "'b \<Rightarrow> gerr option \<times> 'm"

definition TrustPolicy_SetupWithManager :: "('m, 'b) builder_ops \<Rightarrow> 'm \<Rightarrow> gerr option \<times> 'm" where
  "TrustPolicy_SetupWithManager ops mgr = Complete ops (For ops (NewControllerManagedBy ops mgr) ''TrustPolicy'')"

definition TrustStore_SetupWithManager :: "('m, 'b) builder_ops \<Rightarrow> 'm \<Rightarrow> gerr option \<times> 'm" where
  "TrustStore_SetupWithManager ops mgr = Complete ops (For ops (NewControllerManagedBy ops mgr) ''TrustStore'')"

text \<open>The controller library that \<^verbatim>\<open>Setup\<close> is given, with the reconcilers set up by these methods.\<close>

definition with_controllers :: "('m, 'b) builder_ops \<Rightarrow> ('c, 'm) ctrl_lib \<Rightarrow> ('c, 'm) ctrl_lib" where
  "with_controllers ops lib =
     lib\<lparr> ctl_SetupPolicies := TrustPolicy_SetupWithManager ops, ctl_SetupStores := TrustStore_SetupWithManager ops \<rparr>"

section \<open>What the libraries document\<close>

text \<open>A registered type keeps its group, version and kind; the kind is the name of the type; a scheme
  builder applies its functions in turn and stops at the first error.\<close>

definition scheme_laws :: "'s scheme_ops \<Rightarrow> bool" where
  "scheme_laws ops \<longleftrightarrow>
     (\<forall>s v ts t. t \<in> set ts \<longrightarrow> (v, t) \<in> set (ObjectKinds ops (AddKnownTypes ops s v ts) t))
     \<and> (\<forall>s v t. set (ObjectKinds ops s t) \<subseteq> set (ObjectKinds ops (AddToGroupVersion ops s v) t))
     \<and> (\<forall>s. builder_AddToScheme ops [] s = (None, s))
     \<and> (\<forall>f fs s. builder_AddToScheme ops (f # fs) s =
          (case f s of (Some e, s1) \<Rightarrow> (Some e, s1) | (None, s1) \<Rightarrow> builder_AddToScheme ops fs s1))"

text \<open>A controller can be built for a type that the scheme of its manager knows.\<close>

definition builder_laws :: "'s scheme_ops \<Rightarrow> ('m \<Rightarrow> 's) \<Rightarrow> ('m, 'b) builder_ops \<Rightarrow> bool" where
  "builder_laws sops scheme_of ops \<longleftrightarrow>
     (\<forall>m t. ObjectKinds sops (scheme_of m) t \<noteq> [] \<longrightarrow>
        (\<exists>m'. Complete ops (For ops (NewControllerManagedBy ops m) t) = (None, m') \<and> scheme_of m' = scheme_of m))"

lemma scheme_init_ok:
  assumes "scheme_laws ops" and "clientgo_AddToScheme ops (NewScheme ops) = (None, s0)"
  obtains s where "scheme_init ops = Inr s"
    and "\<forall>t \<in> {''TrustPolicy'', ''TrustPolicyList'', ''TrustStore'', ''TrustStoreList''}. (GroupVersion, t) \<in> set (ObjectKinds ops s t)"
proof -
  let ?ts = "[''TrustPolicy'', ''TrustPolicyList'', ''TrustStore'', ''TrustStoreList'']"
  let ?s1 = "AddKnownTypes ops s0 GroupVersion ?ts"
  let ?s = "AddToGroupVersion ops ?s1 GroupVersion"
  have one: "(GroupVersion, t) \<in> set (ObjectKinds ops ?s1 t)" if "t \<in> set ?ts" for t
    using assms(1) that unfolding scheme_laws_def by blast
  have two: "set (ObjectKinds ops ?s1 t) \<subseteq> set (ObjectKinds ops ?s t)" for t
    using assms(1) unfolding scheme_laws_def by blast
  have "scheme_init ops = Inr ?s"
    using assms by (simp add: scheme_init_def AddToScheme_def SchemeBuilder_def addKnownTypes_def scheme_laws_def Let_def)
  moreover have "\<forall>t \<in> set ?ts. (GroupVersion, t) \<in> set (ObjectKinds ops ?s t)" using subsetD [OF two one] by blast
  ultimately show ?thesis by (intro that) simp_all
qed

lemma controllers_created:
  assumes "builder_laws sops scheme_of bops" and "ObjectKinds sops (scheme_of m) ''TrustPolicy'' \<noteq> []"
    and "ObjectKinds sops (scheme_of m) ''TrustStore'' \<noteq> []"
  obtains m1 m2 where "TrustPolicy_SetupWithManager bops m = (None, m1)" and "TrustStore_SetupWithManager bops m1 = (None, m2)"
proof -
  have build: "\<exists>m'. Complete bops (For bops (NewControllerManagedBy bops x) t) = (None, m') \<and> scheme_of m' = scheme_of x"
    if "ObjectKinds sops (scheme_of x) t \<noteq> []" for x t
    using assms(1) that unfolding builder_laws_def by blast
  obtain m1 where m1: "Complete bops (For bops (NewControllerManagedBy bops m) ''TrustPolicy'') = (None, m1)" "scheme_of m1 = scheme_of m"
    using build [OF assms(2)] by blast
  obtain m2 where "Complete bops (For bops (NewControllerManagedBy bops m1) ''TrustStore'') = (None, m2)"
    using build [of m1 "''TrustStore''"] assms(3) m1(2) by auto
  with m1(1) show ?thesis
    by (intro that [of m1 m2]) (simp_all add: TrustPolicy_SetupWithManager_def TrustStore_SetupWithManager_def)
qed

text \<open>
  The types that the program gives to the API client, two resources and their lists, are known under
  the group and version of the custom resource definitions; with a manager of this scheme \<^verbatim>\<open>Setup\<close> can
  create both controllers, and fails only if the configuration, the manager or a health check does.
\<close>

theorem resources_registered:
  assumes "scheme_laws sops" and "clientgo_AddToScheme sops (NewScheme sops) = (None, s0)" and "builder_laws sops scheme_of bops"
    and "\<And>cfg opts m. ctl_NewManager lib cfg opts = Inr m \<Longrightarrow> scheme_init sops = Inr (scheme_of m)"
  shows "\<exists>s. scheme_init sops = Inr s
    \<and> (\<forall>t \<in> {''TrustPolicy'', ''TrustPolicyList'', ''TrustStore'', ''TrustStoreList''}. (GroupVersion, t) \<in> set (ObjectKinds sops s t))
    \<and> (\<forall>cfg m0. ctl_GetConfig lib = Inr cfg
         \<longrightarrow> ctl_NewManager lib cfg \<lparr> BindAddress = metricsAddr, HealthProbeBindAddress = probeAddr,
                LeaderElection = elect, LeaderElectionID = ''d94abea7.nirmata.io'' \<rparr> = Inr m0
         \<longrightarrow> (\<forall>m n. fst (ctl_AddHealthzCheck lib m n) = None \<and> fst (ctl_AddReadyzCheck lib m n) = None)
         \<longrightarrow> (\<exists>crd. Setup (with_controllers bops lib) metricsAddr probeAddr elect = Inr crd))"
proof -
  obtain s where s: "scheme_init sops = Inr s"
    and known: "\<forall>t \<in> {''TrustPolicy'', ''TrustPolicyList'', ''TrustStore'', ''TrustStoreList''}. (GroupVersion, t) \<in> set (ObjectKinds sops s t)"
    by (rule scheme_init_ok [OF assms(1,2)])
  have "\<exists>crd. Setup (with_controllers bops lib) metricsAddr probeAddr elect = Inr crd"
    if cfg: "ctl_GetConfig lib = Inr cfg"
      and m0: "ctl_NewManager lib cfg \<lparr> BindAddress = metricsAddr, HealthProbeBindAddress = probeAddr,
                LeaderElection = elect, LeaderElectionID = ''d94abea7.nirmata.io'' \<rparr> = Inr m0"
      and checks: "\<forall>m n. fst (ctl_AddHealthzCheck lib m n) = None \<and> fst (ctl_AddReadyzCheck lib m n) = None" for cfg m0
  proof -
    have "scheme_of m0 = s" using assms(4) [OF m0] s by simp
    then obtain m1 m2 where c: "TrustPolicy_SetupWithManager bops m0 = (None, m1)" "TrustStore_SetupWithManager bops m1 = (None, m2)"
      using controllers_created [OF assms(3), of m0] known by (metis empty_iff empty_set insertI1 insertI2)
    obtain m3 where h: "ctl_AddHealthzCheck lib m2 ''healthz'' = (None, m3)" using checks by (metis prod.collapse)
    obtain m4 where "ctl_AddReadyzCheck lib m3 ''readyz'' = (None, m4)" using checks by (metis prod.collapse)
    with cfg m0 c h show ?thesis by (simp add: Setup_def with_controllers_def Let_def)
  qed
  with s known show ?thesis by blast
qed

text \<open>A scheme as a list of registrations, and a manager that is its scheme.\<close>

definition demo_scheme :: "(string \<times> gv) list scheme_ops" where
  "demo_scheme = \<lparr> NewScheme = [], AddKnownTypes = (\<lambda>s v ts. map (\<lambda>t. (t, v)) ts @ s), AddToGroupVersion = (\<lambda>s v. s),
     clientgo_AddToScheme = (\<lambda>s. (None, (''Secret'', \<lparr> gv_Group = [], gv_Version = ''v1'' \<rparr>) # s)),
     builder_AddToScheme = rec_list (Pair None) (\<lambda>f fs go s. case f s of (Some e, s1) \<Rightarrow> (Some e, s1) | (None, s1) \<Rightarrow> go s1),
     ObjectKinds = (\<lambda>s t. map (\<lambda>(x, v). (v, x)) (filter (\<lambda>(x, v). x = t) s)) \<rparr>"

definition demo_builder :: "((string \<times> gv) list, (string \<times> gv) list) builder_ops" where
  "demo_builder = \<lparr> NewControllerManagedBy = id, For = (\<lambda>b t. b), Complete = Pair None \<rparr>"

definition demo_manager :: "(unit, (string \<times> gv) list) ctrl_lib" where
  "demo_manager = \<lparr> ctl_GetConfig = Inr (), ctl_NewManager = (\<lambda>c opts. scheme_init demo_scheme), ctl_SetupPolicies = (\<lambda>m. (None, m)),
     ctl_SetupStores = (\<lambda>m. (None, m)), ctl_AddHealthzCheck = (\<lambda>m n. (None, m)), ctl_AddReadyzCheck = (\<lambda>m n. (None, m)) \<rparr>"

theorem resources_registered_witness:
  "\<exists>crd. Setup (with_controllers demo_builder demo_manager) '':8080'' '':8081'' False = Inr crd"
proof -
  have laws: "scheme_laws demo_scheme" "builder_laws demo_scheme id demo_builder"
    by (auto simp: scheme_laws_def builder_laws_def demo_scheme_def demo_builder_def split: prod.splits option.splits)
  obtain s0 where s0: "clientgo_AddToScheme demo_scheme (NewScheme demo_scheme) = (None, s0)" by (simp add: demo_scheme_def)
  obtain s where s: "scheme_init demo_scheme = Inr s" by (rule scheme_init_ok [OF laws(1) s0])
  have mgr: "scheme_init demo_scheme = Inr (id m) \<longleftrightarrow> ctl_NewManager demo_manager cfg opts = Inr m" for cfg opts m
    by (simp add: demo_manager_def)
  show ?thesis
    using resources_registered [where lib = demo_manager and metricsAddr = "'':8080''" and probeAddr = "'':8081''" and elect = False,
        OF laws(1) s0 laws(2) iffD2 [OF mgr]] s
    by (simp add: demo_manager_def)
qed

end
