(* ===== verification/Spec2Isabelle.thy ===== *)
theory Spec2Isabelle
  imports Overlap Deepcopy Flags Convergence Document Leader Registration
begin

text \<open>
  Verification of notation-aws-verifier, a service that Kyverno calls at admission time to have
  the signatures and attestations of container images checked with notation.

  \<^bold>\<open>The program.\<close> \<^verbatim>\<open>main.go\<close> reads the options, installs the notation plugins (\<^verbatim>\<open>internal/setup\<close>), starts two
  controllers (\<^verbatim>\<open>internal/kubenotation\<close>) that write TrustPolicy and TrustStore objects of the API
  server as files below the notation directory, constructs the verifier (\<^verbatim>\<open>internal/verifier\<close>), which
  holds one notation verifier per policy file (\<^verbatim>\<open>internal/notationfactory\<close>), a cache of verdicts
  (\<^verbatim>\<open>internal/cache\<close>) and a cache of registry credentials, and serves \<^verbatim>\<open>/checkimages\<close>. A controller that
  changed a file puts a token into a channel; the loop of \<^verbatim>\<open>run\<close> takes it, reloads the policy files
  and clears the verdict cache.

  \<^bold>\<open>Theories and what they model.\<close> A Go struct is a record with its fields, a method is a function
  that takes and returns the state it may change, an error is \<open>Inl (Err text)\<close> and a panic
  \<open>Inl (Panic text)\<close> of the result type, a Go map is an association list whose iteration order is a
  parameter, an \<^verbatim>\<open>int64\<close> is an \<open>int\<close> with \<open>int64\<close> around arithmetic that can wrap.

  \<^item> \<open>Prelude\<close>, \<open>Types\<close>: results, maps and their iteration orders, the string functions the code uses,
    the locale \<open>frame\<close> (what a sequence of calls leaves unchanged); the structs of
    \<^verbatim>\<open>internal/types/types.go\<close>.
  \<^item> \<open>Request\<close>, \<open>Response\<close>: \<^verbatim>\<open>processRequestData\<close> and the methods of \<^verbatim>\<open>responseStruct\<close>
    (\<^verbatim>\<open>internal/verifier/request.go\<close>, \<^verbatim>\<open>response.go\<close>). Shown: exactly which requests are accepted; the
    attestation list is what the matching entries require, for every iteration order.
  \<^item> \<open>Cache\<close>, \<open>Keychain\<close>: the verdict cache over an arbitrary store with the laws of \<^verbatim>\<open>ristretto\<close> (locale
    \<open>verdict_cache\<close>, interpreted for images and for attestations) and the credential cache of
    \<^verbatim>\<open>keychain.go\<close> (locale \<open>credential_source\<close>). Shown: a hit was inserted under the same key; the
    credential cache is bounded and answers only with fresh credentials.
  \<^item> \<open>Filesystem\<close>, \<open>Files\<close>, \<open>Directory\<close>: a disk with directories, files and symbolic links, system calls
    that may fail at any point, a history of the states of the disk; \<^verbatim>\<open>controller/files.go\<close>. Shown:
    a file is replaced atomically at every moment of the history.
  \<^item> \<open>Factory\<close>: \<^verbatim>\<open>internal/notationfactory\<close>. Shown: a refresh gives exactly the verifiers of the
    policy files, or changes nothing.
  \<^item> \<open>External\<close>, \<open>Auth\<close>, \<open>References\<close>, \<open>Verify\<close>: the libraries and services of the request path as one
    record of functions, and \<^verbatim>\<open>auth.go\<close> and \<^verbatim>\<open>verify.go\<close>. Shown: a positive answer is earned, image by
    image and attestation by attestation; an answer is all or nothing; notation is only asked
    about digests; in which ways a cached verdict differs from a fresh one.
  \<^item> \<open>Handler\<close>, \<open>Construct\<close>: \<^verbatim>\<open>client.go\<close> and \<^verbatim>\<open>newVerifier\<close>: the endpoint, token review, options,
    construction with retries, reload, and \<^verbatim>\<open>Stop\<close> with its waiting for the informers. Shown: a refusal
    changes nothing, and no body is decoded before its sender is authenticated; a reload is all or
    nothing; what a new verifier consists of.
  \<^item> \<open>Json\<close>, \<open>Policies\<close>, \<open>Stores\<close>, \<open>Reconcile\<close>: the JSON text of a policy file, the two directory syncs
    and the two \<^verbatim>\<open>Reconcile\<close> methods (\<^verbatim>\<open>internal/kubenotation/controller\<close>, \<^verbatim>\<open>api/v1alpha1\<close>). The code of the
    two \<^verbatim>\<open>Reconcile\<close> methods is the same up to the object, and \<open>reconcileWith\<close> is that code; the locale
    \<open>reconciler\<close> states what it needs of a sync and is interpreted for both. Shown: after a sync
    the directory is the one the live, validly named objects of the API server ask for
    (\<open>policies_on_disk\<close> and \<open>stores_on_disk\<close>, written without the code), whatever failed before; nothing
    outside is touched; a finalizer is released only after the file is gone; when a change goes
    unnoticed.
  \<^item> \<open>Convergence\<close>, \<open>Document\<close>: the sync of the trust stores reaches its goal when nothing fails; a reader
    for JSON texts, written independently of the writer, finds in a policy file the policy it was
    written for.
  \<^item> \<open>Registration\<close>: \<^verbatim>\<open>groupversion_info.go\<close>, the \<^verbatim>\<open>init\<close> of \<^verbatim>\<open>manager.go\<close> and \<^verbatim>\<open>SetupWithManager\<close>. Shown: the types
    the program gives to the API client are registered, and \<^verbatim>\<open>Setup\<close> can create the controllers.
  \<^item> \<open>Deepcopy\<close>: \<^verbatim>\<open>zz_generated.deepcopy.go\<close> over an explicit store of arrays and maps. Shown: a copy
    has the same value and shares no memory with the original.
  \<^item> \<open>Plugins\<close>: \<^verbatim>\<open>internal/setup\<close>, with the confinement of \<^verbatim>\<open>os.Root\<close>. Shown: what is installed.
  \<^item> \<open>Flags\<close>, \<open>Config\<close>: the command line (\<^verbatim>\<open>parseFlags\<close> of \<^verbatim>\<open>main.go\<close> over the parser of package \<^verbatim>\<open>flag\<close>) and
    \<^verbatim>\<open>utils.go\<close>. Shown: how flags are read and that they reach the verifier unchanged.
  \<^item> \<open>Server\<close>, \<open>Process\<close>: \<^verbatim>\<open>run\<close> of \<^verbatim>\<open>main.go\<close> and \<^verbatim>\<open>kubenotation.Setup\<close>: start-up, the TLS certificate, and
    the running process as the relation \<open>process_step\<close> (requests, reloads, reconciles, evictions,
    failures, signals, exit) with an invariant by rule induction: every verdict in the cache was
    earned under the policies in force. The end of \<^verbatim>\<open>run\<close> is \<open>shutdown\<close>, over servers whose connections may
    stay active forever. Shown: it returns in time, with the error the loop ended for.
  \<^item> \<open>Overlap\<close>: the handler taken apart where a request has picked its verifier, and the relation
    \<open>crowd_step\<close> of a process with any number of requests in flight. Shown: the two parts make up the
    handler; every verdict was earned under a policy that has been in force. In \<open>settled_step\<close> no reload
    changes the verifiers while a request is in flight, and then every verdict was earned under the
    policy in force; \<open>answered\<close> is the whole handler over such a run. What happens otherwise: the
    verdict of a request in flight outlives the reload.
  \<^item> \<open>Leader\<close>: \<^verbatim>\<open>controller.go\<close>, the leader election callback of \<^verbatim>\<open>run\<close> and the secret informers of
    \<^verbatim>\<open>utils.go\<close>. The statements of callbacks and goroutines are the steps of \<open>callback_step\<close>, terms of
    leadership those of \<open>leader_step\<close>. Shown: the wait group joins the controllers; after the shutdown
    every callback returns; a lost term keeps its controller running.
  \<^item> this theory: the properties that span the components, from the command line and the API
    server to the answer of the endpoint.

  \<^bold>\<open>Parameters.\<close> Code outside the repository is a parameter: \<open>ext\<close> (registry client, notation, Kyverno's
  condition evaluator, image names), \<open>http_ext\<close> (token review, JSON of requests and responses),
  \<open>notation_lib\<close>, \<open>ristretto_ops\<close>, \<open>client\<close> (API server and \<^verbatim>\<open>controllerutil\<close>), \<open>ctrl_lib\<close>, \<open>boot\<close>, \<open>run_ext\<close>,
  \<open>cert_lib\<close>, \<open>informer_lib\<close>, \<open>scheme_ops\<close>, \<open>builder_ops\<close>.
  What is assumed of one is a named predicate: \<open>store_laws\<close> (a store returns what was put under the
  key or nothing, and nothing once cleared; and \<^verbatim>\<open>json.Marshal\<close> encodes different conditions differently,
  which holds for conditions decoded from JSON, whose strings are UTF-8), \<open>starts_empty\<close>, \<open>prints_digests\<close>
  (how oras prints a reference to a digest in a repository, that a parsed reference has a repository,
  and that what the registry client returns is a digest), \<open>retries\<close>, \<open>range_order\<close> (an iteration visits
  each key once), \<open>versioned\<close> (a resource version identifies the content of a secret), \<open>wf_names\<close>
  and its variants (directory entries are single path elements), \<open>scheme_laws\<close>, \<open>builder_laws\<close>, \<open>informs\<close>.
  \<open>keeps_entries\<close>, a store that drops nothing, is assumed only where a theorem says what a cached
  verdict does to later requests, never for a guarantee.
  \<open>admissible\<close> and \<open>well_formed\<close> restrict requests to names without a semicolon, which the cache keys
  need (see \<open>image_key_collision\<close> for what happens otherwise).

  \<^bold>\<open>Bounds.\<close> Symbolic links are followed 41 times, as one more than the 40 links Linux follows before
  it fails; no theorem needs more than one step of it. \<open>strip_rounds\<close> of the trimming functions runs
  once per byte, which its lemma shows to be enough. The JSON reader of \<open>Document\<close> has the length of the
  text as its fuel, which \<open>need_length\<close> shows to be enough. All other recursion is structural or over a
  list that the code ranges over.

  \<^bold>\<open>Concurrency.\<close> In \<open>process_step\<close> a request, a reload and a reconcile are one step each; in \<open>crowd_step\<close> a
  request is two steps, with anything between them. The verification of one request is never
  interrupted in the model; its writes to the shared cache are the verdicts the invariant is about,
  one at a time, so an interruption between them adds nothing. What overlapping requests can do
  to the clearing of the cache is \<open>stale_verdict_after_reload\<close>; that every answer is the verdict of the
  policy in force (\<open>served_only_verified\<close>) therefore assumes that no reload changes the verifiers while
  a request is in flight, and without this assumption it is the verdict of a policy that has been in
  force (\<open>overlapping_requests_vouched\<close>). The credential cache is modelled with
  the lock released between its two critical sections.

  \<^bold>\<open>Not modelled.\<close> Logging except for the lines of the token review and of the shutdown; \<^verbatim>\<open>waitForInformers\<close>,
  which only logs; the time limits of single connections; symbolic links on the way to a file:
  \<^verbatim>\<open>os.MkdirAll\<close> goes through a link to a directory where the model reports an error, so the statements
  about the syncs and the installation of plugins are about disks without such links (\<open>no_links\<close>,
  \<open>store_disk\<close>, and the hypothesis of \<open>copyTree_installs\<close>); modes of directories; the JSON decoder of requests, which is \<^verbatim>\<open>encoding/json\<close>. Code of
  other modules (notation, Kyverno, the Kubernetes libraries, \<^verbatim>\<open>ristretto\<close>, the registry clients) is
  not part of the repository and enters only through the parameters above.
\<close>

section \<open>Properties\<close>

text \<open>
  C1. End to end, from the command line on, and with any number of requests in flight at the same time:
  if no reload changes the verifiers while a request is in flight, and the names in the requests
  contain no semicolon, then whatever requests, reloads, controller syncs, evictions and failures
  a process has gone through since it started, a request is answered 200 only if it is a POST with
  a token of a user that the command line allows (unless it switched the review off), and its body
  decodes to a valid request for which the verifier of its trust policy that is in force when the
  answer is decided accepted every selected image and every attestation required of it, in this
  request or in an earlier one since that verifier was loaded; and the body of the answer is the
  encoding of patches that pin these images to the accepted digests.
\<close>

theorem served_only_verified:
  assumes "startup rx opts env s dirs = (Inr st, s1, dirs1)" and "run_ok rx"
    and "(settled_step E lib dir pcl scl quote)\<^sup>*\<^sup>* (crowd_of (serving st s2)) c0" and "ext \<in> E" and "well_formed hx ext r"
    and "answered (settled_step E lib dir pcl scl quote) hx ext r c0 c (Inr resp)" and "Status resp = 200"
  shows "Method r = ''POST'' \<and> (o_reviewKyvernoToken opts \<longrightarrow> authorized_by opts hx (AuthorizationHeader r))
    \<and> (\<exists>rd vr rdata nv vs.
         decode_RequestData hx (MaxBytesReader (Body r) maxRequestBodyBytes) = Inr rd \<and> valid_request rd
         \<and> processRequestData (fmt_attestation hx) rd = Inr vr
         \<and> map_of (verifiers (notationVerifierFactory (p_verifier (cr_process c)))) (getTrustPolicy (getenv ext) vr) = Some nv
         \<and> all_verified E ext nv vr vs
         \<and> Results rdata = patches ext vs \<and> marshal_ResponseData hx rdata = Inr (ResponseBody resp))"
proof -
  have "settled_inv E (crowd_of (serving st s2))"
    using process_inv_start [OF assms(1,2)] by (simp add: settled_inv_def crowd_of_def)
  note inv = settled_inv_reachable [OF assms(3) this] and conf = settled_conf [OF assms(3) this]
  from assms(6) show ?thesis
  proof cases
    case refused
    with assms(7) admit_refuses show ?thesis by metis
  next
    case (no_verifier vr e)
    with assms(7) failed_refuses show ?thesis by metis
  next
    case (finished vr nv x v')
    let ?fl = "\<lparr> fl_hx = hx, fl_ext = ext, fl_request = vr, fl_verifier = nv \<rparr>" and ?v = "p_verifier (cr_process c)"
    have "settled_inv E (c0\<lparr> cr_flights := ?fl # cr_flights c0 \<rparr>)"
      using inv arrived_ok [OF finished(2) assms(5,4) finished(3)] by (simp add: settled_inv_def)
    from settled_inv_reachable [OF finished(4) this] finished(5,6)
    have fl: "flight_ok E (in_force ?v) ?fl" "vouched E (in_force ?v) (v_cache ?v)"
      using process_inv_earned [of E "cr_process c"] by (auto simp: settled_inv_def)
    from answer_200 [OF sym [OF finished(1)] assms(7)] obtain rdata where x: "x = Inr rdata" "Verified rdata"
      and m: "marshal_ResponseData hx rdata = Inr (ResponseBody resp)" by blast
    have "resume (fl_ext ?fl) (fl_request ?fl) (fl_verifier ?fl) ?v = (x, v')" using finished(7) by simp
    from resume_sound [OF fl this] x obtain vs where vs: "all_vouched E (in_force ?v) ext vr vs" "Results rdata = patches ext vs" by auto
    have nv: "map_of (verifiers (notationVerifierFactory ?v)) (getTrustPolicy (getenv ext) vr) = Some nv"
      using fl(1) by (simp add: flight_ok_def in_force_def)
    have "reviewToken (p_verifier (cr_process c0)) = o_reviewKyvernoToken opts"
      and "authorized hx (p_verifier (cr_process c0)) (AuthorizationHeader r) \<longleftrightarrow> authorized_by opts hx (AuthorizationHeader r)"
      using authorized_conf [OF assms(1,2)] conf by (simp_all add: crowd_of_def serving_def)
    with admitted [OF finished(2)] nv vouched_in_force [OF vs(1) nv] vs(2) m show ?thesis by metis
  qed
qed

definition demo_run_options :: options where
  "demo_run_options = demo_options\<lparr> o_local := True, o_allowedUsers := ''kyverno'' \<rparr>"

definition old_ext :: "(string, string) ext" where
  "old_ext = demo_ext\<lparr> notation_Verify :=
     (\<lambda>dbg n repo opts. if n = ''old'' then Inr (after_at (ArtifactReference opts), []) else Inl (Err ''signature'')) \<rparr>"

definition demo_running :: "(string, string, (string \<times> cache_entry) list) verifier" where
  "demo_running = (demo_verifier [(''tp'', ''old'')])
     \<lparr> providerKeychain := Some (newCachingKeychain (\<lambda>i r. Inl (Err [])) demo_from providerCredentialsTTL) \<rparr>"

lemma demo_factory:
  "RefreshVerifiers demo_lib calm demo_os [''n''] f = (None, \<lparr> verifiers = [(''tp'', ''old'')] \<rparr>)"
  by (cases f) (simp add: map_set_def TrimSuffix_def RefreshVerifiers_def os_ReadDir_def calm_def demo_os_def is_dir_def children_def
        loadTrustPolicy_def os_Lstat_def os_Open_def read_node_def numeral_eq_Suc demo_lib_def
        filepath_Join_def Ext_def AfterLast_def LastIndexByte_def)

lemma demo_conf:
  "applyAll (verifierOptions demo_run_options 3600000000000 (\<lambda>i r. Inl (Err []))) zero_setup =
     \<lparr> imagePullSecrets = [], insecureRegistry = False, pluginConfigMap = [], maxSignatureAttempts = 30,
       maxCacheSize = 1000, v_useCache = True, reviewToken = True, tokenReviewAudiences = [],
       maxCacheTTL = 3600000000000, debug = False, allowedUsers = [''kyverno''], rawKeychain = Some (\<lambda>i r. Inl (Err [])) \<rparr>"
proof -
  have "TrimSpace ''kyverno'' = ''kyverno''" "TrimSpace [] = []" by (simp_all add: trim_eval)
  then have "splitList ''kyverno'' = [''kyverno'']" "splitList [] = []" by (simp_all add: splitList_def)
  then show ?thesis
    by (simp add: applyAll_def verifierOptions_def zero_setup_def demo_run_options_def demo_options_def
      WithImagePullSecrets_def WithInsecureRegistry_def WithPluginConfig_def WithMaxSignatureAttempts_def
      WithEnableDebug_def WithProviderKeychain_def WithTokenReviewEnabled_def WithTokenReviewAudiences_def
      WithCacheEnabled_def WithMaxCacheSize_def WithMaxCacheTTL_def WithAllowedUsers_def)
qed

lemma demo_NewVerifier:
  "NewVerifier retry_once demo_attempt demo_lib [''n''] (verifierOptions demo_run_options 3600000000000 (\<lambda>i r. Inl (Err [])))
     = Inr demo_running"
  by (simp add: NewVerifier_def retry_once_def demo_attempt_def newVerifier_def demo_boot_def demo_factory New_cache_def
      demo_conf Let_def WithCacheEnabled_cache_def WithMaxSize_def WithTTLDuration_def list_store_def demo_running_def
      demo_verifier_def verifier_conf.defs cache_conf.defs demo_cache_def defaultTTL_def defaultMaxSize_def)

definition demo_st :: "(string, string, string, (string \<times> cache_entry) list) started" where
  "demo_st = \<lparr> st_verifier = demo_running, st_servers = servers_of demo_run_options,
     st_changes = \<lparr> chan_cap = 1, chan_len = 0 \<rparr>, st_manager = ''cfg'' \<rparr>"

lemma demo_started: "startup demo_rx demo_run_options calm demo_os demo_dirs = (Inr demo_st, demo_os, demo_dirs)"
proof -
  have dir: "notation_dir (\<lambda>x. if x = ''NOTATION_DIR'' then ''/n'' else []) = [''n'']"
    by code_simp
  have "cacheTTL (\<lambda>i. []) demo_run_options = Inr 3600000000000" and "o_local demo_run_options"
    by (simp_all add: cacheTTL_def demo_run_options_def demo_options_def time_Second_def int64_def)
  then show ?thesis
    by (simp add: startup_def connect_def demo_rx_def dir demo_NewVerifier Setup_def demo_ctrl_def Let_def demo_st_def)
qed

lemma demo_served:
  "\<exists>v'. HandleCheckImages demo_hx old_ext (demo_http ''Bearer t'') demo_running
     = (Inr \<lparr> Status = 200, ContentType = ''application/json'', ResponseBody = ''r/app@sha256:1'' \<rparr>, v')"
proof -
  have trim: "TrimSpace ''t'' = ''t''" by (simp add: trim_eval)
  have auth: "fst (authenticate demo_hx demo_running ''Bearer t'') = Inr (200, [])" and rt: "reviewToken demo_running"
    by (simp_all add: authenticate_def reviewOutcome_def CutPrefix_def trim demo_hx_def isAllowed_def demo_running_def demo_verifier_def)
  have lim: "MaxBytesReader ''{}'' maxRequestBodyBytes = (''{}'', None)"
    by (simp add: MaxBytesReader_def maxRequestBodyBytes_def)
  have dec: "decode_RequestData demo_hx (''{}'', None) = Inr demo_rd"
    by (simp add: demo_hx_def)
  have run: "\<exists>v'. respond demo_hx old_ext demo_rd demo_running
     = (Inr \<lparr> Status = 200, ContentType = ''application/json'', ResponseBody = ''r/app@sha256:1'' \<rparr>, v')"
    by (simp add: respond_def processRequestData_def demo_rd_def demo_hx_def demo_running_def old_ext_def demo_request_eval)
  show ?thesis
    using run by (simp add: HandleCheckImages_def demo_http_def auth rt lim dec)
qed

lemma demo_well_formed: "well_formed demo_hx old_ext (demo_http h)"
proof -
  have "admissible old_ext vr = admissible demo_ext vr" and "order old_ext = order demo_ext" for vr
    by (simp_all add: admissible_def old_ext_def)
  with demo_rd_ok [of h] demo_admissible(3) show ?thesis by (simp add: well_formed_def)
qed

theorem served_only_verified_witness:
  "\<exists>c resp. answered (settled_step {old_ext} demo_lib [''n''] demo_client demo_client id) demo_hx old_ext (demo_http ''Bearer t'')
        (crowd_of (serving demo_st demo_os)) c (Inr resp)
     \<and> Status resp = 200 \<and> authorized_by demo_run_options demo_hx ''Bearer t''
     \<and> map_of (verifiers (notationVerifierFactory (p_verifier (cr_process c)))) ''tp'' \<noteq> None"
proof -
  let ?step = "settled_step {old_ext} demo_lib [''n''] demo_client demo_client id"
  let ?c = "crowd_of (serving demo_st demo_os)"
  let ?resp = "\<lparr> Status = 200, ContentType = ''application/json'', ResponseBody = ''r/app@sha256:1'' \<rparr>"
  have c: "p_verifier (cr_process ?c) = demo_running" "\<forall>e. p_phase (cr_process ?c) \<noteq> Exited e"
    by (simp_all add: crowd_of_def serving_def demo_st_def)
  from demo_served obtain v' where "HandleCheckImages demo_hx old_ext (demo_http ''Bearer t'') demo_running = (Inr ?resp, v')"
    by (elim exE) (rule that)
  then have "HandleCheckImages demo_hx old_ext (demo_http ''Bearer t'') (p_verifier (cr_process ?c)) = (Inr ?resp, v')"
    unfolding c(1) .
  from answered_at_once [OF this c(2), of ?step] obtain c' where ans: "answered ?step demo_hx old_ext (demo_http ''Bearer t'') ?c c' (Inr ?resp)"
    by blast
  note P = served_only_verified [OF demo_started demo_run_ok rtranclp.rtrancl_refl [of ?step ?c] _ demo_well_formed ans]
  have "authorized_by demo_run_options demo_hx ''Bearer t''"
    using P by (simp add: demo_http_def demo_run_options_def demo_options_def)
  moreover obtain rd vr nv where "decode_RequestData demo_hx (MaxBytesReader (Body (demo_http ''Bearer t'')) maxRequestBodyBytes) = Inr rd"
    and vr: "processRequestData (fmt_attestation demo_hx) rd = Inr vr"
    and nv: "map_of (verifiers (notationVerifierFactory (p_verifier (cr_process c')))) (getTrustPolicy (getenv old_ext) vr) = Some nv"
    using P by fastforce
  then have "rd = demo_rd" by (simp add: demo_hx_def split: prod.splits if_splits)
  then have "getTrustPolicy (getenv old_ext) vr = ''tp''"
    using processRequestData_fields [OF vr] by (simp add: getTrustPolicy_def demo_rd_def demo_request_def)
  ultimately show ?thesis using ans nv by (intro exI [of _ c'] exI [of _ ?resp]) simp
qed

section \<open>From the API server to the verifiers in force\<close>

text \<open>The verifier that notation builds from the file written for a trust policy.\<close>

definition verifier_for :: "('d, 'n) notation_lib \<Rightarrow> TrustPolicy \<Rightarrow> 'n option" where
  "verifier_for lib p =
     (case policy_file (tp_Spec p) of
        Inl e \<Rightarrow> None
      | Inr c \<Rightarrow>
          (case decode_policy lib c of
             Inl e \<Rightarrow> None
           | Inr doc \<Rightarrow> (case verifier_New lib doc of Inl e \<Rightarrow> None | Inr v \<Rightarrow> Some v)))"

text \<open>After a reload from a directory that matches \<open>desired\<close>, the verifiers are those of the desired files.\<close>

lemma reload_desired:
  assumes "policies_match dir desired (disk s)" and "RefreshVerifiers lib env s dir f0 = (None, f)" and "wf_names (disk s)"
  shows "(\<forall>nv. map_of (verifiers f) tp = Some nv \<longrightarrow> (\<exists>c doc. map_of desired (tp @ ''.json'') = Some c
        \<and> decode_policy lib c = Inr doc \<and> verifier_New lib doc = Inr nv))
    \<and> (map_of desired (tp @ ''.json'') \<noteq> None \<longrightarrow> map_of (verifiers f) tp \<noteq> None)"
proof (cases "map_of desired (tp @ ''.json'')")
  case None
  then have "map_of (disk s) (dir @ [tp @ ''.json'']) \<in> {None, Some Dir}"
    using assms(1) Ext_json [of tp] unfolding policies_match_def by blast
  then have "policy_verifier lib (disk s) dir tp = None" by (auto simp: policy_verifier_def)
  with RefreshVerifiers_ok [OF assms(2,3), of tp] None show ?thesis by simp
next
  case (Some c)
  then obtain m where "map_of (disk s) (dir @ [tp @ ''.json'']) = Some (File c m)"
    using assms(1) unfolding policies_match_def by blast
  with RefreshVerifiers_ok [OF assms(2,3), of tp] Some show ?thesis
    by (auto simp: policy_verifier_def split: sum.splits)
qed

text \<open>
  C3. A change of the trust policies takes effect: when a reconcile has returned no error and the
  reload that follows it succeeds, the verifiers in force are exactly those notation builds from
  the live, validly named TrustPolicy objects that the API server lists, one for each name, and no
  verdict of an earlier policy is left in the cache.
\<close>

theorem policy_change_takes_effect:
  assumes "TrustPolicy_Reconcile cl quote env ord dir req w = (Inr (), w')"
    and "range_order ord" and "policy_disk dir (disk (w_os w))" and "wf_names (disk (w_os w'))"
    and "UpdateNotationVerifier lib env' (w_os w') dir v = (None, v')" and "cache_ok (v_cache v)"
  shows "\<exists>a items. (a = w_api w \<or> (\<exists>x. a = snd (c_Update cl (w_api w) x))) \<and> c_List cl a = Inr items
    \<and> (\<forall>tp nv. map_of (verifiers (notationVerifierFactory v')) tp = Some nv \<longrightarrow>
         (\<exists>p \<in> set items. eligible quote p \<and> TrustPolicyName (tp_Spec p) = tp \<and> verifier_for lib p = Some nv))
    \<and> (\<forall>p \<in> set items. eligible quote p \<longrightarrow>
         map_of (verifiers (notationVerifierFactory v')) (TrustPolicyName (tp_Spec p)) \<noteq> None)
    \<and> (\<forall>tp ref ty cs. GetImage (v_cache v') tp ref = None \<and> \<not> GetAttestation (v_cache v') tp ref ty cs)"
proof -
  obtain a items desired where at: "api_at_sync cl req (w_api w) a"
    and l: "c_List cl a = Inr items" and d: "desiredPolicies quote items [] = Inr desired"
    and match: "policies_match dir desired (disk (w_os w'))"
    using policies.reconcile_ok [OF assms(1) [unfolded TrustPolicy_Reconcile_def] conjI [OF assms(2,3)]]
    unfolding policies_good_def by blast
  note a = api_at_sync_update [OF at]
  obtain f where r: "RefreshVerifiers lib env' (w_os w') dir (notationVerifierFactory v) = (None, f)"
    and v': "v' = v\<lparr> notationVerifierFactory := f, v_cache := Clear (v_cache v) \<rparr>"
    using assms(5) by (auto simp: UpdateNotationVerifier_def split: prod.splits option.splits)
  note files = reload_desired [OF match r assms(4)]
  have "\<exists>p \<in> set items. eligible quote p \<and> TrustPolicyName (tp_Spec p) = tp \<and> verifier_for lib p = Some nv"
    if nv: "map_of (verifiers f) tp = Some nv" for tp nv
  proof -
    obtain c doc where c: "map_of desired (tp @ ''.json'') = Some c" "decode_policy lib c = Inr doc" "verifier_New lib doc = Inr nv"
      using files nv by blast
    from desiredPolicies_source [OF d c(1)] c(2,3) show ?thesis by (auto simp: verifier_for_def)
  qed
  moreover have "map_of (verifiers f) (TrustPolicyName (tp_Spec p)) \<noteq> None" if "p \<in> set items" "eligible quote p" for p
    using files desiredPolicies_complete [OF d] that by blast
  moreover have "GetImage (v_cache v') tp ref = None \<and> \<not> GetAttestation (v_cache v') tp ref ty cs" for tp ref ty cs
    using assms(6) by (simp add: v' GetImage_Clear GetAttestation_Clear)
  ultimately show ?thesis using a l by (intro exI conjI) (auto simp: v')
qed

lemma demo_reload_run:
  "wf_names (disk (w_os (snd (TrustPolicy_Reconcile demo_client id calm in_order [''n''] ''tp'' (demo_world False)))))
   \<and> fst (UpdateNotationVerifier demo_lib calm
        (w_os (snd (TrustPolicy_Reconcile demo_client id calm in_order [''n''] ''tp'' (demo_world False)))) [''n'']
        (demo_verifier [(''tp'', ''old'')])) = None"
proof -
  have "list_all (\<lambda>(p, x). list_all plain_element p)
      (disk (w_os (snd (TrustPolicy_Reconcile demo_client id calm in_order [''n''] ''tp'' (demo_world False)))))"
    unfolding demo_reconcile_defs by code_simp
  moreover have "fst (RefreshVerifiers demo_lib calm
      (w_os (snd (TrustPolicy_Reconcile demo_client id calm in_order [''n''] ''tp'' (demo_world False)))) [''n'']
      \<lparr> verifiers = [(''tp'', ''old'')] \<rparr>) = None"
    unfolding demo_reconcile_defs demo_lib_def by code_simp
  ultimately show ?thesis
    by (auto simp: wf_names_def list_all_iff UpdateNotationVerifier_def demo_verifier_def split: prod.splits option.splits)
qed

theorem policy_change_takes_effect_witness:
  "\<exists>w' v'. TrustPolicy_Reconcile demo_client id calm in_order [''n''] ''tp'' (demo_world False) = (Inr (), w')
     \<and> UpdateNotationVerifier demo_lib calm (w_os w') [''n''] (demo_verifier [(''tp'', ''old'')]) = (None, v')
     \<and> GetImage (v_cache v') ''tp'' ''r/app:v1'' = None"
proof -
  let ?w = "snd (TrustPolicy_Reconcile demo_client id calm in_order [''n''] ''tp'' (demo_world False))"
  let ?v = "demo_verifier [(''tp'', ''old'')]"
  have run: "TrustPolicy_Reconcile demo_client id calm in_order [''n''] ''tp'' (demo_world False) = (Inr (), ?w)"
    using demo_reconcile_run by (metis prod.collapse)
  obtain v' where upd: "UpdateNotationVerifier demo_lib calm (w_os ?w) [''n''] ?v = (None, v')"
    using demo_reload_run by (metis prod.collapse)
  have "cache_ok (v_cache ?v)" by (simp add: demo_verifier_def)
  from policy_change_takes_effect [OF run range_order_in_order demo_policy_disk conjunct1 [OF demo_reload_run] upd this]
  have "GetImage (v_cache v') ''tp'' ''r/app:v1'' = None" by blast
  with run upd show ?thesis by blast
qed

section \<open>What the policy files say\<close>

text \<open>
  C4. From the API server to the text on disk and back: after a successful reconcile every policy file
  of the notation directory was written for a listed, live policy with a valid name, and reading
  its text as JSON gives that policy again, statement by statement (if its strings are UTF-8, as
  those of the API server are); every such policy has a file under its name.
\<close>

theorem reconciled_policies_read_back:
  assumes "TrustPolicy_Reconcile cl quote env ord dir req w = (Inr (), w')"
    and "range_order ord" and "policy_disk dir (disk (w_os w))"
  shows "\<exists>a items. (a = w_api w \<or> (\<exists>x. a = snd (c_Update cl (w_api w) x))) \<and> c_List cl a = Inr items
    \<and> (\<forall>n content m. Ext n = ''.json'' \<longrightarrow> map_of (disk (w_os w')) (dir @ [n]) = Some (File content m) \<longrightarrow>
         (\<exists>p \<in> set items. eligible quote p \<and> n = TrustPolicyName (tp_Spec p) @ ''.json''
            \<and> (document_text_ok (tp_Spec p) \<longrightarrow> (\<exists>d. read_policy content = Some d \<and> same_document (tp_Spec p) d))))
    \<and> (\<forall>p \<in> set items. eligible quote p \<longrightarrow>
         (\<exists>content m. map_of (disk (w_os w')) (dir @ [TrustPolicyName (tp_Spec p) @ ''.json'']) = Some (File content m)))"
proof -
  obtain a items desired where at: "api_at_sync cl req (w_api w) a"
    and l: "c_List cl a = Inr items" and d: "desiredPolicies quote items [] = Inr desired"
    and match: "policies_match dir desired (disk (w_os w'))"
    using policies.reconcile_ok [OF assms(1) [unfolded TrustPolicy_Reconcile_def] conjI [OF assms(2,3)]]
    unfolding policies_good_def by blast
  note a = api_at_sync_update [OF at]
  have files: "\<exists>m. map_of (disk (w_os w')) (dir @ [n]) = Some (File c m)" if "map_of desired n = Some c" for n c
    using match that by (simp add: policies_match_def)
  have "\<exists>p \<in> set items. eligible quote p \<and> n = TrustPolicyName (tp_Spec p) @ ''.json''
      \<and> (document_text_ok (tp_Spec p) \<longrightarrow> (\<exists>d. read_policy content = Some d \<and> same_document (tp_Spec p) d))"
    if n: "Ext n = ''.json''" and f: "map_of (disk (w_os w')) (dir @ [n]) = Some (File content m)" for n content m
  proof -
    have "map_of desired n \<noteq> None"
    proof
      assume "map_of desired n = None"
      with match n have "map_of (disk (w_os w')) (dir @ [n]) \<in> {None, Some Dir}" unfolding policies_match_def by blast
      with f show False by simp
    qed
    then obtain c where c: "map_of desired n = Some c" by blast
    with files [OF c] f desiredPolicies_source [OF d c] show ?thesis by (auto dest: policy_file_reads)
  qed
  moreover have "\<exists>content m. map_of (disk (w_os w')) (dir @ [TrustPolicyName (tp_Spec p) @ ''.json'']) = Some (File content m)"
    if "p \<in> set items" "eligible quote p" for p
    using desiredPolicies_complete [OF d, of "TrustPolicyName (tp_Spec p) @ ''.json''"] files that by blast
  ultimately show ?thesis using a l by (intro exI [of _ a] exI [of _ items]) simp
qed

theorem reconciled_policies_read_back_witness:
  "\<exists>w' (p :: TrustPolicy) content m. TrustPolicy_Reconcile demo_client id calm in_order [''n''] ''tp'' (demo_world False) = (Inr (), w')
     \<and> map_of (disk (w_os w')) [''n'', ''tp.json''] = Some (File content m) \<and> ''tp.json'' = TrustPolicyName (tp_Spec p) @ ''.json''
     \<and> (document_text_ok (tp_Spec p) \<longrightarrow> (\<exists>d. read_policy content = Some d \<and> same_document (tp_Spec p) d))"
proof -
  let ?w = "snd (TrustPolicy_Reconcile demo_client id calm in_order [''n''] ''tp'' (demo_world False))"
  have run: "TrustPolicy_Reconcile demo_client id calm in_order [''n''] ''tp'' (demo_world False) = (Inr (), ?w)"
    using demo_reconcile_run by (metis prod.collapse)
  have "case map_of (disk (w_os ?w)) [''n'', ''tp.json''] of Some (File c m) \<Rightarrow> True | _ \<Rightarrow> False"
    unfolding demo_reconcile_defs by code_simp
  then obtain content m where f: "map_of (disk (w_os ?w)) ([''n''] @ [''tp.json'']) = Some (File content m)"
    by (auto split: option.splits node.splits)
  have "Ext ''tp.json'' = ''.json''" by code_simp
  moreover obtain items where "\<forall>n content m. Ext n = ''.json'' \<longrightarrow> map_of (disk (w_os ?w)) ([''n''] @ [n]) = Some (File content m) \<longrightarrow>
         (\<exists>p \<in> set items. eligible id p \<and> n = TrustPolicyName (tp_Spec p) @ ''.json''
            \<and> (document_text_ok (tp_Spec p) \<longrightarrow> (\<exists>d. read_policy content = Some d \<and> same_document (tp_Spec p) d)))"
    using reconciled_policies_read_back [OF run range_order_in_order demo_policy_disk] by (elim exE conjE) (rule that)
  ultimately obtain p :: TrustPolicy where "''tp.json'' = TrustPolicyName (tp_Spec p) @ ''.json''"
      and "document_text_ok (tp_Spec p) \<longrightarrow> (\<exists>d. read_policy content = Some d \<and> same_document (tp_Spec p) d)"
    using f by metis
  moreover have "map_of (disk (w_os ?w)) [''n'', ''tp.json''] = Some (File content m)" using f by simp
  ultimately show ?thesis using run by blast
qed

section \<open>A request that overlaps a reload\<close>

text \<open>
  C6. What holds when requests overlap reloads, controller syncs, evictions and each other: a request
  that picked its verifier at some time and finishes at any later time answers 200 only if every
  image it selects and every attestation required of it was accepted by a verifier that has been
  in force for its trust policy since the process started; and the answer pins the accepted
  digests.
\<close>

theorem overlapping_requests_vouched:
  assumes "startup rx opts env s dirs = (Inr st, s1, dirs1)" and "run_ok rx"
    and "(crowd_step E lib dir pcl scl quote)\<^sup>*\<^sup>* (crowd_of (serving st s2)) c" and "\<forall>e. p_phase (cr_process c) \<noteq> Exited e"
    and "fl \<in> set (cr_flights c)"
    and "resume (fl_ext fl) (fl_request fl) (fl_verifier fl) (p_verifier (cr_process c)) = (x, v')"
    and "answer (fl_hx fl) x = Inr resp" and "Status resp = 200"
  shows "\<exists>rdata vs. all_vouched E (cr_past c) (fl_ext fl) (fl_request fl) vs
    \<and> Results rdata = patches (fl_ext fl) vs \<and> marshal_ResponseData (fl_hx fl) rdata = Inr (ResponseBody resp)"
proof -
  have "crowd_inv E c" using crowd_inv_reachable [OF assms(3) crowd_inv_start [OF assms(1,2)]] .
  then have "flight_ok E (cr_past c) fl" "vouched E (cr_past c) (v_cache (p_verifier (cr_process c)))"
    using assms(4,5) by (auto simp: crowd_inv_def)
  note sound = resume_sound [OF this assms(6)]
  from answer_200 [OF assms(7,8)] obtain rdata where "x = Inr rdata" "Verified rdata"
    and m: "marshal_ResponseData (fl_hx fl) rdata = Inr (ResponseBody resp)" by blast
  then obtain vs where "all_vouched E (cr_past c) (fl_ext fl) (fl_request fl) vs" "Results rdata = patches (fl_ext fl) vs"
    using sound by blast
  with m show ?thesis by blast
qed

theorem overlapping_requests_vouched_witness:
  "\<exists>c fl x v' resp vs. (crowd_step {old_ext} demo_lib [''n''] demo_client demo_client id)\<^sup>*\<^sup>*
        (crowd_of (serving demo_st demo_os)) c
     \<and> fl \<in> set (cr_flights c) \<and> resume (fl_ext fl) (fl_request fl) (fl_verifier fl) (p_verifier (cr_process c)) = (x, v')
     \<and> answer (fl_hx fl) x = Inr resp \<and> Status resp = 200 \<and> all_vouched {old_ext} (cr_past c) (fl_ext fl) (fl_request fl) vs"
proof -
  let ?step = "crowd_step {old_ext} demo_lib [''n''] demo_client demo_client id"
  let ?c = "crowd_of (serving demo_st demo_os)"
  have start: "p_verifier (cr_process ?c) = demo_running" "\<forall>e. p_phase (cr_process ?c) \<noteq> Exited e"
    by (simp_all add: crowd_of_def serving_def demo_st_def)
  obtain v' where "HandleCheckImages demo_hx old_ext (demo_http ''Bearer t'') demo_running
     = (Inr \<lparr> Status = 200, ContentType = ''application/json'', ResponseBody = ''r/app@sha256:1'' \<rparr>, v')"
    using demo_served by (elim exE) (rule that)
  then obtain vr nv x where vr: "admit demo_hx (demo_http ''Bearer t'') demo_running = Inr vr"
    and nv: "GetVerifier (getenv old_ext) (notationVerifierFactory demo_running) vr = Inr nv"
    and run: "resume old_ext vr nv demo_running = (x, v')"
    and ans: "answer demo_hx x = Inr \<lparr> Status = 200, ContentType = ''application/json'', ResponseBody = ''r/app@sha256:1'' \<rparr>"
    by (rule served_in_two_parts) simp_all
  let ?fl = "\<lparr> fl_hx = demo_hx, fl_ext = old_ext, fl_request = vr, fl_verifier = nv \<rparr>"
  let ?c1 = "?c\<lparr> cr_flights := ?fl # cr_flights ?c \<rparr>"
  have "?step ?c ?c1"
    using start vr nv by (intro crowd_step.arrive [where r = "demo_http ''Bearer t''"]) (simp_all add: demo_well_formed)
  then have reach: "?step\<^sup>*\<^sup>* ?c ?c1" by (rule r_into_rtranclp)
  have p: "cr_process ?c1 = cr_process ?c" and fl: "?fl \<in> set (cr_flights ?c1)" by simp_all
  have run1: "resume (fl_ext ?fl) (fl_request ?fl) (fl_verifier ?fl) (p_verifier (cr_process ?c1)) = (x, v')"
    using run start(1) by simp
  obtain vs where "all_vouched {old_ext} (cr_past ?c1) (fl_ext ?fl) (fl_request ?fl) vs"
    using overlapping_requests_vouched [OF demo_started demo_run_ok reach start(2) [folded p] fl run1] ans by auto
  with reach fl run1 ans show ?thesis by (intro exI conjI) (assumption | simp)+
qed


text \<open>The verifier \<^verbatim>\<open>good\<close> accepts the image, the verifier \<^verbatim>\<open>old\<close> that the reload brings into force does not.\<close>

definition reloaded :: "(string, string, (string \<times> cache_entry) list) verifier" where
  "reloaded = snd (UpdateNotationVerifier demo_lib calm demo_os [''n''] (demo_verifier [(''tp'', ''good'')]))"


end
